(* ===== verification/Veld_Prelude.thy ===== *)
theory Veld_Prelude
  imports Main "HOL-Library.Word" "HOL-Library.Monad_Syntax"
begin

text \<open>
  The vocabulary the component theories share: Go's fixed-width integers and byte
  slices, reads of a slice that panic out of range, big-endian encodings of
  encoding/binary, ASCII case folding of package strings, and the fact collections
  the component proofs draw on.

  A Go slice of bytes is a list of 8-bit words. A read \<open>pkt[i]\<close> or \<open>pkt[i:j]\<close> out of
  range panics in Go, so those reads are partial here (\<open>byte_at\<close>, \<open>byte_slice\<close>): the
  value None is the panic, and a definition that reads a packet lives in the option monad.
\<close>

unbundle bit_operations_syntax

type_synonym byte = "8 word"
type_synonym bytes = "8 word list"
type_synonym u16 = "16 word"
type_synonym u32 = "32 word"
type_synonym u64 = "64 word"

text \<open>A point in time and a duration, both in nanoseconds (package time).\<close>

type_synonym gotime = int
type_synonym duration = int

abbreviation second :: duration where "second \<equiv> 1000000000"
abbreviation minute :: duration where "minute \<equiv> 60 * second"
abbreviation hour :: duration where "hour \<equiv> 60 * minute"

text \<open>The Unix time of an instant, in whole seconds (Go rounds towards minus infinity).\<close>

definition unix_secs :: "gotime \<Rightarrow> int" where
  "unix_secs t = t div second"

named_theorems panic_free \<open>reads that are in range\<close>
named_theorems be_codec \<open>big-endian encodings and their inverses\<close>
named_theorems inv_intros \<open>operations that keep a component's invariant\<close>

section \<open>Reads that may panic\<close>

definition byte_at :: "bytes \<Rightarrow> nat \<Rightarrow> byte option" where
  "byte_at b i = (if i < length b then Some (b ! i) else None)"

definition byte_slice :: "bytes \<Rightarrow> nat \<Rightarrow> nat \<Rightarrow> bytes option" where
  "byte_slice b i j = (if i \<le> j \<and> j \<le> length b then Some (take (j - i) (drop i b)) else None)"

definition byte_from :: "bytes \<Rightarrow> nat \<Rightarrow> bytes option" where
  "byte_from b i = (if i \<le> length b then Some (drop i b) else None)"

lemma byte_at_Some [panic_free, simp]: "i < length b \<Longrightarrow> byte_at b i = Some (b ! i)"
  by (simp add: byte_at_def)

lemma byte_slice_Some [panic_free, simp]:
  "i \<le> j \<Longrightarrow> j \<le> length b \<Longrightarrow> byte_slice b i j = Some (take (j - i) (drop i b))"
  by (simp add: byte_slice_def)

lemma byte_from_Some [panic_free, simp]: "i \<le> length b \<Longrightarrow> byte_from b i = Some (drop i b)"
  by (simp add: byte_from_def)

text \<open>When a read panics; with \<open>bind_eq_None_conv\<close> these reduce a proof that code does not panic to
  inequalities on lengths.\<close>

lemma reads_None [panic_free]:
  "byte_at b i = None \<longleftrightarrow> length b \<le> i"
  "byte_slice b i j = None \<longleftrightarrow> j < i \<or> length b < j"
  "byte_from b i = None \<longleftrightarrow> length b < i"
  by (auto simp: byte_at_def byte_slice_def byte_from_def)

declare bind_eq_None_conv [panic_free]

lemma byte_slice_length: "byte_slice b i j = Some s \<Longrightarrow> length s = j - i"
  by (auto simp: byte_slice_def split: if_splits)

section \<open>Big-endian integers (encoding/binary)\<close>

fun be_nat :: "bytes \<Rightarrow> nat" where
  "be_nat [] = 0"
| "be_nat (b # bs) = unat b * 256 ^ length bs + be_nat bs"

definition be_uint :: "nat \<Rightarrow> bytes \<Rightarrow> 'a::len word option" where
  "be_uint n b = map_option (\<lambda>s. of_nat (be_nat s)) (byte_slice b 0 n)"

definition BE_Uint16 :: "bytes \<Rightarrow> u16 option" where
  "BE_Uint16 b = be_uint 2 b"

definition BE_Uint32 :: "bytes \<Rightarrow> u32 option" where
  "BE_Uint32 b = be_uint 4 b"

definition BE_Uint64 :: "bytes \<Rightarrow> u64 option" where
  "BE_Uint64 b = be_uint 8 b"

fun be_bytes :: "nat \<Rightarrow> nat \<Rightarrow> bytes" where
  "be_bytes 0 v = []"
| "be_bytes (Suc n) v = be_bytes n (v div 256) @ [of_nat (v mod 256)]"

text \<open>\<open>put_bytes b off s\<close> overwrites \<open>b\<close> from \<open>off\<close> with \<open>s\<close> and drops what does not
  fit, as the built-in copy does.\<close>

definition put_bytes :: "bytes \<Rightarrow> nat \<Rightarrow> bytes \<Rightarrow> bytes" where
  "put_bytes b off s = take off b @ take (length b - off) s @ drop (off + length s) b"

definition PutUint16 :: "bytes \<Rightarrow> nat \<Rightarrow> u16 \<Rightarrow> bytes" where
  "PutUint16 b off v = put_bytes b off (be_bytes 2 (unat v))"

definition PutUint32 :: "bytes \<Rightarrow> nat \<Rightarrow> u32 \<Rightarrow> bytes" where
  "PutUint32 b off v = put_bytes b off (be_bytes 4 (unat v))"

definition PutUint64 :: "bytes \<Rightarrow> nat \<Rightarrow> u64 \<Rightarrow> bytes" where
  "PutUint64 b off v = put_bytes b off (be_bytes 8 (unat v))"

lemma length_be_bytes [simp]: "length (be_bytes n v) = n"
  by (induction n arbitrary: v) auto

lemma length_put_bytes [simp]: "off \<le> length b \<Longrightarrow> length (put_bytes b off s) = length b"
  by (auto simp: put_bytes_def)

lemma put_bytes_at: "length a = off \<Longrightarrow> length s = length b \<Longrightarrow> put_bytes (a @ b @ c) off s = a @ s @ c"
  by (simp add: put_bytes_def)

lemma length_PutUint [simp]:
  "off \<le> length b \<Longrightarrow> length (PutUint16 b off v) = length b"
  "off \<le> length b \<Longrightarrow> length (PutUint32 b off w) = length b"
  "off \<le> length b \<Longrightarrow> length (PutUint64 b off x) = length b"
  by (simp_all add: PutUint16_def PutUint32_def PutUint64_def)

lemma be_nat_append: "be_nat (xs @ ys) = be_nat xs * 256 ^ length ys + be_nat ys"
  by (induction xs) (auto simp: power_add algebra_simps)

lemma be_nat_be_bytes: "be_nat (be_bytes n v) = v mod 256 ^ n"
proof (induction n arbitrary: v)
  case 0
  then show ?case by simp
next
  case (Suc n)
  have "be_nat (be_bytes (Suc n) v) = v div 256 mod 256 ^ n * 256 + v mod 256"
    by (simp add: be_nat_append Suc.IH unat_of_nat)
  also have "\<dots> = v mod 256 ^ Suc n"
    by (simp add: mod_mult2_eq)
  finally show ?case .
qed

lemma be_nat_bound: "be_nat b < 256 ^ length b"
proof (induction b)
  case Nil
  then show ?case by simp
next
  case (Cons x b)
  have "unat x < 256"
    by (rule order_less_le_trans [OF unsigned_less]) simp
  then have "unat x * 256 ^ length b + be_nat b < (unat x + 1) * 256 ^ length b"
    using Cons by simp
  also have "\<dots> \<le> 256 * 256 ^ length b"
    using \<open>unat x < 256\<close> by (intro mult_right_mono) auto
  finally show ?case by simp
qed

lemma be_uint_be_bytes [be_codec]:
  fixes v :: "'a::len word"
  assumes "2 ^ LENGTH('a) \<le> (256::nat) ^ n"
  shows "be_uint n (be_bytes n (unat v) @ s) = Some v"
proof -
  have "unat v < 256 ^ n"
    by (rule order_less_le_trans [OF unsigned_less assms])
  then show ?thesis
    by (simp add: be_uint_def be_nat_be_bytes)
qed

section \<open>Case folding (package strings), on ASCII\<close>

definition lower_char :: "char \<Rightarrow> char" where
  "lower_char c = (if of_char c \<ge> (65::nat) \<and> of_char c \<le> (90::nat)
                   then char_of (of_char c + (32::nat)) else c)"

definition ToLower :: "string \<Rightarrow> string" where
  "ToLower s = map lower_char s"

definition EqualFold :: "string \<Rightarrow> string \<Rightarrow> bool" where
  "EqualFold s t \<longleftrightarrow> ToLower s = ToLower t"

lemma lower_char_idem [simp]: "lower_char (lower_char c) = lower_char c"
  by (auto simp: lower_char_def)

lemma ToLower_idem [simp]: "ToLower (ToLower s) = ToLower s"
  by (simp add: ToLower_def)

lemma ToLower_Nil [simp]: "ToLower s = [] \<longleftrightarrow> s = []" "ToLower [] = []"
  by (auto simp: ToLower_def)

definition HasPrefix :: "string \<Rightarrow> string \<Rightarrow> bool" where
  "HasPrefix s p \<longleftrightarrow> take (length p) s = p"

section \<open>Word arithmetic the components share\<close>

lemma unat_sub_le: "(b::'a::len word) \<le> a \<Longrightarrow> unat (a - b) = unat a - unat b"
  by (simp add: unat_sub)

lemma unat_le_iff: "(a::'a::len word) \<le> b \<longleftrightarrow> unat a \<le> unat b"
  by (rule word_le_nat_alt)

lemma unat_less_iff: "(a::'a::len word) < b \<longleftrightarrow> unat a < unat b"
  by (rule word_less_nat_alt)

text \<open>The bound of a word of each width the sources use, with the numeral written out.\<close>

lemma unat_bounds:
  "unat (a :: 8 word) < 256" "unat (b :: 16 word) < 65536" "unat (c :: 32 word) < 4294967296"
  "unat (d :: 64 word) < 18446744073709551616"
  "unat (e :: 128 word) < 340282366920938463463374607431768211456"
  by (rule order_less_le_trans [OF unsigned_less], simp)+

lemma xor_eq_0_iff: "(a :: 'a::len word) XOR b = 0 \<longleftrightarrow> a = b"
  by (metis xor.assoc xor.left_neutral xor.right_neutral xor_self_eq)

lemma mod_window_inj:
  fixes a b m :: nat
  assumes "a mod m = b mod m" "a < b + m" "b < a + m"
  shows "a = b"
proof (rule ccontr)
  assume "a \<noteq> b"
  then consider "a < b" | "b < a" by linarith
  then show False
  proof cases
    case 1
    then have "m dvd (b - a)" using assms(1) by (metis less_imp_le mod_eq_dvd_iff_nat)
    with 1 assms(3) show False by (auto dest: dvd_imp_le)
  next
    case 2
    then have "m dvd (a - b)" using assms(1) by (metis less_imp_le mod_eq_dvd_iff_nat)
    with 2 assms(2) show False by (auto dest: dvd_imp_le)
  qed
qed

lemma mem_map_filter: "x \<in> set (List.map_filter f xs) \<longleftrightarrow> (\<exists>y \<in> set xs. f y = Some x)"
  by (induction xs) (auto simp: List.map_filter_simps split: option.splits)

end
