(* ===== verification/Session.thy ===== *)
theory Session
  imports Veld_Prelude
begin

text \<open>
  Package internal/session: the sliding replay window (window.go) and a session
  (session.go). The window keeps Go's representation, a ring of 32 64-bit words indexed
  by the nonce modulo 2048; \<open>represents w S\<close> says which set \<open>S\<close> of accepted nonces a
  window stands for, and every operation is shown to implement the set view.

  The AEAD comes from the Noise library, so sealing and opening are arguments
  (\<open>seal\<close>, \<open>unseal\<close>) of the session's operations. Concurrent calls of \<open>Decrypt\<close> are a step relation over
  the three critical sections of the code.
\<close>

section \<open>The replay window\<close>

definition WindowSize :: nat where
  "WindowSize = 2048"

definition bitmapWords :: nat where
  "bitmapWords = WindowSize div 64"

record replayWindow =
  win_max :: u64
  bitmap :: "u64 list"
  inited :: bool

text \<open>The zero value of the Go struct.\<close>

definition zero_window :: replayWindow where
  "zero_window = \<lparr>win_max = 0, bitmap = replicate bitmapWords 0, inited = False\<rparr>"

definition setBit :: "replayWindow \<Rightarrow> u64 \<Rightarrow> replayWindow" where
  "setBit w n =
     (let pos = n mod of_nat WindowSize; i = unat (pos div 64)
      in w\<lparr>bitmap := (bitmap w)[i := (bitmap w ! i) OR push_bit (unat (pos mod 64)) 1]\<rparr>)"

definition clearBit :: "replayWindow \<Rightarrow> u64 \<Rightarrow> replayWindow" where
  "clearBit w n =
     (let pos = n mod of_nat WindowSize; i = unat (pos div 64)
      in w\<lparr>bitmap := (bitmap w)[i := (bitmap w ! i) AND NOT (push_bit (unat (pos mod 64)) 1)]\<rparr>)"

definition getBit :: "replayWindow \<Rightarrow> u64 \<Rightarrow> bool" where
  "getBit w n =
     (let pos = n mod of_nat WindowSize
      in (bitmap w ! unat (pos div 64)) AND push_bit (unat (pos mod 64)) 1 \<noteq> 0)"

definition check :: "replayWindow \<Rightarrow> u64 \<Rightarrow> bool" where
  "check w n =
     (if \<not> inited w \<or> n > win_max w then True
      else win_max w - n < of_nat WindowSize \<and> \<not> getBit w n)"

text \<open>The loop \<open>for i := 1; i <= advance; i++\<close> that clears the bits the window slides over.\<close>

fun clear_advance :: "replayWindow \<Rightarrow> nat \<Rightarrow> replayWindow" where
  "clear_advance w 0 = w"
| "clear_advance w (Suc k) = clearBit (clear_advance w k) (win_max w + of_nat (Suc k))"

text \<open>What \<open>checkAndMark\<close> does to the bits when a nonce above the maximum arrives.\<close>

definition slide :: "replayWindow \<Rightarrow> u64 \<Rightarrow> replayWindow" where
  "slide w n =
     (let advance = n - win_max w
      in if advance \<ge> of_nat WindowSize
         then w\<lparr>bitmap := replicate (length (bitmap w)) 0\<rparr>
         else clear_advance w (unat advance))"

definition checkAndMark :: "replayWindow \<Rightarrow> u64 \<Rightarrow> replayWindow \<times> bool" where
  "checkAndMark w n =
     (if \<not> inited w then (setBit (w\<lparr>win_max := n, inited := True\<rparr>) n, True)
      else if n > win_max w then
        (setBit ((slide w n)\<lparr>win_max := n\<rparr>) n, True)
      else if win_max w - n \<ge> of_nat WindowSize then (w, False)
      else if getBit w n then (w, False)
      else (setBit w n, True))"

subsection \<open>The ring of bits\<close>

abbreviation slot :: "u64 \<Rightarrow> nat" where
  "slot n \<equiv> unat n mod WindowSize"

definition ring_ok :: "replayWindow \<Rightarrow> bool" where
  "ring_ok w \<longleftrightarrow> length (bitmap w) = bitmapWords"

lemma WindowSize_word [simp]: "(of_nat WindowSize :: u64) = 2048"
  by (simp add: WindowSize_def)

lemma slot_index [simp]: "unat (n mod (2048::u64) div 64) = slot n div 64"
  by (simp add: WindowSize_def unat_div unat_mod)

lemma slot_offset [simp]: "unat (n mod (2048::u64) mod 64) = slot n mod 64"
  by (simp add: WindowSize_def unat_mod)

lemma slot_index_bound [simp]: "slot n div 64 < bitmapWords"
  by (simp add: bitmapWords_def WindowSize_def less_mult_imp_div_less)

lemma getBit_bit: "getBit w n \<longleftrightarrow> bit (bitmap w ! (slot n div 64)) (slot n mod 64)"
  by (simp add: getBit_def Let_def bit_iff_and_push_bit_not_eq_0)

lemma slot_split: "slot m = slot n \<longleftrightarrow> slot m div 64 = slot n div 64 \<and> slot m mod 64 = slot n mod 64"
  by (metis div_mult_mod_eq)

lemma getBit_setBit [simp]:
  "ring_ok w \<Longrightarrow> getBit (setBit w n) m \<longleftrightarrow> slot m = slot n \<or> getBit w m"
  by (cases "slot m div 64 = slot n div 64")
    (auto simp: getBit_bit setBit_def Let_def ring_ok_def slot_split [of m n] bit_simps)

lemma getBit_clearBit [simp]:
  "ring_ok w \<Longrightarrow> getBit (clearBit w n) m \<longleftrightarrow> slot m \<noteq> slot n \<and> getBit w m"
  by (cases "slot m div 64 = slot n div 64")
    (auto simp: getBit_bit clearBit_def Let_def ring_ok_def slot_split [of m n] bit_simps)

lemma ring_ok_upd [simp]:
  "ring_ok (setBit w n) = ring_ok w" "ring_ok (clearBit w n) = ring_ok w"
  "ring_ok (clear_advance w k) = ring_ok w"
  "ring_ok (w\<lparr>win_max := m\<rparr>) = ring_ok w" "ring_ok (w\<lparr>inited := b\<rparr>) = ring_ok w"
  "ring_ok zero_window"
  by (induction k) (auto simp: ring_ok_def setBit_def clearBit_def Let_def zero_window_def)

lemma win_fields [simp]:
  "win_max (setBit w n) = win_max w" "inited (setBit w n) = inited w"
  "win_max (clearBit w n) = win_max w" "inited (clearBit w n) = inited w"
  "win_max (clear_advance w k) = win_max w" "inited (clear_advance w k) = inited w"
  by (induction k) (auto simp: setBit_def clearBit_def Let_def)

lemma getBit_upd [simp]:
  "getBit (w\<lparr>win_max := m\<rparr>) n = getBit w n" "getBit (w\<lparr>inited := b\<rparr>) n = getBit w n"
  by (simp_all add: getBit_def)

lemma getBit_clear_advance:
  "ring_ok w \<Longrightarrow> getBit (clear_advance w k) m \<longleftrightarrow>
     getBit w m \<and> (\<forall>i. 1 \<le> i \<and> i \<le> k \<longrightarrow> slot m \<noteq> slot (win_max w + of_nat i))"
  by (induction k) (auto simp: le_Suc_eq)

lemma getBit_replicate [simp]: "ring_ok w \<Longrightarrow> \<not> getBit (w\<lparr>bitmap := replicate (length (bitmap w)) 0\<rparr>) n"
  by (simp add: getBit_bit ring_ok_def)

subsection \<open>What a window stands for\<close>

text \<open>A nonce is fresh for the accepted set \<open>S\<close> when it was not accepted before and is less
  than \<open>WindowSize\<close> behind every accepted nonce.\<close>

definition fresh :: "u64 set \<Rightarrow> u64 \<Rightarrow> bool" where
  "fresh S n \<longleftrightarrow> n \<notin> S \<and> (\<forall>m\<in>S. unat m < unat n + WindowSize)"

definition represents :: "replayWindow \<Rightarrow> u64 set \<Rightarrow> bool" where
  "represents w S \<longleftrightarrow> ring_ok w \<and> (inited w \<longleftrightarrow> S \<noteq> {}) \<and>
     (if S = {} then \<forall>n. \<not> getBit w n
      else win_max w \<in> S \<and> (\<forall>n\<in>S. n \<le> win_max w) \<and>
           (\<forall>n. n \<le> win_max w \<and> unat (win_max w) < unat n + WindowSize \<longrightarrow>
                getBit w n = (n \<in> S)))"

lemma represents_zero: "represents zero_window {}"
proof -
  have "\<not> getBit zero_window n" for n
    by (simp add: getBit_bit zero_window_def)
  then show ?thesis
    by (simp add: represents_def) (simp add: zero_window_def)
qed

lemma slot_inj:
  "slot m = slot n \<Longrightarrow> unat m < unat n + WindowSize \<Longrightarrow> unat n < unat m + WindowSize \<Longrightarrow> m = n"
  by (metis mod_window_inj unsigned_word_eqI)

lemma behind_iff:
  "n \<le> m \<Longrightarrow> (m - n < (2048::u64)) \<longleftrightarrow> unat m < unat n + WindowSize"
  by (auto simp: unat_less_iff unat_sub_le unat_le_iff WindowSize_def)

lemma fresh_max:
  assumes "represents w S" "S \<noteq> {}"
  shows "fresh S n \<longleftrightarrow> n \<notin> S \<and> unat (win_max w) < unat n + WindowSize"
  using assms by (auto simp: represents_def fresh_def unat_le_iff intro: le_less_trans)

lemma above_max_fresh:
  assumes "represents w S" "win_max w < n"
  shows "fresh S n"
proof -
  have "m \<le> win_max w" if "m \<in> S" for m
    using assms(1) that by (auto simp: represents_def split: if_splits)
  with assms(2) show ?thesis
    by (fastforce simp: fresh_def unat_le_iff unat_less_iff)
qed

lemma check_fresh: "represents w S \<Longrightarrow> check w n = fresh S n"
proof (cases "inited w \<and> n \<le> win_max w")
  case True
  assume R: "represents w S"
  with True have "S \<noteq> {}" by (simp add: represents_def)
  then have "fresh S n \<longleftrightarrow> n \<notin> S \<and> unat (win_max w) < unat n + WindowSize"
    by (rule fresh_max [OF R])
  with R True \<open>S \<noteq> {}\<close> show ?thesis
    by (auto simp: check_def behind_iff represents_def)
next
  case False
  assume R: "represents w S"
  with False show ?thesis
    by (auto simp: check_def represents_def fresh_def above_max_fresh [OF R, unfolded fresh_def])
qed

lemma represents_insert:
  assumes "ring_ok w" "inited w" "win_max w = M" "M \<in> insert n S" "n \<le> M"
    and "\<forall>m\<in>S. m \<le> M"
    and "\<And>m. m \<le> M \<Longrightarrow> unat M < unat m + WindowSize \<Longrightarrow> m \<noteq> n \<Longrightarrow> getBit w m = (m \<in> S)"
    and "unat M < unat n + WindowSize"
  shows "represents (setBit w n) (insert n S)"
proof -
  have "getBit (setBit w n) m = (m \<in> insert n S)"
    if m: "m \<le> M" "unat M < unat m + WindowSize" for m
  proof (cases "m = n")
    case False
    have "slot m \<noteq> slot n"
      using slot_inj [of m n] False m assms(5,8) by (auto simp: unat_le_iff)
    with assms(1,7) m False show ?thesis by simp
  qed (use assms(1) in simp)
  with assms show ?thesis
    by (auto simp: represents_def)
qed

lemma slide_fields [simp]:
  "ring_ok (slide w n) = ring_ok w" "inited (slide w n) = inited w"
  by (auto simp: slide_def Let_def ring_ok_def) (auto simp: ring_ok_def [symmetric])

lemma slide_ahead:
  assumes "ring_ok w" "win_max w < m" "m \<le> n"
  shows "\<not> getBit (slide w n) m"
proof (cases "n - win_max w \<ge> 2048")
  case False
  define i where "i = unat m - unat (win_max w)"
  have "slot m = slot (win_max w + of_nat i)"
    using assms(2) by (simp add: i_def unat_less_iff less_imp_le of_nat_diff)
  moreover have "1 \<le> i" "i \<le> unat (n - win_max w)"
    using assms(2,3) by (auto simp: i_def unat_sub_le unat_less_iff unat_le_iff)
  ultimately have "\<not> getBit (clear_advance w (unat (n - win_max w))) m"
    using getBit_clear_advance [OF assms(1)] by blast
  with False show ?thesis by (simp add: slide_def Let_def)
qed (use assms(1) in \<open>simp add: slide_def Let_def\<close>)

lemma slide_behind:
  assumes "ring_ok w" "m \<le> win_max w" "win_max w < n" "unat n < unat m + WindowSize"
  shows "getBit (slide w n) m = getBit w m"
proof -
  have adv: "unat (n - win_max w) = unat n - unat (win_max w)"
    using assms(3) by (simp add: unat_sub_le)
  have "slot m \<noteq> slot (win_max w + of_nat i)" if i: "1 \<le> i" "i \<le> unat (n - win_max w)" for i
  proof
    assume eq: "slot m = slot (win_max w + of_nat i)"
    have "unat n < 2 ^ 64"
      by (rule order_less_le_trans [OF unsigned_less]) simp
    then have u: "unat (win_max w + of_nat i) = unat (win_max w) + i"
      using i adv assms(3) by (simp add: unat_word_ariths unat_of_nat unat_less_iff)
    have "m = win_max w + of_nat i"
      by (rule slot_inj [OF eq]) (use u i adv assms in \<open>auto simp: unat_le_iff unat_less_iff\<close>)
    then show False
      using u assms(2) i by (simp add: unat_le_iff)
  qed
  moreover have "\<not> n - win_max w \<ge> 2048"
    using assms adv by (auto simp: unat_le_iff unat_less_iff WindowSize_def)
  ultimately show ?thesis
    using getBit_clear_advance [OF assms(1)] by (simp add: slide_def Let_def)
qed

lemma mark_above:
  assumes R: "represents w S" and I: "inited w" and gt: "win_max w < n"
  shows "\<exists>w'. checkAndMark w n = (w', True) \<and> represents w' (insert n S)"
proof -
  from R I have S: "win_max w \<in> S" "\<forall>m\<in>S. m \<le> win_max w" "ring_ok w"
    and bits: "\<And>m. m \<le> win_max w \<Longrightarrow> unat (win_max w) < unat m + WindowSize \<Longrightarrow> getBit w m = (m \<in> S)"
    by (auto simp: represents_def)
  have "getBit (slide w n) m = (m \<in> S)"
    if m: "m \<le> n" "unat n < unat m + WindowSize" "m \<noteq> n" for m
  proof (cases "m \<le> win_max w")
    case True
    moreover have "unat (win_max w) < unat m + WindowSize"
      using m(2) gt by (simp add: unat_less_iff)
    ultimately show ?thesis
      using slide_behind [OF S(3) True gt m(2)] bits by simp
  next
    case False
    with slide_ahead [OF S(3) _ m(1)] S(2) show ?thesis by auto
  qed
  then have "represents (setBit ((slide w n)\<lparr>win_max := n\<rparr>) n) (insert n S)"
    by (intro represents_insert [where M = n])
      (use S I gt in \<open>auto simp: WindowSize_def intro: order_trans less_imp_le\<close>)
  with I gt show ?thesis by (simp add: checkAndMark_def)
qed

lemma mark_fresh:
  assumes R: "represents w S" and F: "fresh S n"
  shows "\<exists>w'. checkAndMark w n = (w', True) \<and> represents w' (insert n S)"
proof (cases "inited w")
  case False
  with R have "S = {}" "ring_ok w" "\<forall>m. \<not> getBit w m" by (auto simp: represents_def)
  then have "represents (setBit (w\<lparr>win_max := n, inited := True\<rparr>) n) (insert n S)"
    by (intro represents_insert [where M = n]) (auto simp: WindowSize_def)
  with False show ?thesis by (simp add: checkAndMark_def)
next
  case I: True
  show ?thesis
  proof (cases "win_max w < n")
    case True
    with R I show ?thesis by (rule mark_above)
  next
    case le: False
    have S: "S \<noteq> {}" "win_max w \<in> S" "\<forall>m\<in>S. m \<le> win_max w" "ring_ok w"
      and bits: "\<And>m. m \<le> win_max w \<Longrightarrow> unat (win_max w) < unat m + WindowSize \<Longrightarrow> getBit w m = (m \<in> S)"
      using R I by (auto simp: represents_def)
    have near: "unat (win_max w) < unat n + WindowSize" "n \<notin> S"
      using F fresh_max [OF R S(1)] by auto
    have "represents (setBit w n) (insert n S)"
      by (rule represents_insert [where M = "win_max w"]) (use S I bits near le in auto)
    moreover have "checkAndMark w n = (setBit w n, True)"
      using I le near bits [of n] by (simp add: checkAndMark_def Let_def behind_iff not_le [symmetric])
        (simp add: not_le behind_iff)
    ultimately show ?thesis by blast
  qed
qed

lemma mark_stale:
  assumes R: "represents w S" and F: "\<not> fresh S n"
  shows "checkAndMark w n = (w, False)"
proof -
  have S: "S \<noteq> {}" using F by (auto simp: fresh_def)
  then have I: "inited w" using R by (simp add: represents_def)
  have le: "\<not> win_max w < n" using above_max_fresh [OF R] F by blast
  have "\<not> check w n" using check_fresh [OF R] F by simp
  with I le show ?thesis
    by (auto simp: check_def checkAndMark_def Let_def)
qed

section \<open>The contract of a replay filter\<close>

text \<open>
  What \<open>Session.Decrypt\<close> relies on: a test that changes nothing, and a test-and-record
  that agrees with it. \<open>rep w S\<close> relates the filter's state to the nonces accepted so far.
\<close>

fun filter_run :: "('w \<Rightarrow> 'n \<Rightarrow> 'w \<times> bool) \<Rightarrow> 'w \<Rightarrow> 'n list \<Rightarrow> bool list" where
  "filter_run mark w [] = []"
| "filter_run mark w (n # ns) = (let (w', ok) = mark w n in ok # filter_run mark w' ns)"

fun filter_spec :: "('n set \<Rightarrow> 'n \<Rightarrow> bool) \<Rightarrow> 'n set \<Rightarrow> 'n list \<Rightarrow> bool list" where
  "filter_spec new S [] = []"
| "filter_spec new S (n # ns) = new S n # filter_spec new (if new S n then insert n S else S) ns"

locale replay_filter =
  fixes rep :: "'w \<Rightarrow> 'n set \<Rightarrow> bool"
    and chk :: "'w \<Rightarrow> 'n \<Rightarrow> bool"
    and mark :: "'w \<Rightarrow> 'n \<Rightarrow> 'w \<times> bool"
    and new :: "'n set \<Rightarrow> 'n \<Rightarrow> bool"
  assumes chk_new: "rep w S \<Longrightarrow> chk w n = new S n"
    and mark_new: "rep w S \<Longrightarrow> new S n \<Longrightarrow> \<exists>w'. mark w n = (w', True) \<and> rep w' (insert n S)"
    and mark_old: "rep w S \<Longrightarrow> \<not> new S n \<Longrightarrow> mark w n = (w, False)"
    and new_notin: "new S n \<Longrightarrow> n \<notin> S"
begin

lemma mark_cases:
  assumes "rep w S" "mark w n = (w', ok)"
  shows "ok = new S n \<and> rep w' (if ok then insert n S else S)"
  using assms mark_new [of w S n] mark_old [of w S n] by (cases "new S n") auto

lemma run_spec: "rep w S \<Longrightarrow> filter_run mark w ns = filter_spec new S ns"
proof (induction ns arbitrary: w S)
  case (Cons n ns)
  obtain w' ok where "mark w n = (w', ok)" by fastforce
  with mark_cases [OF Cons.prems this] Cons.IH show ?case by auto
qed simp

lemma marked_rejected:
  assumes "rep w S" "mark w n = (w', True)"
  shows "\<not> chk w' n \<and> mark w' n = (w', False)"
proof -
  have R: "rep w' (insert n S)" using mark_cases [OF assms] by simp
  then have "\<not> new (insert n S) n" using new_notin by blast
  with R show ?thesis using chk_new mark_old by simp
qed

end

interpretation window: replay_filter represents check checkAndMark fresh
proof
  show "represents w S \<Longrightarrow> check w n = fresh S n" for w S n
    by (rule check_fresh)
  show "represents w S \<Longrightarrow> fresh S n \<Longrightarrow> \<exists>w'. checkAndMark w n = (w', True) \<and> represents w' (insert n S)"
    for w S n by (rule mark_fresh)
  show "represents w S \<Longrightarrow> \<not> fresh S n \<Longrightarrow> checkAndMark w n = (w, False)" for w S n
    by (rule mark_stale)
  show "fresh S n \<Longrightarrow> n \<notin> S" for S n
    by (simp add: fresh_def)
qed

section \<open>A session\<close>

definition RekeyThreshold :: u64 where
  "RekeyThreshold = push_bit 32 1"

definition RekeyTimeLimit :: duration where
  "RekeyTimeLimit = 120 * second"

datatype session_error = ErrRekeyRequired

record 'k Session =
  sess_id :: bytes
  send :: 'k
  recv :: 'k
  sendNonce :: u64
  createdAt :: gotime
  window :: replayWindow

definition New_Session :: "bytes \<Rightarrow> 'k \<Rightarrow> 'k \<Rightarrow> gotime \<Rightarrow> 'k Session" where
  "New_Session sid sk rk now =
     \<lparr>sess_id = sid, send = sk, recv = rk, sendNonce = 0, createdAt = now, window = zero_window\<rparr>"

definition SetCreatedAt :: "'k Session \<Rightarrow> gotime \<Rightarrow> 'k Session" where
  "SetCreatedAt s t = s\<lparr>createdAt := t\<rparr>"

definition NeedsRekey :: "'k Session \<Rightarrow> gotime \<Rightarrow> bool" where
  "NeedsRekey s now \<longleftrightarrow> sendNonce s \<ge> RekeyThreshold \<or> now - createdAt s \<ge> RekeyTimeLimit"

definition Encrypt ::
  "('k \<Rightarrow> u64 \<Rightarrow> bytes \<Rightarrow> bytes) \<Rightarrow> 'k Session \<Rightarrow> bytes \<Rightarrow> 'k Session \<times> (session_error + u64 \<times> bytes)" where
  "Encrypt seal s plaintext =
     (let s' = s\<lparr>sendNonce := sendNonce s + 1\<rparr>; n = sendNonce s' - 1
      in if n \<ge> RekeyThreshold then (s', Inl ErrRekeyRequired)
         else (s', Inr (n, seal (send s) n plaintext)))"

text \<open>Every failure of \<open>Decrypt\<close> is the result \<open>nil, nil\<close>: here None.\<close>

definition Decrypt ::
  "('k \<Rightarrow> u64 \<Rightarrow> bytes \<Rightarrow> bytes option) \<Rightarrow> 'k Session \<Rightarrow> u64 \<Rightarrow> bytes \<Rightarrow> 'k Session \<times> bytes option" where
  "Decrypt unseal s nonce ciphertext =
     (if nonce \<ge> RekeyThreshold then (s, None)
      else if \<not> check (window s) nonce then (s, None)
      else case unseal (recv s) nonce ciphertext of
             None \<Rightarrow> (s, None)
           | Some plaintext \<Rightarrow>
               (let (w, valid) = checkAndMark (window s) nonce; s' = s\<lparr>window := w\<rparr>
                in if \<not> valid then (s', None) else (s', Some plaintext)))"

lemma RekeyThreshold_val [simp]: "RekeyThreshold = 4294967296"
  by (simp add: RekeyThreshold_def push_bit_eq_mult)

lemma Encrypt_frame [simp]:
  "window (fst (Encrypt seal s p)) = window s" "recv (fst (Encrypt seal s p)) = recv s"
  "send (fst (Encrypt seal s p)) = send s" "createdAt (fst (Encrypt seal s p)) = createdAt s"
  "sendNonce (fst (Encrypt seal s p)) = sendNonce s + 1"
  by (auto simp: Encrypt_def Let_def)

lemma Decrypt_frame [simp]:
  "recv (fst (Decrypt unseal s n ct)) = recv s" "send (fst (Decrypt unseal s n ct)) = send s"
  "sendNonce (fst (Decrypt unseal s n ct)) = sendNonce s"
  "createdAt (fst (Decrypt unseal s n ct)) = createdAt s"
  by (auto simp: Decrypt_def Let_def split: option.splits prod.splits)

lemma Decrypt_window:
  assumes "represents (window s) S" "Decrypt unseal s n ct = (s', r)"
  shows "represents (window s') (if r = None then S else insert n S) \<and>
         (r \<noteq> None \<longleftrightarrow> n < RekeyThreshold \<and> fresh S n \<and> unseal (recv s) n ct \<noteq> None) \<and>
         (r \<noteq> None \<longrightarrow> r = unseal (recv s) n ct) \<and> (r = None \<longrightarrow> s' = s)"
proof (cases "n < RekeyThreshold \<and> fresh S n \<and> unseal (recv s) n ct \<noteq> None")
  case True
  then obtain w' p where "checkAndMark (window s) n = (w', True)" "represents w' (insert n S)"
    and "unseal (recv s) n ct = Some p"
    using window.mark_new [OF assms(1), of n] by auto
  moreover from this True have "Decrypt unseal s n ct = (s\<lparr>window := w'\<rparr>, Some p)"
    using window.chk_new [OF assms(1), of n] by (simp add: Decrypt_def not_le)
  ultimately show ?thesis
    using True assms by auto
next
  case False
  then have "Decrypt unseal s n ct = (s, None)"
    using window.chk_new [OF assms(1), of n] by (auto simp: Decrypt_def split: option.splits)
  with False assms show ?thesis by auto
qed

text \<open>A sequence of \<open>Encrypt\<close> calls. The counter is advanced by one atomic add, so the
  calls of concurrent senders are such a sequence, in the order of their adds.\<close>

fun Encrypt_all ::
  "('k \<Rightarrow> u64 \<Rightarrow> bytes \<Rightarrow> bytes) \<Rightarrow> 'k Session \<Rightarrow> bytes list \<Rightarrow> (session_error + u64 \<times> bytes) list" where
  "Encrypt_all seal s [] = []"
| "Encrypt_all seal s (p # ps) = (let (s', r) = Encrypt seal s p in r # Encrypt_all seal s' ps)"

lemma Encrypt_all_nth:
  assumes "k < length ps" "unat (sendNonce s) + length ps \<le> 2 ^ 64"
  shows "Encrypt_all seal s ps ! k =
    (let n = sendNonce s + of_nat k
     in if unat (sendNonce s) + k < 2 ^ 32 then Inr (n, seal (send s) n (ps ! k))
        else Inl ErrRekeyRequired)"
  using assms
proof (induction ps arbitrary: k s)
  case (Cons p ps)
  obtain s' r where E: "Encrypt seal s p = (s', r)" by fastforce
  then have s': "sendNonce s' = sendNonce s + 1" "send s' = send s"
    using Encrypt_frame [of seal s p] by auto
  show ?case
  proof (cases k)
    case 0
    with E show ?thesis
      by (auto simp: Encrypt_def Let_def unat_le_iff)
  next
    case (Suc j)
    then have "unat (sendNonce s + 1) = unat (sendNonce s) + 1"
      using Cons.prems by (simp add: unat_word_ariths)
    with Suc Cons.prems Cons.IH [of j s'] s' E show ?thesis
      by (simp add: algebra_simps Let_def)
  qed
qed simp

lemma sent_nonces_distinct:
  "distinct [fst nc. Inr nc \<leftarrow>
     map (\<lambda>k. if k < 2 ^ 32 then Inr (of_nat k :: u64, f k) else Inl ErrRekeyRequired) [0..<m]]"
proof -
  have "[fst nc. Inr nc \<leftarrow> map (\<lambda>k. if k < 2 ^ 32 then Inr (of_nat k, f k) else Inl ErrRekeyRequired) ks]
        = map (of_nat :: nat \<Rightarrow> u64) (filter (\<lambda>k. k < 2 ^ 32) ks)" for ks
    by (induction ks) auto
  moreover have "inj_on (of_nat :: nat \<Rightarrow> u64) {k. k < 2 ^ 32}"
    by (rule inj_onI) (simp add: word_of_nat_eq_iff take_bit_nat_eq_self)
  then have "inj_on (of_nat :: nat \<Rightarrow> u64) (set (filter (\<lambda>k. k < 2 ^ 32) [0..<m]))"
    by (rule inj_on_subset) auto
  ultimately show ?thesis
    by (simp only: distinct_map distinct_filter distinct_upt)
qed

section \<open>Concurrent calls of Decrypt\<close>

text \<open>
  \<open>Decrypt\<close> takes the session's mutex twice: to test the nonce, and after the packet
  authenticated to test and record it. A call is in one of three places, and the
  steps of different calls interleave freely.
\<close>

datatype dcall = Called u64 bytes | Tested u64 bytes | Returned u64 "bytes option"

record 'k dsys =
  dsess :: "'k Session"
  dcalls :: "nat \<rightharpoonup> dcall"

inductive dec_step ::
  "('k \<Rightarrow> u64 \<Rightarrow> bytes \<Rightarrow> bytes option) \<Rightarrow> 'k dsys \<Rightarrow> 'k dsys \<Rightarrow> bool"
  for unseal where
  call: "dcalls d t = None \<Longrightarrow> dec_step unseal d (d\<lparr>dcalls := (dcalls d)(t \<mapsto> Called n ct)\<rparr>)"
| refuse: "dcalls d t = Some (Called n ct) \<Longrightarrow> n \<ge> RekeyThreshold \<or> \<not> check (window (dsess d)) n \<Longrightarrow>
    dec_step unseal d (d\<lparr>dcalls := (dcalls d)(t \<mapsto> Returned n None)\<rparr>)"
| test: "dcalls d t = Some (Called n ct) \<Longrightarrow> n < RekeyThreshold \<Longrightarrow> check (window (dsess d)) n \<Longrightarrow>
    dec_step unseal d (d\<lparr>dcalls := (dcalls d)(t \<mapsto> Tested n ct)\<rparr>)"
| forged: "dcalls d t = Some (Tested n ct) \<Longrightarrow> unseal (recv (dsess d)) n ct = None \<Longrightarrow>
    dec_step unseal d (d\<lparr>dcalls := (dcalls d)(t \<mapsto> Returned n None)\<rparr>)"
| commit: "dcalls d t = Some (Tested n ct) \<Longrightarrow> unseal (recv (dsess d)) n ct = Some p \<Longrightarrow>
    checkAndMark (window (dsess d)) n = (w, ok) \<Longrightarrow>
    dec_step unseal d (d\<lparr>dsess := (dsess d)\<lparr>window := w\<rparr>,
      dcalls := (dcalls d)(t \<mapsto> Returned n (if ok then Some p else None))\<rparr>)"

inductive dec_reach ::
  "('k \<Rightarrow> u64 \<Rightarrow> bytes \<Rightarrow> bytes option) \<Rightarrow> 'k Session \<Rightarrow> 'k dsys \<Rightarrow> bool"
  for unseal s where
  start: "dec_reach unseal s \<lparr>dsess = s, dcalls = Map.empty\<rparr>"
| step: "dec_reach unseal s d \<Longrightarrow> dec_step unseal d d' \<Longrightarrow> dec_reach unseal s d'"

definition delivered :: "'k dsys \<Rightarrow> nat \<Rightarrow> u64 \<Rightarrow> bool" where
  "delivered d t n \<longleftrightarrow> (\<exists>p. dcalls d t = Some (Returned n (Some p)))"

text \<open>The window records exactly the nonces that were delivered, each by one call.\<close>

definition dec_inv :: "'k dsys \<Rightarrow> u64 set \<Rightarrow> bool" where
  "dec_inv d S \<longleftrightarrow> represents (window (dsess d)) S \<and>
     (\<forall>t n. delivered d t n \<longrightarrow> n \<in> S) \<and>
     (\<forall>t u n. delivered d t n \<and> delivered d u n \<longrightarrow> t = u)"

lemma dec_inv_quiet:
  assumes "dec_inv d S" "\<nexists>n p. c = Returned n (Some p)"
    and "dcalls d t = None \<or> (\<exists>n ct. dcalls d t = Some (Called n ct) \<or> dcalls d t = Some (Tested n ct))"
  shows "dec_inv (d\<lparr>dcalls := (dcalls d)(t \<mapsto> c)\<rparr>) S"
  using assms by (auto simp: dec_inv_def delivered_def split: if_splits)

lemma dec_step_inv:
  assumes "dec_step unseal d d'" "dec_inv d S"
  shows "\<exists>S'. dec_inv d' S'"
  using assms(1)
proof (cases rule: dec_step.cases)
  case (commit t n ct p w ok)
  have R: "represents (window (dsess d)) S" using assms(2) by (simp add: dec_inv_def)
  from window.mark_cases [OF R commit(4)]
  have m: "ok = fresh S n" "represents w (if ok then insert n S else S)" by auto
  show ?thesis
  proof (cases ok)
    case True
    then have "n \<notin> S" using m window.new_notin by blast
    with assms(2) m commit True have "dec_inv d' (insert n S)"
      by (auto simp: dec_inv_def delivered_def split: if_splits)
    then show ?thesis by blast
  next
    case False
    with m window.mark_old [OF R] commit have "w = window (dsess d)" by auto
    with False commit have "d' = d\<lparr>dcalls := (dcalls d)(t \<mapsto> Returned n None)\<rparr>" by simp
    moreover have "dec_inv (d\<lparr>dcalls := (dcalls d)(t \<mapsto> Returned n None)\<rparr>) S"
      by (rule dec_inv_quiet [OF assms(2)]) (use commit in auto)
    ultimately show ?thesis by blast
  qed
qed (use assms(2) in \<open>blast intro: dec_inv_quiet\<close>)+

lemma dec_reach_inv:
  assumes "dec_reach unseal s d" "represents (window s) {}"
  shows "\<exists>S. dec_inv d S"
  using assms
proof (induction rule: dec_reach.induct)
  case start
  then show ?case by (auto simp: dec_inv_def delivered_def)
qed (blast intro: dec_step_inv)

section \<open>Properties\<close>

text \<open>
  C2. The replay window is exact: for every sequence of nonces, the decisions of
  \<open>checkAndMark\<close> from a zero window are those of the reference filter that keeps the whole
  set of accepted nonces: accept a nonce iff it was never accepted and is less than 2048
  behind the highest accepted one.
\<close>

theorem replay_window_exact:
  "filter_run checkAndMark zero_window ns = filter_spec fresh {} ns"
  by (rule window.run_spec [OF represents_zero])

text \<open>
  C9. However concurrent calls of \<open>Decrypt\<close> interleave, at most one call delivers the
  packet of a given nonce: the test before authentication may pass in several calls, the
  record after it passes in one.
\<close>

theorem decrypt_at_most_once:
  assumes "dec_reach unseal (New_Session sid sk rk now) d"
  shows "\<exists>t. {u. delivered d u n} \<subseteq> {t}"
proof -
  have "represents (window (New_Session sid sk rk now)) {}"
    by (simp add: New_Session_def represents_zero)
  with assms obtain S where "dec_inv d S" using dec_reach_inv by blast
  then have "t = u" if "delivered d t n" "delivered d u n" for t u
    using that unfolding dec_inv_def by blast
  then show ?thesis by blast
qed

theorem decrypt_at_most_once_witness:
  "\<exists>d. dec_reach (\<lambda>_ _ ct. Some ct) (New_Session [] (0::nat) 0 0) d \<and> delivered d 0 5 \<and>
       (\<exists>t. {u. delivered d u 5} \<subseteq> {t})"
proof -
  let ?f = "\<lambda>(_::nat) (_::u64) ct. Some ct"
  let ?s = "New_Session [] (0::nat) 0 0"
  obtain w where w: "checkAndMark zero_window 5 = (w, True)"
    using window.mark_new [OF represents_zero, of 5] by (auto simp: fresh_def)
  let ?d1 = "\<lparr>dsess = ?s, dcalls = [0 \<mapsto> Called 5 [7]]\<rparr>"
  let ?d2 = "\<lparr>dsess = ?s, dcalls = [0 \<mapsto> Tested 5 [7]]\<rparr>"
  let ?d3 = "\<lparr>dsess = ?s\<lparr>window := w\<rparr>, dcalls = [0 \<mapsto> Returned 5 (Some [7])]\<rparr>"
  have "dec_reach ?f ?s ?d1"
    using dec_reach.step [OF dec_reach.start dec_step.call [of _ 0 _ 5 "[7]"]] by simp
  moreover have "dec_step ?f ?d1 ?d2"
    using dec_step.test [of ?d1 0 5 "[7]" ?f] by (simp add: New_Session_def check_def zero_window_def)
  moreover have "dec_step ?f ?d2 ?d3"
    using dec_step.commit [of ?d2 0 5 "[7]" ?f "[7]" w True] by (simp add: New_Session_def w)
  ultimately have R: "dec_reach ?f ?s ?d3"
    by (blast intro: dec_reach.step)
  then show ?thesis
    using decrypt_at_most_once [OF R, of 5] by (auto simp: delivered_def)
qed

text \<open>
  C17. Nonces are never reused: over any sequence of up to 2 to the 64 \<open>Encrypt\<close> calls of a
  new session, call number k seals with nonce k while k is below the rekey threshold and is
  refused with \<open>ErrRekeyRequired\<close> from there on, so the nonces sealed with are distinct.
\<close>

theorem encrypt_nonces_unique:
  assumes "length ps \<le> 2 ^ 64"
  shows "Encrypt_all seal (New_Session sid sk rk now) ps =
           map (\<lambda>k. if k < 2 ^ 32 then Inr (of_nat k, seal sk (of_nat k) (ps ! k))
                    else Inl ErrRekeyRequired) [0..<length ps] \<and>
         distinct [fst nc. Inr nc \<leftarrow> Encrypt_all seal (New_Session sid sk rk now) ps]"
proof -
  let ?E = "Encrypt_all seal (New_Session sid sk rk now) ps"
  have len: "length (Encrypt_all seal s xs) = length xs" for s :: "'a Session" and xs
    by (induction xs arbitrary: s) (auto simp: Let_def split: prod.splits)
  have eq: "?E = map (\<lambda>k. if k < 2 ^ 32 then Inr (of_nat k, seal sk (of_nat k) (ps ! k))
                    else Inl ErrRekeyRequired) [0..<length ps]"
    by (rule nth_equalityI) (use len assms Encrypt_all_nth [of _ ps "New_Session sid sk rk now" seal]
        in \<open>auto simp: New_Session_def Let_def\<close>)
  then have "distinct [fst nc. Inr nc \<leftarrow> ?E]"
    by (simp only: sent_nonces_distinct)
  with eq show ?thesis by blast
qed

theorem encrypt_nonces_unique_witness:
  "length [[1::byte], [2]] \<le> 2 ^ 64 \<and>
   Encrypt_all (\<lambda>k n p. k # p) (New_Session [] 9 9 0) [[1], [2]] = [Inr (0, [9, 1]), Inr (1, [9, 2])]"
  using encrypt_nonces_unique [of "[[1::byte], [2]]" "\<lambda>k n p. k # p" "[]" 9 9 0]
  by (simp add: upt_rec)

text \<open>
  C25. A sealed packet is delivered once: if the receiver's key opens what the sender's key
  seals and the nonce is fresh for the receiver's window, \<open>Decrypt\<close> returns the plaintext,
  and a second copy of the packet is dropped and leaves the session as it is.
\<close>

theorem sealed_packet_delivered_once:
  assumes "\<And>n p. unseal (recv r) n (seal (send s) n p) = Some p"
    and "Encrypt seal s p = (s', Inr (n, ct))"
    and "represents (window r) S" and "fresh S n"
  shows "\<exists>r'. Decrypt unseal r n ct = (r', Some p) \<and> Decrypt unseal r' n ct = (r', None)"
proof -
  have n: "n < RekeyThreshold" "ct = seal (send s) n p"
    using assms(2) by (auto simp: Encrypt_def Let_def split: if_splits)
  obtain r' q where D: "Decrypt unseal r n ct = (r', q)" by fastforce
  from Decrypt_window [OF assms(3) this] n assms(1,4)
  have q: "q = Some p" "represents (window r') (insert n S)" by auto
  obtain r'' q' where D': "Decrypt unseal r' n ct = (r'', q')" by fastforce
  from Decrypt_window [OF q(2) this] have "q' = None" "r'' = r'"
    by (auto simp: fresh_def)
  with D D' q(1) show ?thesis by auto
qed

theorem sealed_packet_delivered_once_witness:
  "\<exists>r'. Decrypt (\<lambda>k n ct. if ct = k # tl ct then Some (tl ct) else None)
          (New_Session [] (1::byte) 9 0) 0 [9, 4] = (r', Some [4]) \<and>
        Decrypt (\<lambda>k n ct. if ct = k # tl ct then Some (tl ct) else None) r' 0 [9, 4] = (r', None)"
  by (rule sealed_packet_delivered_once [where seal = "\<lambda>k n p. k # p" and S = "{}"
        and s = "New_Session [] (9::byte) 1 0"])
    (auto simp: New_Session_def Encrypt_def Let_def represents_zero fresh_def)

end
