(* ===== verification/Netip.thy ===== *)
theory Netip
  imports Veld_Prelude
begin

text \<open>
  The part of Go's package net/netip the sources use: addresses with their family and
  zone, prefixes, and address-port pairs. An address value carries its family tag, so the
  IPv4 address 10.0.0.1 and its IPv6-mapped form are different values, as in Go; the zero
  \<open>Addr\<close> is invalid and distinct from both.

  Where the sources keep an address or a prefix as text (JSON fields, map keys), the model keeps a
  \<open>spelling\<close>: the canonical spelling of a value, or another string together with what parsing it gives.
  Parsing a canonical spelling gives back the value, which is what netip documents.
\<close>

datatype Addr = Addr0 "128 word" | Addr4 u32 | Addr6 "128 word" string

definition zero_Addr :: Addr where
  "zero_Addr = Addr0 0"

fun Addr_IsValid :: "Addr \<Rightarrow> bool" where
  "Addr_IsValid (Addr0 _) = False"
| "Addr_IsValid _ = True"

fun Is4 :: "Addr \<Rightarrow> bool" where
  "Is4 (Addr4 _) = True"
| "Is4 _ = False"

fun Is6 :: "Addr \<Rightarrow> bool" where
  "Is6 (Addr6 _ _) = True"
| "Is6 _ = False"

fun BitLen :: "Addr \<Rightarrow> nat" where
  "BitLen (Addr0 _) = 0"
| "BitLen (Addr4 _) = 32"
| "BitLen (Addr6 _ _) = 128"

fun Addr_num :: "Addr \<Rightarrow> nat" where
  "Addr_num (Addr0 a) = unat a"
| "Addr_num (Addr4 a) = unat a"
| "Addr_num (Addr6 a _) = unat a"

fun Zone :: "Addr \<Rightarrow> string" where
  "Zone (Addr6 _ z) = z"
| "Zone _ = []"

fun Unmap :: "Addr \<Rightarrow> Addr" where
  "Unmap (Addr6 a z) = (if drop_bit 32 a = 0xffff then Addr4 (ucast a) else Addr6 a z)"
| "Unmap a = a"

fun Next :: "Addr \<Rightarrow> Addr" where
  "Next (Addr0 a) = Addr0 (a + 1)"
| "Next (Addr4 a) = (if a + 1 = 0 then zero_Addr else Addr4 (a + 1))"
| "Next (Addr6 a z) = (if a + 1 = 0 then zero_Addr else Addr6 (a + 1) z)"

fun str_less :: "string \<Rightarrow> string \<Rightarrow> bool" where
  "str_less [] t = (t \<noteq> [])"
| "str_less (c # s) [] = False"
| "str_less (c # s) (d # t) = ((of_char c :: nat) < of_char d \<or> c = d \<and> str_less s t)"

text \<open>\<open>a.Compare(b) < 0\<close>: by family, then by number, then by zone.\<close>

definition Addr_less :: "Addr \<Rightarrow> Addr \<Rightarrow> bool" where
  "Addr_less a b \<longleftrightarrow> BitLen a < BitLen b \<or>
     BitLen a = BitLen b \<and> (Addr_num a < Addr_num b \<or> Addr_num a = Addr_num b \<and> str_less (Zone a) (Zone b))"

definition AddrFrom4 :: "bytes \<Rightarrow> Addr" where
  "AddrFrom4 b = Addr4 (of_nat (be_nat b))"

definition AddrFrom16 :: "bytes \<Rightarrow> Addr" where
  "AddrFrom16 b = Addr6 (of_nat (be_nat b)) []"

section \<open>Prefixes\<close>

record Prefix =
  pfx_ip :: Addr
  pfx_bits :: "nat option"

definition zero_Prefix :: Prefix where
  "zero_Prefix = \<lparr>pfx_ip = zero_Addr, pfx_bits = None\<rparr>"

fun withoutZone :: "Addr \<Rightarrow> Addr" where
  "withoutZone (Addr6 a _) = Addr6 a []"
| "withoutZone a = a"

definition PrefixFrom :: "Addr \<Rightarrow> nat \<Rightarrow> Prefix" where
  "PrefixFrom ip b = \<lparr>pfx_ip = withoutZone ip, pfx_bits = (if Addr_IsValid ip \<and> b \<le> BitLen ip then Some b else None)\<rparr>"

definition Prefix_IsValid :: "Prefix \<Rightarrow> bool" where
  "Prefix_IsValid p \<longleftrightarrow> pfx_bits p \<noteq> None"

fun mask_addr :: "nat \<Rightarrow> Addr \<Rightarrow> Addr" where
  "mask_addr b (Addr4 a) = Addr4 (a AND NOT (mask (32 - b)))"
| "mask_addr b (Addr6 a z) = Addr6 (a AND NOT (mask (128 - b))) z"
| "mask_addr b a = a"

definition Masked :: "Prefix \<Rightarrow> Prefix" where
  "Masked p = (case pfx_bits p of
      None \<Rightarrow> zero_Prefix
    | Some b \<Rightarrow> if \<not> Addr_IsValid (pfx_ip p) \<or> b > BitLen (pfx_ip p) then zero_Prefix
                else PrefixFrom (mask_addr b (pfx_ip p)) b)"

fun same_net :: "nat \<Rightarrow> Addr \<Rightarrow> Addr \<Rightarrow> bool" where
  "same_net b (Addr4 x) (Addr4 y) = (drop_bit (32 - b) (x XOR y) = 0)"
| "same_net b (Addr6 x z) (Addr6 y _) = (z = [] \<and> (x XOR y) AND NOT (mask (128 - b)) = 0)"
| "same_net b _ _ = False"

definition Contains :: "Prefix \<Rightarrow> Addr \<Rightarrow> bool" where
  "Contains p ip = (case pfx_bits p of None \<Rightarrow> False | Some b \<Rightarrow> same_net b ip (pfx_ip p))"

section \<open>Kinds of addresses\<close>

text \<open>The predicates of package netip; an IPv4 address mapped into IPv6 is judged as the IPv4 address.\<close>

fun Is4In6 :: "Addr \<Rightarrow> bool" where
  "Is4In6 (Addr6 a _) = (drop_bit 32 a = 0xffff)"
| "Is4In6 _ = False"

fun unmapped_loopback :: "Addr \<Rightarrow> bool" where
  "unmapped_loopback (Addr4 a) = (drop_bit 24 a = 127)"
| "unmapped_loopback (Addr6 a _) = (a = 1)"
| "unmapped_loopback _ = False"

fun unmapped_link_local :: "Addr \<Rightarrow> bool" where
  "unmapped_link_local (Addr4 a) = (drop_bit 16 a = 0xa9fe)"
| "unmapped_link_local (Addr6 a _) = (drop_bit 118 a = 0x3fa)"
| "unmapped_link_local _ = False"

fun unmapped_multicast :: "Addr \<Rightarrow> bool" where
  "unmapped_multicast (Addr4 a) = (drop_bit 28 a = 0xe)"
| "unmapped_multicast (Addr6 a _) = (drop_bit 120 a = 0xff)"
| "unmapped_multicast _ = False"

definition IsLoopback :: "Addr \<Rightarrow> bool" where
  "IsLoopback a = unmapped_loopback (if Is4In6 a then Unmap a else a)"

definition IsLinkLocalUnicast :: "Addr \<Rightarrow> bool" where
  "IsLinkLocalUnicast a = unmapped_link_local (if Is4In6 a then Unmap a else a)"

definition IsMulticast :: "Addr \<Rightarrow> bool" where
  "IsMulticast a = unmapped_multicast (if Is4In6 a then Unmap a else a)"

fun IsInterfaceLocalMulticast :: "Addr \<Rightarrow> bool" where
  "IsInterfaceLocalMulticast (Addr6 a z) = (drop_bit 32 a \<noteq> 0xffff \<and> drop_bit 112 a AND 0xff0f = 0xff01)"
| "IsInterfaceLocalMulticast _ = False"

fun IsUnspecified :: "Addr \<Rightarrow> bool" where
  "IsUnspecified (Addr4 a) = (a = 0)"
| "IsUnspecified (Addr6 a z) = (a = 0 \<and> z = [])"
| "IsUnspecified _ = False"

section \<open>Address and port\<close>

record AddrPort =
  ap_addr :: Addr
  ap_port :: u16

definition AddrPort_IsValid :: "AddrPort \<Rightarrow> bool" where
  "AddrPort_IsValid ap \<longleftrightarrow> Addr_IsValid (ap_addr ap)"

definition zero_AddrPort :: AddrPort where
  "zero_AddrPort = \<lparr>ap_addr = zero_Addr, ap_port = 0\<rparr>"

lemma zero_invalid [simp]:
  "\<not> Addr_IsValid zero_Addr" "\<not> AddrPort_IsValid zero_AddrPort" "\<not> Prefix_IsValid zero_Prefix"
  by (simp_all add: zero_Addr_def AddrPort_IsValid_def zero_AddrPort_def Prefix_IsValid_def zero_Prefix_def)

section \<open>Text of addresses and prefixes\<close>

datatype 'a spelling = Canon 'a | Raw string "'a option"

fun parse_text :: "('a \<Rightarrow> bool) \<Rightarrow> 'a spelling \<Rightarrow> 'a option" where
  "parse_text valid (Canon a) = (if valid a then Some a else None)"
| "parse_text valid (Raw _ r) = r"

abbreviation ParseAddr :: "Addr spelling \<Rightarrow> Addr option" where
  "ParseAddr \<equiv> parse_text Addr_IsValid"

abbreviation ParsePrefix :: "Prefix spelling \<Rightarrow> Prefix option" where
  "ParsePrefix \<equiv> parse_text Prefix_IsValid"

section \<open>A prefix is an interval of addresses\<close>

text \<open>The addresses of a prefix of \<open>b\<close> bits agree in the quotient of their number by the
  size of a block.\<close>

definition block :: "nat \<Rightarrow> Addr \<Rightarrow> nat" where
  "block b a = Addr_num a div 2 ^ (BitLen a - b)"

lemma and_not_mask_iff: "x AND NOT (mask k) = 0 \<longleftrightarrow> drop_bit k (x :: 'a::len word) = 0"
proof -
  have "x AND NOT (mask k) = push_bit k (drop_bit k x)"
    by (rule bit_word_eqI) (auto simp: bit_simps)
  moreover have "drop_bit k (push_bit k (drop_bit k x)) = drop_bit k x"
    by (rule bit_word_eqI) (auto simp: bit_simps dest: bit_imp_le_length)
  ultimately show ?thesis by (metis drop_bit_of_0 push_bit_of_0)
qed

lemma drop_bit_eq_iff: "drop_bit k x = drop_bit k y \<longleftrightarrow> unat x div 2 ^ k = unat (y :: 'a::len word) div 2 ^ k"
  by (metis unat_drop_bit_eq drop_bit_eq_div unsigned_word_eqI)

lemma same_net_iff:
  "same_net b a n \<longleftrightarrow> Addr_IsValid a \<and> BitLen a = BitLen n \<and> Zone a = [] \<and> block b a = block b n"
  by (cases a; cases n)
    (simp_all add: block_def xor_eq_0_iff and_not_mask_iff drop_bit_eq_iff)

lemma Contains_iff:
  "Contains p a \<longleftrightarrow> (\<exists>b. pfx_bits p = Some b \<and> Addr_IsValid a \<and> BitLen a = BitLen (pfx_ip p) \<and>
      Zone a = [] \<and> block b a = block b (pfx_ip p))"
  by (auto simp: Contains_def same_net_iff split: option.splits)

lemma Addr_num_bound: "Addr_IsValid a \<Longrightarrow> Addr_num a < 2 ^ BitLen a"
  using unat_bounds(3,5) by (cases a) auto

lemma Next_cases:
  "Addr_IsValid a \<Longrightarrow> (Next a = zero_Addr \<and> Addr_num a + 1 = 2 ^ BitLen a) \<or>
     (BitLen (Next a) = BitLen a \<and> Addr_num (Next a) = Addr_num a + 1 \<and> Zone (Next a) = Zone a
        \<and> Addr_IsValid (Next a))"
  by (cases a) (auto simp: zero_Addr_def unat_word_ariths unat_eq_0 [symmetric] mod_Suc unat_bounds
      split: if_splits)

lemma Addr_eqI: "Addr_IsValid a \<Longrightarrow> BitLen a = BitLen b \<Longrightarrow> Addr_num a = Addr_num b \<Longrightarrow> Zone a = Zone b \<Longrightarrow> a = b"
  by (cases a; cases b) (auto simp: unsigned_word_eqI)

lemma drop_bit_mask_off: "drop_bit k (w AND NOT (mask k)) = drop_bit k (w :: 'a::len word)"
  by (rule bit_word_eqI) (auto simp: bit_simps dest: bit_imp_le_length)

end
