(* ===== verification/PeerTable.thy ===== *)
theory PeerTable
  imports Netip
begin

text \<open>
  Package internal/peer: a peer's entry (state.go) and the routing table with its four
  indexes (table.go). Entries are shared by pointer between the table, the dispatcher and the
  handshake manager, and the table's index of endpoints depends on an entry's mutable endpoint, so
  entries live in a heap (\<open>eheap\<close>) and the table holds references. Sessions are
  references too (\<open>sref\<close>); their contents are the business of theory Session.
\<close>

type_synonym eref = nat
type_synonym sref = nat
type_synonym peer_id = bytes

section \<open>A peer's entry\<close>

definition HoldQueueMax :: nat where
  "HoldQueueMax = 64"

datatype State = StatePending | StateHandshaking | StateConnected

record Entry =
  ID :: peer_id
  X25519Pub :: bytes
  VPNAddr :: Addr
  Name :: string
  SubnetRoutes :: "Prefix list"
  endpoint :: AddrPort
  session :: "sref option"
  pendingSession :: "sref option"
  prevSession :: "sref option"
  state :: State
  lastSeen :: gotime
  holdQueue :: "bytes list"

definition SetEndpoint :: "Entry \<Rightarrow> AddrPort \<Rightarrow> Entry" where
  "SetEndpoint e ep = e\<lparr>endpoint := ep\<rparr>"

definition SetSession :: "Entry \<Rightarrow> sref option \<Rightarrow> Entry" where
  "SetSession e s =
     (let e1 = (if session e \<noteq> None \<and> session e \<noteq> s then e\<lparr>prevSession := session e\<rparr> else e)
      in e1\<lparr>session := s, state := StateConnected\<rparr>)"

definition SetPendingSession :: "Entry \<Rightarrow> sref option \<Rightarrow> Entry" where
  "SetPendingSession e s = e\<lparr>pendingSession := s\<rparr>"

definition PromotePendingSession :: "Entry \<Rightarrow> Entry \<times> bool" where
  "PromotePendingSession e =
     (if pendingSession e \<noteq> None then
        (let e1 = (if session e \<noteq> None then e\<lparr>prevSession := session e\<rparr> else e)
         in (e1\<lparr>session := pendingSession e, pendingSession := None, state := StateConnected\<rparr>, True))
      else (e, False))"

definition SetState :: "Entry \<Rightarrow> State \<Rightarrow> Entry" where
  "SetState e s = e\<lparr>state := s\<rparr>"

definition Touch :: "Entry \<Rightarrow> gotime \<Rightarrow> Entry" where
  "Touch e now = e\<lparr>lastSeen := now\<rparr>"

definition Enqueue :: "Entry \<Rightarrow> bytes \<Rightarrow> Entry \<times> bool" where
  "Enqueue e pkt =
     (if length (holdQueue e) \<ge> HoldQueueMax then (e, False)
      else (e\<lparr>holdQueue := holdQueue e @ [pkt]\<rparr>, True))"

definition DrainQueue :: "Entry \<Rightarrow> Entry \<times> bytes list" where
  "DrainQueue e =
     (if length (holdQueue e) = 0 then (e, []) else (e\<lparr>holdQueue := []\<rparr>, holdQueue e))"

lemmas entry_ops = SetEndpoint_def SetSession_def SetPendingSession_def PromotePendingSession_def
  SetState_def Touch_def Enqueue_def DrainQueue_def

section \<open>The table\<close>

type_synonym eheap = "eref \<Rightarrow> Entry"

record Table =
  byID :: "peer_id \<rightharpoonup> eref"
  byVPN :: "Addr \<rightharpoonup> eref"
  byEndpoint :: "AddrPort \<rightharpoonup> eref"
  byName :: "string \<rightharpoonup> eref"

definition New_Table :: Table where
  "New_Table = \<lparr>byID = Map.empty, byVPN = Map.empty, byEndpoint = Map.empty, byName = Map.empty\<rparr>"

text \<open>\<open>release_slot\<close> deletes a slot only if it still points at \<open>e\<close>; \<open>take_slot\<close> points a slot at
  \<open>e\<close> only if it is empty or belongs to the same peer.\<close>

definition release_slot :: "('k \<rightharpoonup> eref) \<Rightarrow> 'k \<Rightarrow> eref \<Rightarrow> ('k \<rightharpoonup> eref)" where
  "release_slot m k e = (if m k = Some e then m(k := None) else m)"

definition take_slot :: "eheap \<Rightarrow> ('k \<rightharpoonup> eref) \<Rightarrow> 'k \<Rightarrow> eref \<Rightarrow> ('k \<rightharpoonup> eref)" where
  "take_slot h m k e = (case m k of
      None \<Rightarrow> m(k \<mapsto> e)
    | Some owner \<Rightarrow> if ID (h owner) = ID (h e) then m(k \<mapsto> e) else m)"

definition unindex :: "eheap \<Rightarrow> Table \<Rightarrow> eref \<Rightarrow> Table" where
  "unindex h t e =
     t\<lparr>byVPN := release_slot (byVPN t) (VPNAddr (h e)) e,
       byEndpoint := (if AddrPort_IsValid (endpoint (h e))
                      then release_slot (byEndpoint t) (endpoint (h e)) e else byEndpoint t),
       byName := (if Name (h e) \<noteq> []
                  then release_slot (byName t) (ToLower (Name (h e))) e else byName t)\<rparr>"

definition Upsert :: "eheap \<Rightarrow> Table \<Rightarrow> eref \<Rightarrow> Table \<times> bool" where
  "Upsert h t e =
     (if Addr_IsValid (VPNAddr (h e)) \<and>
         (case byVPN t (VPNAddr (h e)) of Some owner \<Rightarrow> ID (h owner) \<noteq> ID (h e) | None \<Rightarrow> False)
      then (t, False)
      else
        (let t1 = (case byID t (ID (h e)) of Some old \<Rightarrow> unindex h t old | None \<Rightarrow> t)
         in (t1\<lparr>byID := (byID t1)(ID (h e) \<mapsto> e),
                byVPN := (if Addr_IsValid (VPNAddr (h e))
                          then (byVPN t1)(VPNAddr (h e) \<mapsto> e) else byVPN t1),
                byEndpoint := (if AddrPort_IsValid (endpoint (h e))
                               then take_slot h (byEndpoint t1) (endpoint (h e)) e else byEndpoint t1),
                byName := (if Name (h e) \<noteq> []
                           then take_slot h (byName t1) (ToLower (Name (h e))) e else byName t1)\<rparr>,
             True)))"

definition setEndpoint ::
  "eheap \<Rightarrow> Table \<Rightarrow> peer_id \<Rightarrow> AddrPort \<Rightarrow> bool \<Rightarrow> eheap \<times> Table \<times> bool" where
  "setEndpoint h t pid ep claim =
     (case byID t pid of
        None \<Rightarrow> (h, t, False)
      | Some e \<Rightarrow>
          (let taken = AddrPort_IsValid ep \<and> byEndpoint t ep \<noteq> None \<and> byEndpoint t ep \<noteq> Some e
           in if taken \<and> \<not> claim then (h, t, False)
              else
                (let h1 = (if taken then h(the (byEndpoint t ep) :=
                                          SetEndpoint (h (the (byEndpoint t ep))) zero_AddrPort) else h);
                     old = endpoint (h1 e);
                     t1 = (if AddrPort_IsValid old \<and> byEndpoint t old = Some e
                           then t\<lparr>byEndpoint := (byEndpoint t)(old := None)\<rparr> else t);
                     h2 = h1(e := SetEndpoint (h1 e) ep);
                     t2 = (if AddrPort_IsValid ep
                           then t1\<lparr>byEndpoint := (byEndpoint t1)(ep \<mapsto> e)\<rparr> else t1)
                 in (h2, t2, True))))"

definition UpdateEndpoint :: "eheap \<Rightarrow> Table \<Rightarrow> peer_id \<Rightarrow> AddrPort \<Rightarrow> eheap \<times> Table \<times> bool" where
  "UpdateEndpoint h t pid ep = setEndpoint h t pid ep False"

definition ClaimEndpoint :: "eheap \<Rightarrow> Table \<Rightarrow> peer_id \<Rightarrow> AddrPort \<Rightarrow> eheap \<times> Table \<times> bool" where
  "ClaimEndpoint h t pid ep = setEndpoint h t pid ep True"

definition LookupByID :: "Table \<Rightarrow> peer_id \<Rightarrow> eref option" where
  "LookupByID t pid = byID t pid"

definition LookupByVPN :: "Table \<Rightarrow> Addr \<Rightarrow> eref option" where
  "LookupByVPN t a = byVPN t a"

definition LookupByEndpoint :: "Table \<Rightarrow> AddrPort \<Rightarrow> eref option" where
  "LookupByEndpoint t ep = byEndpoint t ep"

definition LookupByName :: "Table \<Rightarrow> string \<Rightarrow> eref option" where
  "LookupByName t n = byName t (ToLower n)"

definition Remove :: "eheap \<Rightarrow> Table \<Rightarrow> peer_id \<Rightarrow> Table" where
  "Remove h t pid =
     (case byID t pid of
        None \<Rightarrow> t
      | Some e \<Rightarrow> unindex h (t\<lparr>byID := (byID t)(pid := None)\<rparr>) e)"

definition PeerLookupFn :: "eheap \<Rightarrow> Table \<Rightarrow> bytes \<Rightarrow> bytes option" where
  "PeerLookupFn h t pub =
     (if length pub \<noteq> 32 then None
      else case byID t pub of None \<Rightarrow> None | Some e \<Rightarrow> Some (X25519Pub (h e)))"

lemmas lookups = LookupByID_def LookupByVPN_def LookupByEndpoint_def LookupByName_def

section \<open>The indexes agree with the entries\<close>

text \<open>Every slot of an index holds a peer that is in the table and whose entry has the
  slot's key; a peer with a valid VPN address is reachable by it.\<close>

definition live :: "eheap \<Rightarrow> Table \<Rightarrow> eref \<Rightarrow> bool" where
  "live h t e \<longleftrightarrow> byID t (ID (h e)) = Some e"

definition table_inv :: "eheap \<Rightarrow> Table \<Rightarrow> bool" where
  "table_inv h t \<longleftrightarrow>
     (\<forall>pid e. byID t pid = Some e \<longrightarrow> ID (h e) = pid) \<and>
     (\<forall>a e. byVPN t a = Some e \<longrightarrow> live h t e \<and> VPNAddr (h e) = a \<and> Addr_IsValid a) \<and>
     (\<forall>ep e. byEndpoint t ep = Some e \<longrightarrow> live h t e \<and> endpoint (h e) = ep \<and> AddrPort_IsValid ep) \<and>
     (\<forall>k e. byName t k = Some e \<longrightarrow> live h t e \<and> ToLower (Name (h e)) = k \<and> k \<noteq> []) \<and>
     (\<forall>e. live h t e \<and> Addr_IsValid (VPNAddr (h e)) \<longrightarrow> byVPN t (VPNAddr (h e)) = Some e)"

lemma table_inv_New: "table_inv h New_Table"
  by (simp add: table_inv_def New_Table_def live_def)

lemma table_invD:
  assumes "table_inv h t"
  shows "byID t pid = Some e \<Longrightarrow> ID (h e) = pid"
    and "byVPN t a = Some e \<Longrightarrow> byID t (ID (h e)) = Some e \<and> VPNAddr (h e) = a \<and> Addr_IsValid a"
    and "byEndpoint t ep = Some e \<Longrightarrow> byID t (ID (h e)) = Some e \<and> endpoint (h e) = ep \<and> AddrPort_IsValid ep"
    and "byName t k = Some e \<Longrightarrow> byID t (ID (h e)) = Some e \<and> ToLower (Name (h e)) = k \<and> k \<noteq> []"
    and "byID t (ID (h e)) = Some e \<Longrightarrow> Addr_IsValid (VPNAddr (h e)) \<Longrightarrow> byVPN t (VPNAddr (h e)) = Some e"
  using assms unfolding table_inv_def live_def by blast+

text \<open>\<open>unindex\<close> removes the slots of one entry and no other.\<close>

definition without :: "eref \<Rightarrow> ('k \<rightharpoonup> eref) \<Rightarrow> ('k \<rightharpoonup> eref)" where
  "without e m = (\<lambda>k. if m k = Some e then None else m k)"

lemma without_eq [simp]: "without e m k = Some e' \<longleftrightarrow> m k = Some e' \<and> e' \<noteq> e"
  by (auto simp: without_def)

lemma release_without:
  assumes "\<And>k'. m k' = Some e \<Longrightarrow> k' = k"
  shows "release_slot m k e = without e m"
proof (rule ext)
  show "release_slot m k e x = without e m x" for x
    using assms [of x] by (cases "m x = Some e") (auto simp: without_def release_slot_def)
qed

lemma without_absent: "(\<And>k. m k \<noteq> Some e) \<Longrightarrow> without e m = m"
  by (auto simp: without_def fun_eq_iff)

lemma unindex_byID [simp]: "byID (unindex h t e) = byID t"
  by (simp add: unindex_def)

lemma unindex_slots:
  assumes "table_inv h t"
  shows "byVPN (unindex h t e) = without e (byVPN t)"
    and "byEndpoint (unindex h t e) = without e (byEndpoint t)"
    and "byName (unindex h t e) = without e (byName t)"
proof -
  note inv = table_invD [OF assms]
  have "release_slot (byVPN t) (VPNAddr (h e)) e = without e (byVPN t)"
    by (rule release_without) (use inv(2) in blast)
  then show "byVPN (unindex h t e) = without e (byVPN t)"
    by (simp add: unindex_def)
  have "release_slot (byEndpoint t) (endpoint (h e)) e = without e (byEndpoint t)"
    by (rule release_without) (use inv(3) in blast)
  moreover have "without e (byEndpoint t) = byEndpoint t" if "\<not> AddrPort_IsValid (endpoint (h e))"
    by (rule without_absent) (use inv(3) that in blast)
  ultimately show "byEndpoint (unindex h t e) = without e (byEndpoint t)"
    by (simp add: unindex_def)
  have "release_slot (byName t) (ToLower (Name (h e))) e = without e (byName t)"
    by (rule release_without) (use inv(4) in blast)
  moreover have "without e (byName t) = byName t" if "Name (h e) = []"
    by (rule without_absent) (use inv(4) that ToLower_Nil(2) in metis)
  ultimately show "byName (unindex h t e) = without e (byName t)"
    by (simp add: unindex_def)
qed

text \<open>The slots of all peers but one: what is left of an index when that peer's entry is
  taken out.\<close>

definition others :: "eheap \<Rightarrow> peer_id \<Rightarrow> ('k \<rightharpoonup> eref) \<Rightarrow> ('k \<rightharpoonup> eref)" where
  "others h pid m = (\<lambda>k. case m k of None \<Rightarrow> None | Some x \<Rightarrow> if ID (h x) = pid then None else Some x)"

lemma others_Some [simp]: "others h pid m k = Some x \<longleftrightarrow> m k = Some x \<and> ID (h x) \<noteq> pid"
  by (auto simp: others_def split: option.splits)

lemma others_None: "others h pid m k = None \<longleftrightarrow> (\<forall>x. m k = Some x \<longrightarrow> ID (h x) = pid)"
  by (auto simp: others_def split: option.splits)

definition taken_out :: "eheap \<Rightarrow> Table \<Rightarrow> peer_id \<Rightarrow> Table" where
  "taken_out h t pid = (case byID t pid of Some old \<Rightarrow> unindex h t old | None \<Rightarrow> t)"

lemma without_others:
  assumes "byID t pid = Some old" "ID (h old) = pid"
    and "\<And>k x. m k = Some x \<Longrightarrow> byID t (ID (h x)) = Some x"
  shows "without old m = others h pid m"
proof (rule ext)
  fix k
  show "without old m k = others h pid m k"
    using assms(3) [of k] assms(1,2) by (cases "m k") (auto simp: without_def others_def)
qed

lemma absent_others:
  assumes "byID t pid = None" and "\<And>k x. m k = Some x \<Longrightarrow> byID t (ID (h x)) = Some x"
  shows "others h pid m = m"
proof (rule ext)
  fix k
  show "others h pid m k = m k"
    using assms(2) [of k] assms(1) by (cases "m k") (auto simp: others_def)
qed

lemma taken_out_slots:
  assumes "table_inv h t"
  shows "byID (taken_out h t pid) = byID t"
    and "byVPN (taken_out h t pid) = others h pid (byVPN t)"
    and "byEndpoint (taken_out h t pid) = others h pid (byEndpoint t)"
    and "byName (taken_out h t pid) = others h pid (byName t)"
proof -
  note inv = table_invD [OF assms]
  have live: "byVPN t a = Some x \<Longrightarrow> byID t (ID (h x)) = Some x"
    "byEndpoint t ep = Some x \<Longrightarrow> byID t (ID (h x)) = Some x"
    "byName t k = Some x \<Longrightarrow> byID t (ID (h x)) = Some x" for a ep k x
    using inv(2-4) by blast+
  show "byID (taken_out h t pid) = byID t"
    by (simp add: taken_out_def split: option.split)
  have "without old (byVPN t) = others h pid (byVPN t) \<and>
        without old (byEndpoint t) = others h pid (byEndpoint t) \<and>
        without old (byName t) = others h pid (byName t)" if "byID t pid = Some old" for old
    by (intro conjI without_others [of t pid old h, OF that inv(1) [OF that]]; erule live)
  moreover have "others h pid (byVPN t) = byVPN t \<and> others h pid (byEndpoint t) = byEndpoint t \<and>
        others h pid (byName t) = byName t" if "byID t pid = None"
    by (intro conjI absent_others [of t pid, OF that]; erule live)
  ultimately show "byVPN (taken_out h t pid) = others h pid (byVPN t)"
    "byEndpoint (taken_out h t pid) = others h pid (byEndpoint t)"
    "byName (taken_out h t pid) = others h pid (byName t)"
    by (simp_all add: taken_out_def unindex_slots [OF assms] split: option.split)
qed

lemma table_invI:
  assumes "\<And>pid e. byID t pid = Some e \<Longrightarrow> ID (h e) = pid"
    and "\<And>a e. byVPN t a = Some e \<Longrightarrow> byID t (ID (h e)) = Some e \<and> VPNAddr (h e) = a \<and> Addr_IsValid a"
    and "\<And>ep e. byEndpoint t ep = Some e \<Longrightarrow>
           byID t (ID (h e)) = Some e \<and> endpoint (h e) = ep \<and> AddrPort_IsValid ep"
    and "\<And>k e. byName t k = Some e \<Longrightarrow> byID t (ID (h e)) = Some e \<and> ToLower (Name (h e)) = k \<and> k \<noteq> []"
    and "\<And>e. byID t (ID (h e)) = Some e \<Longrightarrow> Addr_IsValid (VPNAddr (h e)) \<Longrightarrow> byVPN t (VPNAddr (h e)) = Some e"
  shows "table_inv h t"
  unfolding table_inv_def live_def using assms by blast

lemma take_others:
  "take_slot h (others h (ID (h e)) m) k e =
     (if \<exists>x. m k = Some x \<and> ID (h x) \<noteq> ID (h e) then others h (ID (h e)) m
      else (others h (ID (h e)) m)(k \<mapsto> e))"
  by (cases "m k") (auto simp: take_slot_def others_def)

subsection \<open>Every operation keeps the invariant\<close>

lemma Upsert_table:
  assumes "table_inv h t" "Upsert h t e = (t', True)"
  shows "byID t' = (byID t)(ID (h e) \<mapsto> e)"
    and "byVPN t' = (if Addr_IsValid (VPNAddr (h e)) then (others h (ID (h e)) (byVPN t))(VPNAddr (h e) \<mapsto> e)
                     else others h (ID (h e)) (byVPN t))"
    and "byEndpoint t' = (if AddrPort_IsValid (endpoint (h e))
                     then take_slot h (others h (ID (h e)) (byEndpoint t)) (endpoint (h e)) e
                     else others h (ID (h e)) (byEndpoint t))"
    and "byName t' = (if Name (h e) \<noteq> []
                     then take_slot h (others h (ID (h e)) (byName t)) (ToLower (Name (h e))) e
                     else others h (ID (h e)) (byName t))"
    and "Addr_IsValid (VPNAddr (h e)) \<Longrightarrow> byVPN t (VPNAddr (h e)) = Some x \<Longrightarrow> ID (h x) = ID (h e)"
  using assms(2) taken_out_slots [OF assms(1), of "ID (h e)"]
  by (auto simp: Upsert_def Let_def taken_out_def [symmetric] split: if_splits option.splits)

lemma Upsert_refused: "Upsert h t e = (t', False) \<Longrightarrow> t' = t"
  by (auto simp: Upsert_def Let_def split: if_splits option.splits)

lemma take_others_Some:
  "take_slot h (others h (ID (h e)) m) k e k' = Some x \<Longrightarrow>
     x = e \<and> k' = k \<or> m k' = Some x \<and> ID (h x) \<noteq> ID (h e)"
  by (auto simp: take_others split: if_splits)

lemma Upsert_inv [inv_intros]:
  assumes "table_inv h t" "Upsert h t e = (t', ok)"
  shows "table_inv h t'"
proof (cases ok)
  case False
  with assms Upsert_refused [of h t e t'] show ?thesis by simp
next
  case True
  note inv = table_invD [OF assms(1)]
  from True have E: "Upsert h t e = (t', True)" using assms(2) by simp
  note T = Upsert_table [OF assms(1) E]
  show ?thesis
  proof (rule table_invI)
    show "ID (h x) = pid" if "byID t' pid = Some x" for pid x
      using that inv(1) [of pid x] by (auto simp: T(1) split: if_splits)
    show "byID t' (ID (h x)) = Some x \<and> VPNAddr (h x) = a \<and> Addr_IsValid a" if "byVPN t' a = Some x" for a x
    proof -
      have "x = e \<and> a = VPNAddr (h e) \<and> Addr_IsValid a \<or> byVPN t a = Some x \<and> ID (h x) \<noteq> ID (h e)"
        using that unfolding T(2) by (auto split: if_splits)
      then show ?thesis using inv(2) [of a x] by (elim disjE conjE) (simp_all add: T(1))
    qed
    show "byID t' (ID (h x)) = Some x \<and> endpoint (h x) = ep \<and> AddrPort_IsValid ep"
      if "byEndpoint t' ep = Some x" for ep x
    proof -
      have "x = e \<and> ep = endpoint (h e) \<and> AddrPort_IsValid ep \<or> byEndpoint t ep = Some x \<and> ID (h x) \<noteq> ID (h e)"
        using that unfolding T(3) by (auto dest!: take_others_Some split: if_splits)
      then show ?thesis using inv(3) [of ep x] by (elim disjE conjE) (simp_all add: T(1))
    qed
    show "byID t' (ID (h x)) = Some x \<and> ToLower (Name (h x)) = k \<and> k \<noteq> []" if "byName t' k = Some x" for k x
    proof -
      have "x = e \<and> k = ToLower (Name (h e)) \<and> k \<noteq> [] \<or> byName t k = Some x \<and> ID (h x) \<noteq> ID (h e)"
        using that unfolding T(4) by (auto dest!: take_others_Some split: if_splits)
      then show ?thesis using inv(4) [of k x] by (elim disjE conjE) (simp_all add: T(1))
    qed
    show "byVPN t' (VPNAddr (h x)) = Some x"
      if "byID t' (ID (h x)) = Some x" "Addr_IsValid (VPNAddr (h x))" for x
    proof (cases "x = e")
      case False
      then have "byID t (ID (h x)) = Some x" "ID (h x) \<noteq> ID (h e)"
        using that(1) unfolding T(1) by (auto split: if_splits)
      with inv(5) [of x] T(5) [of x] that(2) show ?thesis
        unfolding T(2) by auto
    qed (use that in \<open>simp add: T(2)\<close>)
  qed
qed

lemma Remove_inv [inv_intros]:
  assumes "table_inv h t"
  shows "table_inv h (Remove h t pid)"
proof (cases "byID t pid")
  case (Some e)
  note inv = table_invD [OF assms]
  have e: "ID (h e) = pid" using inv(1) Some by blast
  have R: "Remove h t pid = (taken_out h t pid)\<lparr>byID := (byID t)(pid := None)\<rparr>"
    by (simp add: Remove_def taken_out_def Some unindex_def)
  note T = taken_out_slots [OF assms, of pid]
  show ?thesis
  proof (rule table_invI)
    show "ID (h x) = q" if "byID (Remove h t pid) q = Some x" for q x
      using that inv(1) [of q x] by (auto simp: R split: if_splits)
    show "byID (Remove h t pid) (ID (h x)) = Some x \<and> VPNAddr (h x) = a \<and> Addr_IsValid a"
      if "byVPN (Remove h t pid) a = Some x" for a x
      using that inv(2) [of a x] by (auto simp: R T)
    show "byID (Remove h t pid) (ID (h x)) = Some x \<and> endpoint (h x) = ep \<and> AddrPort_IsValid ep"
      if "byEndpoint (Remove h t pid) ep = Some x" for ep x
      using that inv(3) [of ep x] by (auto simp: R T)
    show "byID (Remove h t pid) (ID (h x)) = Some x \<and> ToLower (Name (h x)) = k \<and> k \<noteq> []"
      if "byName (Remove h t pid) k = Some x" for k x
      using that inv(4) [of k x] by (auto simp: R T)
    show "byVPN (Remove h t pid) (VPNAddr (h x)) = Some x"
      if "byID (Remove h t pid) (ID (h x)) = Some x" "Addr_IsValid (VPNAddr (h x))" for x
      using that inv(5) [of x] by (auto simp: R T split: if_splits)
  qed
qed (use assms in \<open>simp add: Remove_def\<close>)

text \<open>The effect of a successful \<open>setEndpoint\<close>: the peer's old slot goes, the new one points at
  it, and a different owner of the new endpoint loses its endpoint.\<close>

lemma setEndpoint_ok:
  assumes inv: "table_inv h t" and S: "setEndpoint h t pid ep claim = (h', t', True)"
  obtains e where "byID t pid = Some e"
    and "byID t' = byID t" "byVPN t' = byVPN t" "byName t' = byName t"
    and "byEndpoint t' = (if AddrPort_IsValid ep then (without e (byEndpoint t))(ep \<mapsto> e)
                          else without e (byEndpoint t))"
    and "endpoint (h' e) = ep"
    and "\<forall>x. x \<noteq> e \<longrightarrow> endpoint (h' x) =
           (if AddrPort_IsValid ep \<and> byEndpoint t ep = Some x then zero_AddrPort else endpoint (h x))"
    and "\<forall>x. h' x = (h x)\<lparr>endpoint := endpoint (h' x)\<rparr>"
proof -
  from S obtain e where e: "byID t pid = Some e"
    by (auto simp: setEndpoint_def split: option.splits)
  define h1 where "h1 = (if AddrPort_IsValid ep \<and> byEndpoint t ep \<noteq> None \<and> byEndpoint t ep \<noteq> Some e
                         then h(the (byEndpoint t ep) :=
                                SetEndpoint (h (the (byEndpoint t ep))) zero_AddrPort) else h)"
  define t1 where "t1 = (if AddrPort_IsValid (endpoint (h e)) \<and> byEndpoint t (endpoint (h e)) = Some e
                         then t\<lparr>byEndpoint := (byEndpoint t)(endpoint (h e) := None)\<rparr> else t)"
  have h1e: "h1 e = h e" by (auto simp: h1_def)
  have R: "h' = h1(e := SetEndpoint (h e) ep)"
    "t' = (if AddrPort_IsValid ep then t1\<lparr>byEndpoint := (byEndpoint t1)(ep \<mapsto> e)\<rparr> else t1)"
    using S unfolding setEndpoint_def e Let_def h1_def [symmetric] h1e t1_def [symmetric] option.case
    by (simp_all split: if_splits)
  have "without e (byEndpoint t) = release_slot (byEndpoint t) (endpoint (h e)) e"
    by (rule release_without [symmetric]) (use table_invD(3) [OF inv] in blast)
  moreover have "AddrPort_IsValid (endpoint (h e))" if "byEndpoint t (endpoint (h e)) = Some e"
    using table_invD(3) [OF inv that] by blast
  ultimately have t1: "byEndpoint t1 = without e (byEndpoint t)" "byID t1 = byID t" "byVPN t1 = byVPN t"
    "byName t1 = byName t"
    by (auto simp: t1_def release_slot_def)
  show thesis
    by (rule that [OF e]) (auto simp: R t1 h1_def SetEndpoint_def)
qed

lemma setEndpoint_refused: "setEndpoint h t pid ep claim = (h', t', False) \<Longrightarrow> h' = h \<and> t' = t"
  by (auto simp: setEndpoint_def Let_def split: option.splits if_splits)

lemma setEndpoint_inv [inv_intros]:
  assumes inv: "table_inv h t" and S: "setEndpoint h t pid ep claim = (h', t', ok)"
  shows "table_inv h' t'"
proof (cases ok)
  case False
  with S have "h' = h \<and> t' = t" by (intro setEndpoint_refused [of h t pid ep claim]) simp
  with inv show ?thesis by simp
next
  case True
  with S have "setEndpoint h t pid ep claim = (h', t', True)" by simp
  then obtain e where e: "byID t pid = Some e"
    and T: "byID t' = byID t" "byVPN t' = byVPN t" "byName t' = byName t"
    and E: "byEndpoint t' = (if AddrPort_IsValid ep then (without e (byEndpoint t))(ep \<mapsto> e)
                          else without e (byEndpoint t))"
    and he: "endpoint (h' e) = ep"
    and hx: "\<forall>x. x \<noteq> e \<longrightarrow> endpoint (h' x) =
           (if AddrPort_IsValid ep \<and> byEndpoint t ep = Some x then zero_AddrPort else endpoint (h x))"
    and h': "\<forall>x. h' x = (h x)\<lparr>endpoint := endpoint (h' x)\<rparr>"
    by (rule setEndpoint_ok [OF inv])
  note I = table_invD [OF inv]
  have same: "ID (h' x) = ID (h x)" "VPNAddr (h' x) = VPNAddr (h x)" "Name (h' x) = Name (h x)" for x
    by (subst h' [rule_format], simp)+
  show ?thesis
  proof (rule table_invI)
    show "byID t' (ID (h' x)) = Some x \<and> endpoint (h' x) = p \<and> AddrPort_IsValid p"
      if "byEndpoint t' p = Some x" for p x
    proof (cases "AddrPort_IsValid ep \<and> p = ep")
      case True
      then have "x = e" using that by (simp add: E)
      then show ?thesis using True e I(1) [OF e] by (simp add: T same he)
    next
      case False
      then have "byEndpoint t p = Some x" "x \<noteq> e"
        using that by (auto simp: E split: if_splits)
      with I(3) [OF this(1)] I(3) [of ep x] False show ?thesis
        by (auto simp: T same hx)
    qed
  qed (unfold T same; fact I)+
qed

lemma SetEndpoint_keys [simp]: "ID (SetEndpoint x p) = ID x" "endpoint (SetEndpoint x p) = p"
  by (simp_all add: SetEndpoint_def)

lemma setEndpoint_keys:
  assumes "setEndpoint h t pid ep claim = (h', t', ok)"
  shows "ID (h' x) = ID (h x)"
  using assms by (auto simp: setEndpoint_def Let_def split: option.splits if_splits)

section \<open>Runs of the table\<close>

text \<open>The operations other packages call. An entry is built outside the table and handed to
  \<open>Upsert\<close> once, so an upsert puts its contents into a cell the table does not hold; the fields of
  an entry that its own methods change are never index keys.\<close>

datatype entry_op = EntSession "sref option" | EntPending "sref option" | EntPromote
  | EntState State | EntTouch gotime | EntEnqueue bytes | EntDrain

fun entry_exec :: "entry_op \<Rightarrow> Entry \<Rightarrow> Entry" where
  "entry_exec (EntSession s) e = SetSession e s"
| "entry_exec (EntPending s) e = SetPendingSession e s"
| "entry_exec EntPromote e = fst (PromotePendingSession e)"
| "entry_exec (EntState s) e = SetState e s"
| "entry_exec (EntTouch now) e = Touch e now"
| "entry_exec (EntEnqueue pkt) e = fst (Enqueue e pkt)"
| "entry_exec EntDrain e = fst (DrainQueue e)"

datatype peer_op = OpUpsert eref Entry | OpUpdate peer_id AddrPort | OpClaim peer_id AddrPort
  | OpRemove peer_id | OpEntry eref entry_op

definition unused :: "Table \<Rightarrow> eref \<Rightarrow> bool" where
  "unused t e \<longleftrightarrow> e \<notin> ran (byID t) \<and> e \<notin> ran (byVPN t) \<and> e \<notin> ran (byEndpoint t) \<and> e \<notin> ran (byName t)"

inductive peer_step :: "eheap \<times> Table \<Rightarrow> peer_op \<Rightarrow> eheap \<times> Table \<Rightarrow> bool" where
  step_upsert: "\<lbrakk>unused t e; h' = h(e := x); Upsert h' t e = (t', ok)\<rbrakk>
     \<Longrightarrow> peer_step (h, t) (OpUpsert e x) (h', t')"
| step_update: "UpdateEndpoint h t pid ep = (h', t', ok) \<Longrightarrow> peer_step (h, t) (OpUpdate pid ep) (h', t')"
| step_claim: "ClaimEndpoint h t pid ep = (h', t', ok) \<Longrightarrow> peer_step (h, t) (OpClaim pid ep) (h', t')"
| step_remove: "peer_step (h, t) (OpRemove pid) (h, Remove h t pid)"
| step_entry: "peer_step (h, t) (OpEntry e eop) (h(e := entry_exec eop (h e)), t)"

inductive peer_run :: "eheap \<times> Table \<Rightarrow> peer_op list \<Rightarrow> eheap \<times> Table \<Rightarrow> bool" where
  run_Nil: "peer_run \<sigma> [] \<sigma>"
| run_Cons: "\<lbrakk>peer_step \<sigma> op \<sigma>1; peer_run \<sigma>1 ops \<sigma>2\<rbrakk> \<Longrightarrow> peer_run \<sigma> (op # ops) \<sigma>2"

inductive_cases peer_stepE: "peer_step \<sigma> op \<sigma>'"

lemma entry_exec_keys [simp]:
  "ID (entry_exec eop e) = ID e" "VPNAddr (entry_exec eop e) = VPNAddr e"
  "Name (entry_exec eop e) = Name e" "endpoint (entry_exec eop e) = endpoint e"
  by (cases eop; simp add: entry_ops Let_def)+

text \<open>The invariant depends on the keys of the entries the table holds and on nothing else.\<close>

lemma table_inv_cong:
  assumes inv: "table_inv h t" and same: "\<And>x. \<not> unused t x \<Longrightarrow> ID (h' x) = ID (h x) \<and>
     VPNAddr (h' x) = VPNAddr (h x) \<and> endpoint (h' x) = endpoint (h x) \<and> Name (h' x) = Name (h x)"
  shows "table_inv h' t"
proof -
  note I = table_invD [OF inv]
  have used: "byID t pid = Some x \<Longrightarrow> \<not> unused t x" "byVPN t a = Some x \<Longrightarrow> \<not> unused t x"
    "byEndpoint t ep = Some x \<Longrightarrow> \<not> unused t x" "byName t k = Some x \<Longrightarrow> \<not> unused t x" for pid a ep k x
    by (auto simp: unused_def ran_def)
  show ?thesis
  proof (rule table_invI)
    show "ID (h' x) = pid" if "byID t pid = Some x" for pid x
      using I(1) [OF that] same [OF used(1) [OF that]] by simp
    show "byID t (ID (h' x)) = Some x \<and> VPNAddr (h' x) = a \<and> Addr_IsValid a" if "byVPN t a = Some x" for a x
      using I(2) [OF that] same [OF used(2) [OF that]] by simp
    show "byID t (ID (h' x)) = Some x \<and> endpoint (h' x) = ep \<and> AddrPort_IsValid ep"
      if "byEndpoint t ep = Some x" for ep x
      using I(3) [OF that] same [OF used(3) [OF that]] by simp
    show "byID t (ID (h' x)) = Some x \<and> ToLower (Name (h' x)) = k \<and> k \<noteq> []" if "byName t k = Some x" for k x
      using I(4) [OF that] same [OF used(4) [OF that]] by simp
    show "byVPN t (VPNAddr (h' x)) = Some x"
      if "byID t (ID (h' x)) = Some x" "Addr_IsValid (VPNAddr (h' x))" for x
      using I(5) [of x] same [OF used(1) [OF that(1)]] that by simp
  qed
qed

lemma peer_step_inv:
  assumes "peer_step (h, t) op (h', t')" "table_inv h t"
  shows "table_inv h' t'"
  using assms(1)
proof (cases rule: peer_step.cases)
  case (step_upsert e x ok)
  have "table_inv h' t"
    using assms(2) by (rule table_inv_cong) (use step_upsert in auto)
  then show ?thesis using Upsert_inv step_upsert by blast
next
  case (step_entry e eop)
  then show ?thesis using assms(2) by (auto intro: table_inv_cong)
qed (use assms(2) in \<open>auto simp: UpdateEndpoint_def ClaimEndpoint_def intro: setEndpoint_inv Remove_inv\<close>)

lemma peer_run_inv: "peer_run \<sigma> ops \<sigma>' \<Longrightarrow> table_inv (fst \<sigma>) (snd \<sigma>) \<Longrightarrow> table_inv (fst \<sigma>') (snd \<sigma>')"
proof (induction rule: peer_run.induct)
  case (run_Cons \<sigma> op \<sigma>1 ops \<sigma>2)
  then show ?case using peer_step_inv [of "fst \<sigma>" "snd \<sigma>" op "fst \<sigma>1" "snd \<sigma>1"] by simp
qed

section \<open>What an index promises its clients\<close>

text \<open>The three secondary indexes keep one contract: a slot names a peer of the table with that
  key, and a slot of one peer survives every unauthenticated operation on another.\<close>

fun op_subject :: "peer_op \<Rightarrow> peer_id option" where
  "op_subject (OpUpsert e x) = Some (ID x)"
| "op_subject (OpUpdate pid ep) = Some pid"
| "op_subject (OpClaim pid ep) = Some pid"
| "op_subject (OpRemove pid) = Some pid"
| "op_subject (OpEntry e eop) = None"

fun is_claim :: "peer_op \<Rightarrow> bool" where
  "is_claim (OpClaim pid ep) = True"
| "is_claim _ = False"

locale peer_index =
  fixes idx :: "Table \<Rightarrow> 'k \<rightharpoonup> eref" and key_of :: "Entry \<Rightarrow> 'k"
  assumes idx_used: "idx t k = Some x \<Longrightarrow> \<not> unused t x"
    and idx_sound: "table_inv h t \<Longrightarrow> idx t k = Some x \<Longrightarrow> byID t (ID (h x)) = Some x \<and> key_of (h x) = k"
    and upsert_keeps: "table_inv h t \<Longrightarrow> Upsert h t e = (t', ok) \<Longrightarrow> idx t k = Some x \<Longrightarrow>
           ID (h x) \<noteq> ID (h e) \<Longrightarrow> idx t' k = Some x"
    and update_keeps: "table_inv h t \<Longrightarrow> UpdateEndpoint h t pid ep = (h', t', ok) \<Longrightarrow> idx t k = Some x \<Longrightarrow>
           ID (h x) \<noteq> pid \<Longrightarrow> idx t' k = Some x"
    and remove_keeps: "table_inv h t \<Longrightarrow> idx t k = Some x \<Longrightarrow> ID (h x) \<noteq> pid \<Longrightarrow> idx (Remove h t pid) k = Some x"
    and remove_clears: "table_inv h t \<Longrightarrow> idx (Remove h t pid) k = Some x \<Longrightarrow> ID (h x) \<noteq> pid"
begin

lemma one_key: "table_inv h t \<Longrightarrow> idx t k = Some x \<Longrightarrow> idx t k' = Some x \<Longrightarrow> k = k'"
  using idx_sound by metis

lemma step_keeps:
  assumes "peer_step (h, t) op (h', t')" "table_inv h t" "idx t k = Some x" "op_subject op \<noteq> Some (ID (h x))" "\<not> is_claim op"
  shows "idx t' k = Some x \<and> ID (h' x) = ID (h x)"
  using assms(1)
proof (cases rule: peer_step.cases)
  case (step_upsert e y ok)
  have "x \<noteq> e" using idx_used [OF assms(3)] step_upsert by auto
  then have h': "h' x = h x" "h' e = y" using step_upsert by auto
  have "table_inv h' t"
    using assms(2) by (rule table_inv_cong) (use step_upsert in auto)
  then show ?thesis using upsert_keeps [of h' t e t' ok k x] step_upsert assms(3,4) h' by auto
next
  case (step_update pid ep ok)
  then show ?thesis using update_keeps [OF assms(2)] assms(3,4)
    by (auto simp: UpdateEndpoint_def dest: setEndpoint_keys)
next
  case (step_remove pid)
  with assms(2,3,4) show ?thesis by (simp add: remove_keeps)
next
  case (step_entry e eop)
  with assms(3) show ?thesis by simp
qed (use assms(5) in simp)

lemma run_keeps:
  assumes "peer_run \<sigma> ops \<sigma>'" "table_inv (fst \<sigma>) (snd \<sigma>)" "idx (snd \<sigma>) k = Some x" "ID (fst \<sigma> x) = pid"
    "\<forall>op \<in> set ops. \<not> is_claim op \<and> op_subject op \<noteq> Some pid"
  shows "idx (snd \<sigma>') k = Some x"
  using assms
proof (induction rule: peer_run.induct)
  case (run_Cons \<sigma> op \<sigma>1 ops \<sigma>2)
  then have "idx (snd \<sigma>1) k = Some x \<and> ID (fst \<sigma>1 x) = ID (fst \<sigma> x)"
    by (intro step_keeps [of "fst \<sigma>" "snd \<sigma>" op]) auto
  moreover have "table_inv (fst \<sigma>1) (snd \<sigma>1)"
    using peer_step_inv [of "fst \<sigma>" "snd \<sigma>" op "fst \<sigma>1" "snd \<sigma>1"] run_Cons by simp
  ultimately show ?case using run_Cons by simp
qed

end

lemma take_keeps:
  "m k = Some x \<Longrightarrow> ID (h x) \<noteq> ID (h e) \<Longrightarrow> take_slot h (others h (ID (h e)) m) k' e k = Some x"
  by (auto simp: take_others)

lemma setEndpoint_unclaimed:
  "setEndpoint h t pid ep False = (h', t', True) \<Longrightarrow> AddrPort_IsValid ep \<Longrightarrow> byEndpoint t ep = Some x \<Longrightarrow> byID t pid = Some x"
  by (auto simp: setEndpoint_def Let_def split: option.splits if_splits)

lemma setEndpoint_frame:
  assumes "setEndpoint h t pid ep claim = (h', t', ok)"
  shows "byID t' = byID t" "byVPN t' = byVPN t" "byName t' = byName t"
  using assms by (auto simp: setEndpoint_def Let_def split: option.splits if_splits)

lemma update_keeps_endpoint:
  assumes inv: "table_inv h t" and U: "UpdateEndpoint h t pid ep = (h', t', ok)"
    and x: "byEndpoint t k = Some x" "ID (h x) \<noteq> pid"
  shows "byEndpoint t' k = Some x"
proof (cases ok)
  case False
  with U x show ?thesis by (auto simp: UpdateEndpoint_def dest: setEndpoint_refused)
next
  case True
  with U have S: "setEndpoint h t pid ep False = (h', t', True)" by (simp add: UpdateEndpoint_def)
  from setEndpoint_ok [OF inv S] obtain e where e: "byID t pid = Some e"
    and E: "byEndpoint t' = (if AddrPort_IsValid ep then (without e (byEndpoint t))(ep \<mapsto> e)
                          else without e (byEndpoint t))" by metis
  have "x \<noteq> e" using table_invD(1) [OF inv e] x(2) by auto
  moreover have "k \<noteq> ep" if "AddrPort_IsValid ep"
    using setEndpoint_unclaimed [OF S that] x(1) e \<open>x \<noteq> e\<close> by auto
  ultimately show ?thesis using x(1) by (simp add: E)
qed

lemma Remove_slots:
  assumes "table_inv h t"
  shows "byID (Remove h t pid) = (byID t)(pid := None)"
    and "byVPN (Remove h t pid) = others h pid (byVPN t)"
    and "byEndpoint (Remove h t pid) = others h pid (byEndpoint t)"
    and "byName (Remove h t pid) = others h pid (byName t)"
  using taken_out_slots [OF assms, of pid]
  by (auto simp: Remove_def taken_out_def unindex_def split: option.splits)

lemma Upsert_keeps:
  assumes inv: "table_inv h t" and U: "Upsert h t e = (t', ok)"
  shows "byVPN t a = Some x \<Longrightarrow> ID (h x) \<noteq> ID (h e) \<Longrightarrow> byVPN t' a = Some x"
    and "byEndpoint t ep = Some x \<Longrightarrow> ID (h x) \<noteq> ID (h e) \<Longrightarrow> byEndpoint t' ep = Some x"
    and "byName t k = Some x \<Longrightarrow> ID (h x) \<noteq> ID (h e) \<Longrightarrow> byName t' k = Some x"
proof (atomize (full), cases ok)
  case False
  with U have "t' = t" by (intro Upsert_refused [of h t e]) simp
  then show "(byVPN t a = Some x \<longrightarrow> ID (h x) \<noteq> ID (h e) \<longrightarrow> byVPN t' a = Some x) \<and>
    (byEndpoint t ep = Some x \<longrightarrow> ID (h x) \<noteq> ID (h e) \<longrightarrow> byEndpoint t' ep = Some x) \<and>
    (byName t k = Some x \<longrightarrow> ID (h x) \<noteq> ID (h e) \<longrightarrow> byName t' k = Some x)" by simp
next
  case True
  with U have "Upsert h t e = (t', True)" by simp
  note T = Upsert_table [OF inv this]
  show "(byVPN t a = Some x \<longrightarrow> ID (h x) \<noteq> ID (h e) \<longrightarrow> byVPN t' a = Some x) \<and>
    (byEndpoint t ep = Some x \<longrightarrow> ID (h x) \<noteq> ID (h e) \<longrightarrow> byEndpoint t' ep = Some x) \<and>
    (byName t k = Some x \<longrightarrow> ID (h x) \<noteq> ID (h e) \<longrightarrow> byName t' k = Some x)"
    using T(5) [of x] by (auto simp: T(2-4) take_keeps)
qed

lemmas index_laws = unused_def ran_def Remove_slots UpdateEndpoint_def setEndpoint_frame Upsert_keeps

interpretation vpn_index: peer_index byVPN VPNAddr
proof unfold_locales
  show "table_inv h t \<Longrightarrow> byVPN t k = Some x \<Longrightarrow> byID t (ID (h x)) = Some x \<and> VPNAddr (h x) = k" for h t k x
    using table_invD(2) by blast
qed (auto simp: index_laws)

interpretation endpoint_index: peer_index byEndpoint endpoint
proof unfold_locales
  show "table_inv h t \<Longrightarrow> byEndpoint t k = Some x \<Longrightarrow> byID t (ID (h x)) = Some x \<and> endpoint (h x) = k" for h t k x
    using table_invD(3) by blast
qed (auto simp: index_laws intro: update_keeps_endpoint)

interpretation name_index: peer_index byName "\<lambda>e. ToLower (Name e)"
proof unfold_locales
  show "table_inv h t \<Longrightarrow> byName t k = Some x \<Longrightarrow> byID t (ID (h x)) = Some x \<and> ToLower (Name (h x)) = k" for h t k x
    using table_invD(4) by blast
qed (auto simp: index_laws)

section \<open>Properties of the peer table\<close>

text \<open>C15. Whatever sequence of operations built the table, its four indexes agree: a lookup by VPN
  address, endpoint or name yields a peer that the lookup by its own ID yields too and that has the
  key looked up, and every peer with a valid VPN address is found by it. So no two peers answer to
  one address.\<close>

theorem peer_lookups_agree:
  assumes "peer_run (h0, New_Table) ops (h, t)"
  shows "(\<forall>a e. LookupByVPN t a = Some e \<longrightarrow> LookupByID t (ID (h e)) = Some e \<and> VPNAddr (h e) = a) \<and>
    (\<forall>ep e. LookupByEndpoint t ep = Some e \<longrightarrow> LookupByID t (ID (h e)) = Some e \<and> endpoint (h e) = ep) \<and>
    (\<forall>n e. LookupByName t n = Some e \<longrightarrow> LookupByID t (ID (h e)) = Some e \<and> EqualFold (Name (h e)) n) \<and>
    (\<forall>pid e. LookupByID t pid = Some e \<longrightarrow> ID (h e) = pid \<and>
       (Addr_IsValid (VPNAddr (h e)) \<longrightarrow> LookupByVPN t (VPNAddr (h e)) = Some e))"
proof -
  have inv: "table_inv h t" using peer_run_inv [OF assms] by (simp add: table_inv_New)
  note I = table_invD [OF inv]
  have "ID (h e) = pid \<and> (Addr_IsValid (VPNAddr (h e)) \<longrightarrow> byVPN t (VPNAddr (h e)) = Some e)"
    if "byID t pid = Some e" for pid e
    using I(1) [OF that] I(5) [of e] that by simp
  then show ?thesis
    unfolding lookups EqualFold_def
    using vpn_index.idx_sound [OF inv] endpoint_index.idx_sound [OF inv] name_index.idx_sound [OF inv] by blast
qed

text \<open>Two peers for the examples, and the runs evaluated: \<open>peer_eval\<close> computes the state an
  operation leads to, \<open>fresh_cells\<close> the side condition on upserts.\<close>

definition example_peer :: "byte \<Rightarrow> u32 \<Rightarrow> string \<Rightarrow> AddrPort \<Rightarrow> Entry" where
  "example_peer b a n ep = \<lparr>ID = replicate 32 b, X25519Pub = replicate 32 (b + 1), VPNAddr = Addr4 a, Name = n,
     SubnetRoutes = [], endpoint = ep, session = None, pendingSession = None, prevSession = None,
     state = StatePending, lastSeen = 0, holdQueue = []\<rparr>"

definition example_ops :: "peer_op list" where
  "example_ops =
     [OpUpsert 1 (example_peer 1 0x0A010001 ''ada'' \<lparr>ap_addr = Addr4 0xC6336401, ap_port = 51820\<rparr>),
      OpUpsert 2 (example_peer 2 0x0A010002 ''Bob'' zero_AddrPort)]"

fun peer_eval :: "eheap \<times> Table \<Rightarrow> peer_op \<Rightarrow> eheap \<times> Table" where
  "peer_eval (h, t) (OpUpsert e x) = (h(e := x), fst (Upsert (h(e := x)) t e))"
| "peer_eval (h, t) (OpUpdate pid ep) = (case UpdateEndpoint h t pid ep of (h', t', _) \<Rightarrow> (h', t'))"
| "peer_eval (h, t) (OpClaim pid ep) = (case ClaimEndpoint h t pid ep of (h', t', _) \<Rightarrow> (h', t'))"
| "peer_eval (h, t) (OpRemove pid) = (h, Remove h t pid)"
| "peer_eval (h, t) (OpEntry e eop) = (h(e := entry_exec eop (h e)), t)"

fun fresh_cells :: "eheap \<times> Table \<Rightarrow> peer_op list \<Rightarrow> bool" where
  "fresh_cells \<sigma> [] \<longleftrightarrow> True"
| "fresh_cells \<sigma> (op # ops) \<longleftrightarrow>
     (case op of OpUpsert e x \<Rightarrow> unused (snd \<sigma>) e | _ \<Rightarrow> True) \<and> fresh_cells (peer_eval \<sigma> op) ops"

lemma peer_eval_step:
  assumes "fresh_cells \<sigma> [op]"
  shows "peer_step \<sigma> op (peer_eval \<sigma> op)"
proof -
  obtain h t where \<sigma>: "\<sigma> = (h, t)" by (cases \<sigma>)
  show ?thesis
    using assms unfolding \<sigma> by (cases op) (auto intro: peer_step.intros step_upsert [OF _ refl surjective_pairing] split: prod.splits)
qed

lemma peer_eval_run: "fresh_cells \<sigma> ops \<Longrightarrow> peer_run \<sigma> ops (foldl peer_eval \<sigma> ops)"
proof (induction ops arbitrary: \<sigma>)
  case (Cons op ops)
  then have "peer_step \<sigma> op (peer_eval \<sigma> op)" by (intro peer_eval_step) simp
  with Cons show ?case by (simp add: run_Cons)
qed (simp add: run_Nil)

definition example_state :: "eheap \<times> Table" where
  "example_state = foldl peer_eval (\<lambda>_. example_peer 0 0 [] zero_AddrPort, New_Table) example_ops"

lemmas example_defs = example_state_def example_ops_def example_peer_def New_Table_def Upsert_def Let_def
  UpdateEndpoint_def ClaimEndpoint_def setEndpoint_def SetEndpoint_def take_slot_def lookups zero_AddrPort_def
  AddrPort_IsValid_def zero_Addr_def unused_def ToLower_def lower_char_def char_of_def bit_0

lemma example_run: "peer_run (\<lambda>_. example_peer 0 0 [] zero_AddrPort, New_Table) example_ops example_state"
  unfolding example_state_def by (rule peer_eval_run) (simp add: example_defs)

theorem peer_lookups_agree_witness:
  "LookupByVPN (snd example_state) (Addr4 0x0A010002) = Some 2 \<and>
   LookupByID (snd example_state) (ID (fst example_state 2)) = Some 2"
proof -
  have "LookupByVPN (snd example_state) (Addr4 0x0A010002) = Some 2" by (simp add: example_defs)
  moreover from this have "LookupByID (snd example_state) (ID (fst example_state 2)) = Some 2"
    using peer_lookups_agree [of "\<lambda>_. example_peer 0 0 [] zero_AddrPort" example_ops "fst example_state" "snd example_state"]
      example_run by simp
  ultimately show ?thesis by simp
qed

text \<open>C10. No peer takes over another's address: from any reachable state, a peer's VPN address, name and
  endpoint keep resolving to it through every sequence of operations that neither concern that peer nor
  are the endpoint claim of a completed handshake: upserts of entries with any address, name or endpoint,
  endpoint hints, removals of other peers, changes inside entries.\<close>

theorem peer_slots_not_taken_over:
  assumes "peer_run (h0, New_Table) ops0 \<sigma>" and "peer_run \<sigma> ops \<sigma>'"
    and "\<forall>op \<in> set ops. \<not> is_claim op \<and> op_subject op \<noteq> Some (ID (fst \<sigma> e))"
  shows "(LookupByVPN (snd \<sigma>) a = Some e \<longrightarrow> LookupByVPN (snd \<sigma>') a = Some e) \<and>
    (LookupByEndpoint (snd \<sigma>) ep = Some e \<longrightarrow> LookupByEndpoint (snd \<sigma>') ep = Some e) \<and>
    (LookupByName (snd \<sigma>) n = Some e \<longrightarrow> LookupByName (snd \<sigma>') n = Some e)"
proof -
  have "table_inv (fst \<sigma>) (snd \<sigma>)"
    using peer_run_inv [OF assms(1)] by (simp add: table_inv_New)
  note keep = assms(2) this _ refl assms(3)
  show ?thesis
    using vpn_index.run_keeps [OF keep] endpoint_index.run_keeps [OF keep] name_index.run_keeps [OF keep]
    unfolding lookups by blast
qed

theorem peer_slots_not_taken_over_witness:
  "let \<sigma>' = foldl peer_eval example_state
     [OpUpsert 3 (example_peer 3 0x0A010001 ''ADA'' \<lparr>ap_addr = Addr4 0xC6336401, ap_port = 51820\<rparr>),
      OpUpsert 4 (example_peer 4 0x0A010004 ''ADA'' \<lparr>ap_addr = Addr4 0xC6336401, ap_port = 51820\<rparr>)]
   in LookupByVPN (snd \<sigma>') (Addr4 0x0A010001) = Some 1 \<and>
      LookupByEndpoint (snd \<sigma>') \<lparr>ap_addr = Addr4 0xC6336401, ap_port = 51820\<rparr> = Some 1 \<and>
      LookupByName (snd \<sigma>') ''Ada'' = Some 1"
proof -
  define ops where "ops = [OpUpsert 3 (example_peer 3 0x0A010001 ''ADA'' \<lparr>ap_addr = Addr4 0xC6336401, ap_port = 51820\<rparr>),
      OpUpsert 4 (example_peer 4 0x0A010004 ''ADA'' \<lparr>ap_addr = Addr4 0xC6336401, ap_port = 51820\<rparr>)]"
  have run: "peer_run example_state ops (foldl peer_eval example_state ops)"
    by (rule peer_eval_run) (simp add: example_defs ops_def)
  have "\<forall>op \<in> set ops. \<not> is_claim op \<and> op_subject op \<noteq> Some (ID (fst example_state 1))"
    by (simp add: example_defs ops_def)
  note keep = peer_slots_not_taken_over [OF example_run run this]
  have "LookupByVPN (snd example_state) (Addr4 0x0A010001) = Some 1"
    "LookupByEndpoint (snd example_state) \<lparr>ap_addr = Addr4 0xC6336401, ap_port = 51820\<rparr> = Some 1"
    "LookupByName (snd example_state) ''Ada'' = Some 1"
    by (simp_all add: example_defs)
  then show ?thesis
    using keep [of "Addr4 0x0A010001" "\<lparr>ap_addr = Addr4 0xC6336401, ap_port = 51820\<rparr>" "''Ada''"]
    unfolding ops_def Let_def by simp
qed

text \<open>C26. A completed handshake moves the endpoint: when \<open>ClaimEndpoint\<close> succeeds for a valid endpoint,
  packets from it resolve to the claiming peer and the peer's own entry says so, a former owner is left
  without an endpoint, the peer's former endpoint resolves to nobody, and every other endpoint resolves as
  before. It fails only for an unknown peer.\<close>

theorem claim_moves_endpoint:
  assumes "peer_run (h0, New_Table) ops (h, t)" and "AddrPort_IsValid ep"
    and "ClaimEndpoint h t pid ep = (h', t', ok)"
  shows "(ok \<longleftrightarrow> LookupByID t pid \<noteq> None) \<and>
    (\<forall>e. LookupByID t pid = Some e \<longrightarrow>
       LookupByEndpoint t' ep = Some e \<and> endpoint (h' e) = ep \<and>
       (\<forall>x. LookupByEndpoint t ep = Some x \<and> x \<noteq> e \<longrightarrow> endpoint (h' x) = zero_AddrPort) \<and>
       (\<forall>q. q \<noteq> ep \<longrightarrow> LookupByEndpoint t' q =
          (if LookupByEndpoint t q = Some e then None else LookupByEndpoint t q)))"
proof -
  have inv: "table_inv h t" using peer_run_inv [OF assms(1)] by (simp add: table_inv_New)
  have S: "setEndpoint h t pid ep True = (h', t', ok)" using assms(3) by (simp add: ClaimEndpoint_def)
  have ok: "ok \<longleftrightarrow> byID t pid \<noteq> None"
    using S by (auto simp: setEndpoint_def Let_def split: option.splits)
  have "byEndpoint t' ep = Some e \<and> endpoint (h' e) = ep \<and>
       (\<forall>x. byEndpoint t ep = Some x \<and> x \<noteq> e \<longrightarrow> endpoint (h' x) = zero_AddrPort) \<and>
       (\<forall>q. q \<noteq> ep \<longrightarrow> byEndpoint t' q = (if byEndpoint t q = Some e then None else byEndpoint t q))"
    if "byID t pid = Some e" for e
  proof -
    from that ok S have "setEndpoint h t pid ep True = (h', t', True)" by simp
    then obtain e' where "byID t pid = Some e'"
      and E: "byEndpoint t' = (if AddrPort_IsValid ep then (without e' (byEndpoint t))(ep \<mapsto> e')
                            else without e' (byEndpoint t))"
      and "endpoint (h' e') = ep" "\<forall>x. x \<noteq> e' \<longrightarrow> endpoint (h' x) =
           (if AddrPort_IsValid ep \<and> byEndpoint t ep = Some x then zero_AddrPort else endpoint (h x))"
      by (rule setEndpoint_ok [OF inv])
    with that assms(2) show ?thesis by (simp add: without_def)
  qed
  with ok show ?thesis unfolding lookups by blast
qed

theorem claim_moves_endpoint_witness:
  "let (h', t', ok) = ClaimEndpoint (fst example_state) (snd example_state) (replicate 32 2)
        \<lparr>ap_addr = Addr4 0xC6336401, ap_port = 51820\<rparr>
   in ok \<and> LookupByEndpoint t' \<lparr>ap_addr = Addr4 0xC6336401, ap_port = 51820\<rparr> = Some 2 \<and>
      endpoint (h' 1) = zero_AddrPort"
proof -
  define ep where "ep = \<lparr>ap_addr = Addr4 0xC6336401, ap_port = 51820\<rparr>"
  obtain h' t' ok where C: "ClaimEndpoint (fst example_state) (snd example_state) (replicate 32 2) ep = (h', t', ok)"
    by (metis prod_cases3)
  have look: "LookupByID (snd example_state) (replicate 32 2) = Some 2"
    "LookupByEndpoint (snd example_state) ep = Some 1"
    by (simp_all add: example_defs ep_def)
  have "peer_run (\<lambda>_. example_peer 0 0 [] zero_AddrPort, New_Table) example_ops (fst example_state, snd example_state)"
    using example_run by simp
  from claim_moves_endpoint [OF this _ C] look
  have "ok \<and> LookupByEndpoint t' ep = Some 2 \<and> endpoint (h' 1) = zero_AddrPort"
    by (simp add: ep_def AddrPort_IsValid_def)
  then show ?thesis using C unfolding ep_def by simp
qed

text \<open>The hold queue is a bounded FIFO: from an entry with an empty queue, enqueueing packets and draining
  returns the first 64 of them in order and leaves the queue empty, and each packet beyond the 64th is
  refused.\<close>

theorem hold_queue_bounded_fifo:
  assumes "holdQueue e = []"
  shows "DrainQueue (foldl (\<lambda>e p. fst (Enqueue e p)) e pkts) = (e, take HoldQueueMax pkts) \<and>
    (snd (Enqueue (foldl (\<lambda>e p. fst (Enqueue e p)) e pkts) pkt) \<longleftrightarrow> length pkts < HoldQueueMax)"
proof -
  have fill: "foldl (\<lambda>e p. fst (Enqueue e p)) e0 ps = e0\<lparr>holdQueue := take HoldQueueMax (holdQueue e0 @ ps)\<rparr>"
    if "length (holdQueue e0) \<le> HoldQueueMax" for e0 ps
    using that by (induction ps arbitrary: e0) (auto simp: Enqueue_def take_Cons')
  have "e\<lparr>holdQueue := []\<rparr> = e" using assms by (metis Entry.surjective Entry.update_convs(12))
  then show ?thesis
    using fill [of e pkts] assms by (auto simp: DrainQueue_def Enqueue_def HoldQueueMax_def)
qed

theorem hold_queue_bounded_fifo_witness:
  "snd (DrainQueue (foldl (\<lambda>e p. fst (Enqueue e p)) (example_peer 1 0 [] zero_AddrPort) (replicate 70 [7]))) =
     replicate 64 [7]"
  using hold_queue_bounded_fifo [of "example_peer 1 0 [] zero_AddrPort" "replicate 70 [7]" "[]"]
  by (simp add: example_peer_def HoldQueueMax_def)

end
