(* ===== verification/AclPacket.thy ===== *)
theory AclPacket
  imports Veld_Prelude
begin

text \<open>
  Package internal/acl, parse.go: the flow and kind of an IPv4 or IPv6 packet. A parse
  function returns Go's triple (flow, kind, error); reading outside the packet is Go's
  panic and None here. The walk over IPv6 extension headers is Go's endless \<open>for\<close> with
  its exits, a recursion whose termination is proved: each header it skips has at least
  eight bytes inside the packet.
\<close>

type_synonym Proto = byte

definition ProtoTCP :: Proto where "ProtoTCP = 6"
definition ProtoUDP :: Proto where "ProtoUDP = 17"
definition ProtoICMP :: Proto where "ProtoICMP = 1"
definition ProtoICMPv6 :: Proto where "ProtoICMPv6 = 58"
definition ProtoAny :: Proto where "ProtoAny = 255"

lemmas protos = ProtoTCP_def ProtoUDP_def ProtoICMP_def ProtoICMPv6_def ProtoAny_def

record Flow =
  SrcIP :: bytes
  DstIP :: bytes
  SrcPort :: u16
  DstPort :: u16
  flow_Proto :: Proto
  IPv6 :: bool

definition zero_Flow :: Flow where
  "zero_Flow = \<lparr>SrcIP = replicate 16 0, DstIP = replicate 16 0, SrcPort = 0, DstPort = 0, flow_Proto = 0, IPv6 = False\<rparr>"

datatype Kind = KindStart | KindOther | KindFragment | KindError | KindEnd

type_synonym parsed = "Flow \<times> Kind \<times> string option"

definition fail :: "Flow \<Rightarrow> string \<Rightarrow> parsed option" where
  "fail flow msg = Some (flow, KindOther, Some msg)"

definition accept :: "Flow \<Rightarrow> Kind \<Rightarrow> parsed option" where
  "accept flow k = Some (flow, k, None)"

text \<open>\<open>binary.BigEndian.Uint16(b[i:i+2])\<close>.\<close>

definition uint16_at :: "bytes \<Rightarrow> nat \<Rightarrow> u16 option" where
  "uint16_at b i = byte_slice b i (i + 2) \<bind> BE_Uint16"

section \<open>Transport headers\<close>

definition parseTCP :: "Flow \<Rightarrow> bytes \<Rightarrow> parsed option" where
  "parseTCP flow tcp =
     (if length tcp < 20 then fail flow ''TCP header too short''
      else do {
        sp \<leftarrow> uint16_at tcp 0;
        dp \<leftarrow> uint16_at tcp 2;
        let flow = flow\<lparr>SrcPort := sp, DstPort := dp\<rparr>;
        off \<leftarrow> byte_at tcp 12;
        let dataOffset = unat (drop_bit 4 off);
        if dataOffset < 5 then fail flow ''invalid TCP data offset''
        else if length tcp < dataOffset * 4 then fail flow ''TCP packet shorter than header''
        else do {
          flags \<leftarrow> byte_at tcp 13;
          let syn = (flags AND 0x02 \<noteq> 0);
          let ack = (flags AND 0x10 \<noteq> 0);
          let fin = (flags AND 0x01 \<noteq> 0);
          let rst = (flags AND 0x04 \<noteq> 0);
          if syn \<and> \<not> ack then accept flow KindStart
          else if fin \<or> rst then accept flow KindEnd
          else accept flow KindOther
        }
      })"

definition parseUDP :: "Flow \<Rightarrow> bytes \<Rightarrow> parsed option" where
  "parseUDP flow udp =
     (if length udp < 8 then fail flow ''UDP header too short''
      else do {
        sp \<leftarrow> uint16_at udp 0;
        dp \<leftarrow> uint16_at udp 2;
        accept (flow\<lparr>SrcPort := sp, DstPort := dp\<rparr>) KindStart
      })"

definition isICMPError :: "byte \<Rightarrow> byte \<Rightarrow> bool" where
  "isICMPError msgType code \<longleftrightarrow> msgType = 3 \<or> msgType = 4 \<or> msgType = 5 \<or> msgType = 11 \<or> msgType = 12"

definition isICMPv6Error :: "byte \<Rightarrow> byte \<Rightarrow> bool" where
  "isICMPv6Error msgType code \<longleftrightarrow> msgType = 1 \<or> msgType = 2 \<or> msgType = 3 \<or> msgType = 4"

definition parseICMPErrorIPv4 :: "Flow \<Rightarrow> bytes \<Rightarrow> parsed option" where
  "parseICMPErrorIPv4 flow quoted =
     (if length quoted < 20 then accept flow KindError
      else do {
        b0 \<leftarrow> byte_at quoted 0;
        let ihl = unat (b0 AND 0x0F);
        if ihl < 5 then accept flow KindError
        else if length quoted < ihl * 4 + 4 then accept flow KindError
        else do {
          proto \<leftarrow> byte_at quoted 9;
          src \<leftarrow> byte_slice quoted 12 16;
          dst \<leftarrow> byte_slice quoted 16 20;
          let flow = flow\<lparr>flow_Proto := proto, IPv6 := False,
                          SrcIP := put_bytes (SrcIP flow) 12 src, DstIP := put_bytes (DstIP flow) 12 dst\<rparr>;
          transport \<leftarrow> byte_from quoted (ihl * 4);
          if length transport < 4 then accept flow KindError
          else if proto = ProtoTCP \<or> proto = ProtoUDP then do {
            sp \<leftarrow> uint16_at transport 0;
            dp \<leftarrow> uint16_at transport 2;
            accept (flow\<lparr>SrcPort := sp, DstPort := dp\<rparr>) KindError
          }
          else accept flow KindError
        }
      })"

definition parseICMPErrorIPv6 :: "Flow \<Rightarrow> bytes \<Rightarrow> parsed option" where
  "parseICMPErrorIPv6 flow quoted =
     (if length quoted < 40 then accept flow KindError
      else do {
        nextHeader \<leftarrow> byte_at quoted 6;
        src \<leftarrow> byte_slice quoted 8 24;
        dst \<leftarrow> byte_slice quoted 24 40;
        let flow = flow\<lparr>flow_Proto := nextHeader, IPv6 := True,
                        SrcIP := put_bytes (SrcIP flow) 0 src, DstIP := put_bytes (DstIP flow) 0 dst\<rparr>;
        if length quoted < 40 + 4 then accept flow KindError
        else do {
          transport \<leftarrow> byte_from quoted 40;
          if (nextHeader = ProtoTCP \<or> nextHeader = ProtoUDP) \<and> length transport \<ge> 4 then do {
            sp \<leftarrow> uint16_at transport 0;
            dp \<leftarrow> uint16_at transport 2;
            accept (flow\<lparr>SrcPort := sp, DstPort := dp\<rparr>) KindError
          }
          else accept flow KindError
        }
      })"

definition parseICMPError :: "Flow \<Rightarrow> bytes \<Rightarrow> parsed option" where
  "parseICMPError flow icmp =
     (if length icmp < 8 + 20 then accept flow KindError
      else do {
        quoted \<leftarrow> byte_from icmp 8;
        if length quoted < 20 then accept flow KindError
        else do {
          b0 \<leftarrow> byte_at quoted 0;
          if drop_bit 4 b0 = 4 then parseICMPErrorIPv4 flow quoted
          else if drop_bit 4 b0 = 6 then parseICMPErrorIPv6 flow quoted
          else accept flow KindError
        }
      })"

definition parseICMP :: "Flow \<Rightarrow> bytes \<Rightarrow> parsed option" where
  "parseICMP flow icmp =
     (if length icmp < 4 then fail flow ''ICMP header too short''
      else do {
        msgType \<leftarrow> byte_at icmp 0;
        code \<leftarrow> byte_at icmp 1;
        if msgType = 8 \<and> code = 0 then accept flow KindStart
        else if isICMPError msgType code then parseICMPError flow icmp
        else accept flow KindOther
      })"

definition parseICMPv6 :: "Flow \<Rightarrow> bytes \<Rightarrow> parsed option" where
  "parseICMPv6 flow icmp =
     (if length icmp < 4 then fail flow ''ICMPv6 header too short''
      else do {
        msgType \<leftarrow> byte_at icmp 0;
        code \<leftarrow> byte_at icmp 1;
        if msgType = 128 \<and> code = 0 then accept flow KindStart
        else if isICMPv6Error msgType code then parseICMPError flow icmp
        else accept flow KindOther
      })"

definition parseTransport :: "Flow \<Rightarrow> Proto \<Rightarrow> bytes \<Rightarrow> parsed option" where
  "parseTransport flow proto transport =
     (if proto = ProtoTCP then parseTCP flow transport
      else if proto = ProtoUDP then parseUDP flow transport
      else if proto = ProtoICMP then parseICMP flow transport
      else if proto = ProtoICMPv6 then parseICMPv6 flow transport
      else fail flow ''unknown transport protocol'')"

section \<open>IPv4\<close>

definition parseIPv4 :: "bytes \<Rightarrow> parsed option" where
  "parseIPv4 pkt =
     (let flow = zero_Flow\<lparr>IPv6 := False\<rparr>
      in if length pkt < 20 then fail flow ''IPv4 packet too short''
      else do {
        b0 \<leftarrow> byte_at pkt 0;
        let ihl = unat (b0 AND 0x0F);
        if ihl < 5 then fail flow ''invalid IPv4 IHL''
        else if length pkt < ihl * 4 then fail flow ''IPv4 packet shorter than header''
        else do {
          totalLen \<leftarrow> uint16_at pkt 2;
          flagsFrag \<leftarrow> uint16_at pkt 6;
          let fragOffset = flagsFrag AND 0x1FFF;
          let moreFragments = (flagsFrag AND 0x2000 \<noteq> 0);
          proto \<leftarrow> byte_at pkt 9;
          src \<leftarrow> byte_slice pkt 12 16;
          dst \<leftarrow> byte_slice pkt 16 20;
          let flow = flow\<lparr>flow_Proto := proto,
                          SrcIP := put_bytes (SrcIP flow) 12 src, DstIP := put_bytes (DstIP flow) 12 dst\<rparr>;
          if fragOffset > 0 then accept flow KindFragment
          else if length pkt < ihl * 4 + 4 then
            (if moreFragments then accept flow KindFragment else accept flow KindOther)
          else do {
            transport \<leftarrow> byte_from pkt (ihl * 4);
            parseTransport flow proto transport
          }
        }
      })"

section \<open>IPv6\<close>

text \<open>One turn of the extension-header loop: it leaves the function, or skips a header of the given
  size and goes on with the next header's protocol.\<close>

datatype ext_turn = Leave parsed | Skip nat Proto

definition skip_header :: "bytes \<Rightarrow> Flow \<Rightarrow> nat \<Rightarrow> nat \<Rightarrow> string \<Rightarrow> ext_turn option" where
  "skip_header pkt flow offset unit_size name =
     (if offset + 2 > length pkt then Some (Leave (flow, KindOther, Some (''IPv6 '' @ name @ '' header truncated'')))
      else do {
        nextHeader \<leftarrow> byte_at pkt offset;
        extLen \<leftarrow> byte_at pkt (offset + 1);
        let headerSize = 8 + unat extLen * unit_size;
        if offset + headerSize > length pkt
        then Some (Leave (flow, KindOther, Some (''IPv6 '' @ name @ '' header exceeds packet'')))
        else Some (Skip headerSize nextHeader)
      })"

definition fragment_header :: "bytes \<Rightarrow> Flow \<Rightarrow> nat \<Rightarrow> ext_turn option" where
  "fragment_header pkt flow offset =
     (if offset + 8 > length pkt then Some (Leave (flow, KindOther, Some ''IPv6 Fragment header truncated''))
      else do {
        nextHeader \<leftarrow> byte_at pkt offset;
        frag \<leftarrow> uint16_at pkt (offset + 2);
        let fragOffset = drop_bit 3 frag;
        if fragOffset > 0 then Some (Leave (flow\<lparr>flow_Proto := nextHeader\<rparr>, KindFragment, None))
        else Some (Skip 8 nextHeader)
      })"

definition ext_header :: "bytes \<Rightarrow> Flow \<Rightarrow> nat \<Rightarrow> Proto \<Rightarrow> ext_turn option" where
  "ext_header pkt flow offset proto =
     (if proto \<in> {ProtoTCP, ProtoUDP, ProtoICMP, ProtoICMPv6} then
        (let flow = flow\<lparr>flow_Proto := proto\<rparr>
         in if offset \<ge> length pkt
            then Some (Leave (flow, KindOther, Some ''IPv6 packet ends before transport header''))
            else do {
              transport \<leftarrow> byte_from pkt offset;
              r \<leftarrow> parseTransport flow proto transport;
              Some (Leave r)
            })
      else if proto = 0 then skip_header pkt flow offset 8 ''Hop-by-Hop''
      else if proto = 43 then skip_header pkt flow offset 8 ''Routing''
      else if proto = 44 then fragment_header pkt flow offset
      else if proto = 51 then skip_header pkt flow offset 4 ''AH''
      else if proto = 50 then
        Some (Leave (flow, KindOther, Some ''IPv6 ESP header - cannot parse encrypted payload''))
      else if proto = 60 then skip_header pkt flow offset 8 ''Destination Options''
      else Some (Leave (flow, KindOther, Some ''unknown IPv6 extension header'')))"

lemma skip_header_progress:
  "skip_header pkt flow offset u name = Some (Skip n nh) \<Longrightarrow> 8 \<le> n \<and> offset + n \<le> length pkt"
  by (auto simp: skip_header_def Let_def split: if_splits bind_splits)

lemma fragment_header_progress:
  "fragment_header pkt flow offset = Some (Skip n nh) \<Longrightarrow> 8 \<le> n \<and> offset + n \<le> length pkt"
  by (auto simp: fragment_header_def Let_def split: if_splits bind_splits)

lemma ext_header_progress:
  "ext_header pkt flow offset proto = Some (Skip n nh) \<Longrightarrow> 8 \<le> n \<and> offset + n \<le> length pkt"
  by (auto simp: ext_header_def Let_def dest: skip_header_progress fragment_header_progress
      split: if_splits bind_splits)

function walk_headers :: "bytes \<Rightarrow> Flow \<Rightarrow> nat \<Rightarrow> int \<Rightarrow> Proto \<Rightarrow> parsed option" where
  "walk_headers pkt flow offset remaining proto =
     (if remaining < 0 then fail flow ''IPv6 payload length exceeded''
      else case ext_header pkt flow offset proto of
        None \<Rightarrow> None
      | Some (Leave r) \<Rightarrow> Some r
      | Some (Skip headerSize nextHeader) \<Rightarrow>
          walk_headers pkt flow (offset + headerSize) (remaining - int headerSize) nextHeader)"
  by pat_completeness auto
termination
  by (relation "measure (\<lambda>(pkt, flow, offset, remaining, proto). length pkt - offset)")
    (auto dest: ext_header_progress)

declare walk_headers.simps [simp del]

definition parseIPv6 :: "bytes \<Rightarrow> parsed option" where
  "parseIPv6 pkt =
     (let flow = zero_Flow\<lparr>IPv6 := True\<rparr>
      in if length pkt < 40 then fail flow ''IPv6 packet too short''
      else do {
        payloadLen \<leftarrow> uint16_at pkt 4;
        nextHeader \<leftarrow> byte_at pkt 6;
        hopLimit \<leftarrow> byte_at pkt 7;
        src \<leftarrow> byte_slice pkt 8 24;
        dst \<leftarrow> byte_slice pkt 24 40;
        walk_headers pkt (flow\<lparr>SrcIP := put_bytes (SrcIP flow) 0 src, DstIP := put_bytes (DstIP flow) 0 dst\<rparr>)
          40 (int (unat payloadLen)) nextHeader
      })"

definition ParsePacket :: "bytes \<Rightarrow> parsed option" where
  "ParsePacket pkt =
     (if length pkt < 20 then fail zero_Flow ''packet too short for IPv4 header''
      else do {
        b0 \<leftarrow> byte_at pkt 0;
        if drop_bit 4 b0 = 4 then parseIPv4 pkt
        else if drop_bit 4 b0 = 6 then parseIPv6 pkt
        else fail zero_Flow ''unknown IP version''
      })"

section \<open>No packet makes the parser panic\<close>

lemma uint16_at_Some [panic_free, simp]:
  "i + 2 \<le> length b \<Longrightarrow> uint16_at b i = Some (of_nat (be_nat (take 2 (drop i b))))"
  by (simp add: uint16_at_def BE_Uint16_def be_uint_def)

lemma uint16_at_None [panic_free]: "uint16_at b i = None \<longleftrightarrow> length b < i + 2"
  by (simp add: uint16_at_def BE_Uint16_def be_uint_def byte_slice_def)

lemmas parse_results [panic_free] = fail_def accept_def Let_def

lemma transport_total [panic_free]: "parseTCP flow b \<noteq> None" "parseUDP flow b \<noteq> None"
  by (auto simp: parseTCP_def parseUDP_def panic_free simp del: not_None_eq)

lemma quoted_total [panic_free]: "parseICMPErrorIPv4 flow b \<noteq> None" "parseICMPErrorIPv6 flow b \<noteq> None"
  by (auto simp: parseICMPErrorIPv4_def parseICMPErrorIPv6_def panic_free simp del: not_None_eq)

lemma parseICMPError_total [panic_free]: "parseICMPError flow b \<noteq> None"
  by (auto simp: parseICMPError_def panic_free simp del: not_None_eq)

lemma parseICMP_total [panic_free]: "parseICMP flow b \<noteq> None" "parseICMPv6 flow b \<noteq> None"
  by (auto simp: parseICMP_def parseICMPv6_def panic_free simp del: not_None_eq)

lemma parseTransport_total [panic_free]: "parseTransport flow p b \<noteq> None"
  by (auto simp: parseTransport_def panic_free simp del: not_None_eq)

lemma ext_header_total [panic_free]: "ext_header pkt flow offset proto \<noteq> None"
  by (auto simp: ext_header_def skip_header_def fragment_header_def panic_free simp del: not_None_eq)

lemma walk_headers_total [panic_free]: "walk_headers pkt flow offset remaining proto \<noteq> None"
proof (induction pkt flow offset remaining proto rule: walk_headers.induct)
  case (1 pkt flow offset remaining proto)
  obtain t where t: "ext_header pkt flow offset proto = Some t" using ext_header_total by blast
  show ?case
  proof (cases t)
    case (Skip n nh)
    with 1 t show ?thesis
      by (simp add: walk_headers.simps [of pkt flow offset] fail_def del: not_None_eq)
  qed (use t in \<open>simp add: walk_headers.simps fail_def del: not_None_eq\<close>)
qed

lemma parseIP_total [panic_free]: "parseIPv4 pkt \<noteq> None" "parseIPv6 pkt \<noteq> None"
  by (auto simp: parseIPv4_def parseIPv6_def panic_free simp del: not_None_eq)

text \<open>C19. The parser is total: on every byte string, however truncated or crafted, \<open>ParsePacket\<close>
  terminates and returns, without a read outside the packet.\<close>

theorem ParsePacket_never_panics: "\<exists>flow kind err. ParsePacket pkt = Some (flow, kind, err)"
proof -
  have "ParsePacket pkt \<noteq> None"
    by (auto simp: ParsePacket_def panic_free simp del: not_None_eq)
  then show ?thesis by simp
qed

section \<open>Reference encodings\<close>

text \<open>The wire formats of RFC 791, 793 and 8200 as encoders: what a packet with given fields looks
  like. \<open>ihl4\<close> counts the option bytes in words of four.\<close>

definition ipv4_packet :: "byte \<Rightarrow> u16 \<Rightarrow> u16 \<Rightarrow> u16 \<Rightarrow> byte \<Rightarrow> Proto \<Rightarrow> u16 \<Rightarrow> bytes \<Rightarrow> bytes \<Rightarrow> bytes \<Rightarrow> bytes \<Rightarrow> bytes" where
  "ipv4_packet tos tlen ident flagsFrag ttl proto checksum src dst options payload =
     [0x40 OR of_nat (5 + length options div 4), tos] @ be_bytes 2 (unat tlen) @ be_bytes 2 (unat ident) @
     be_bytes 2 (unat flagsFrag) @ [ttl, proto] @ be_bytes 2 (unat checksum) @ src @ dst @ options @ payload"

definition tcp_segment :: "u16 \<Rightarrow> u16 \<Rightarrow> bytes \<Rightarrow> byte \<Rightarrow> byte \<Rightarrow> bytes \<Rightarrow> bytes" where
  "tcp_segment sp dp seq_ack doff flags rest =
     be_bytes 2 (unat sp) @ be_bytes 2 (unat dp) @ seq_ack @ [doff, flags] @ rest"

text \<open>An extension header is its own protocol number and its bytes after the next-header field.\<close>

definition ext_ok :: "Proto \<times> bytes \<Rightarrow> bool" where
  "ext_ok x = (case x of (p, body) \<Rightarrow> body \<noteq> [] \<and>
     (if p \<in> {0, 43, 60} then 1 + length body = 8 + 8 * unat (hd body)
      else if p = 51 then 1 + length body = 8 + 4 * unat (hd body)
      else p = 44 \<and> length body = 7 \<and> drop_bit 3 (of_nat (be_nat (take 2 (drop 1 body))) :: u16) = 0))"

fun first_proto :: "(Proto \<times> bytes) list \<Rightarrow> Proto \<Rightarrow> Proto" where
  "first_proto [] tp = tp"
| "first_proto ((p, body) # es) tp = p"

fun ext_chain :: "(Proto \<times> bytes) list \<Rightarrow> Proto \<Rightarrow> bytes" where
  "ext_chain [] tp = []"
| "ext_chain ((p, body) # es) tp = first_proto es tp # body @ ext_chain es tp"

definition ipv6_packet :: "bytes \<Rightarrow> u16 \<Rightarrow> byte \<Rightarrow> bytes \<Rightarrow> bytes \<Rightarrow> (Proto \<times> bytes) list \<Rightarrow> Proto \<Rightarrow> bytes \<Rightarrow> bytes" where
  "ipv6_packet class_label payloadLen hopLimit src dst exts tp payload =
     (0x60 # class_label) @ be_bytes 2 (unat payloadLen) @ [first_proto exts tp, hopLimit] @ src @ dst @
     ext_chain exts tp @ payload"

lemma uint16_at_be_bytes [be_codec]:
  "length pre = i \<Longrightarrow> uint16_at (pre @ be_bytes 2 (unat (v :: u16)) @ post) i = Some v"
  using be_uint_be_bytes [of 2 v "[]"]
  by (simp add: uint16_at_def BE_Uint16_def be_uint_def byte_slice_def)

lemma byte_at_append [be_codec]: "length pre = i \<Longrightarrow> byte_at (pre @ b # post) i = Some b"
  by (simp add: byte_at_def nth_append)

lemma byte_slice_append [be_codec]:
  "length pre = i \<Longrightarrow> j = i + length m \<Longrightarrow> byte_slice (pre @ m @ post) i j = Some m"
  by (simp add: byte_slice_def)

lemma byte_from_append [be_codec]: "length pre = i \<Longrightarrow> byte_from (pre @ post) i = Some post"
  by (simp add: byte_from_def)

text \<open>One extension header is skipped whole.\<close>

lemma skip_header_skips:
  assumes "length pre = offset" "1 + length (l # b) = 8 + unat l * u"
  shows "skip_header (pre @ nh # (l # b) @ post) flow offset u name = Some (Skip (1 + length (l # b)) nh)"
  using assms byte_at_append [OF assms(1), of nh "l # b @ post"]
    byte_at_append [of "pre @ [nh]" "offset + 1" l "b @ post"]
  by (simp add: skip_header_def Let_def)

lemma fragment_header_skips:
  assumes "length pre = offset" "length b = 6" "drop_bit 3 (of_nat (be_nat (take 2 b)) :: u16) = 0"
  shows "fragment_header (pre @ nh # (l # b) @ post) flow offset = Some (Skip 8 nh)"
proof -
  have "uint16_at (pre @ nh # l # b @ post) (offset + 2) = Some (of_nat (be_nat (take 2 b)))"
    using assms(1,2) by simp
  then show ?thesis
    using assms byte_at_append [OF assms(1), of nh "l # b @ post"]
    by (simp add: fragment_header_def Let_def)
qed

lemma ext_header_at:
  "p \<in> {0, 43, 60} \<Longrightarrow> \<exists>name. ext_header pkt flow offset p = skip_header pkt flow offset 8 name"
  "ext_header pkt flow offset 51 = skip_header pkt flow offset 4 ''AH''"
  "ext_header pkt flow offset 44 = fragment_header pkt flow offset"
  by (auto simp: ext_header_def protos)

lemma ext_header_skips:
  assumes ok: "ext_ok (p, body)" and pre: "length pre = offset"
  shows "ext_header (pre @ nh # body @ post) flow offset p = Some (Skip (1 + length body) nh)"
proof -
  obtain l b where body: "body = l # b" using ok by (cases body) (simp_all add: ext_ok_def)
  show ?thesis
  proof (cases "p \<in> {0, 43, 60}")
    case True
    then have "1 + length (l # b) = 8 + unat l * 8"
      using ok unfolding ext_ok_def body prod.case by (simp only: if_True list.sel mult.commute)
    with ext_header_at(1) [OF True] show ?thesis
      unfolding body by (metis skip_header_skips [OF pre])
  next
    case False
    then have "p = 51 \<and> 1 + length (l # b) = 8 + unat l * 4 \<or>
        p = 44 \<and> length b = 6 \<and> drop_bit 3 (of_nat (be_nat (take 2 b)) :: u16) = 0"
      using ok by (simp add: ext_ok_def body mult.commute split: if_splits)
    then show ?thesis
      unfolding body
      by (elim disjE conjE) (simp_all only: ext_header_at skip_header_skips [OF pre] fragment_header_skips [OF pre], simp)
  qed
qed

lemma walk_headers_chain:
  assumes "list_all ext_ok es" "length pre = offset" "int (length (ext_chain es tp)) \<le> remaining"
    "tp \<in> {ProtoTCP, ProtoUDP, ProtoICMP, ProtoICMPv6}" "payload \<noteq> []"
  shows "walk_headers (pre @ ext_chain es tp @ payload) flow offset remaining (first_proto es tp) =
    parseTransport (flow\<lparr>flow_Proto := tp\<rparr>) tp payload"
  using assms
proof (induction es arbitrary: pre offset remaining)
  case Nil
  obtain r where r: "parseTransport (flow\<lparr>flow_Proto := tp\<rparr>) tp payload = Some r"
    using parseTransport_total by blast
  have "ext_header (pre @ payload) flow offset tp = Some (Leave r)"
    using Nil r by (simp add: ext_header_def byte_from_append)
  with Nil r show ?case by (simp add: walk_headers.simps)
next
  case (Cons e es)
  obtain p body where e: "e = (p, body)" by (cases e)
  let ?nh = "first_proto es tp"
  have "ext_header (pre @ ?nh # body @ ext_chain es tp @ payload) flow offset p = Some (Skip (1 + length body) ?nh)"
    using Cons.prems by (intro ext_header_skips) (auto simp: e)
  moreover have "walk_headers ((pre @ ?nh # body) @ ext_chain es tp @ payload) flow (offset + (1 + length body))
      (remaining - int (1 + length body)) ?nh = parseTransport (flow\<lparr>flow_Proto := tp\<rparr>) tp payload"
    using Cons.prems by (intro Cons.IH) (auto simp: e)
  moreover have "\<not> remaining < 0" using Cons.prems(3) by (simp add: e)
  ultimately show ?case by (simp add: e walk_headers.simps [of _ _ offset])
qed

lemma put_bytes_fits: "length b = n + length s \<Longrightarrow> put_bytes b n s = take n b @ s"
  by (simp add: put_bytes_def)

text \<open>The fields of an IPv6 header, read back at their offsets.\<close>

lemma ipv6_fields:
  assumes "length cl = 3" "length src = 16" "length dst = 16"
    and pkt: "pkt = ipv6_packet cl plen hop src dst exts tp payload"
  shows "byte_at pkt 0 = Some 0x60" "uint16_at pkt 4 = Some plen" "byte_at pkt 6 = Some (first_proto exts tp)"
    "byte_at pkt 7 = Some hop" "byte_slice pkt 8 24 = Some src" "byte_slice pkt 24 40 = Some dst"
    "length pkt \<ge> 40"
proof -
  let ?l = "be_bytes 2 (unat plen)" and ?p = "first_proto exts tp" and ?r = "ext_chain exts tp @ payload"
  note pkt_def = pkt ipv6_packet_def
  show "byte_at pkt 0 = Some 0x60" "length pkt \<ge> 40" using assms(1-3) by (simp_all add: pkt_def)
  show "uint16_at pkt 4 = Some plen"
    using uint16_at_be_bytes [of "0x60 # cl" 4 plen "?p # hop # src @ dst @ ?r"] assms(1) by (simp add: pkt_def)
  show "byte_at pkt 6 = Some ?p"
    using byte_at_append [of "0x60 # cl @ ?l" 6 ?p "hop # src @ dst @ ?r"] assms(1) by (simp add: pkt_def)
  show "byte_at pkt 7 = Some hop"
    using byte_at_append [of "0x60 # cl @ ?l @ [?p]" 7 hop "src @ dst @ ?r"] assms(1) by (simp add: pkt_def)
  show "byte_slice pkt 8 24 = Some src"
    using byte_slice_append [of "0x60 # cl @ ?l @ [?p, hop]" 8 24 src "dst @ ?r"] assms(1,2) by (simp add: pkt_def)
  show "byte_slice pkt 24 40 = Some dst"
    using byte_slice_append [of "0x60 # cl @ ?l @ [?p, hop] @ src" 24 40 dst ?r] assms(1-3) by (simp add: pkt_def)
qed

text \<open>C22. No chain of extension headers hides a flow: an IPv6 packet with any sequence of well-formed
  hop-by-hop, routing, destination-options, authentication and first-fragment headers, within its payload
  length, is classified by its transport header exactly as the packet without them, with the addresses of its
  header.\<close>

theorem ipv6_extensions_transparent:
  assumes "length cl = 3" "length src = 16" "length dst = 16" "list_all ext_ok exts"
    and "length (ext_chain exts tp) \<le> unat plen"
    and "tp \<in> {ProtoTCP, ProtoUDP, ProtoICMP, ProtoICMPv6}" "payload \<noteq> []"
  shows "ParsePacket (ipv6_packet cl plen hop src dst exts tp payload) =
    parseTransport \<lparr>SrcIP = src, DstIP = dst, SrcPort = 0, DstPort = 0, flow_Proto = tp, IPv6 = True\<rparr> tp payload"
proof -
  let ?pkt = "ipv6_packet cl plen hop src dst exts tp payload"
  let ?flow = "zero_Flow\<lparr>IPv6 := True, SrcIP := src, DstIP := dst\<rparr>"
  note F = ipv6_fields [OF assms(1-3) refl, of plen hop exts tp payload]
  have "put_bytes (replicate 16 0) 0 src = src" "put_bytes (replicate 16 0) 0 dst = dst"
    using assms(2,3) by (simp_all add: put_bytes_fits)
  then have "ParsePacket ?pkt = walk_headers ?pkt ?flow 40 (int (unat plen)) (first_proto exts tp)"
    using F by (simp add: ParsePacket_def parseIPv6_def zero_Flow_def)
  also have "?pkt = ((0x60 # cl) @ be_bytes 2 (unat plen) @ [first_proto exts tp, hop] @ src @ dst) @
      ext_chain exts tp @ payload"
    by (simp add: ipv6_packet_def)
  also have "walk_headers \<dots> ?flow 40 (int (unat plen)) (first_proto exts tp) =
      parseTransport (?flow\<lparr>flow_Proto := tp\<rparr>) tp payload"
    using assms by (intro walk_headers_chain) (simp_all only: of_nat_le_iff, simp_all)
  finally show ?thesis by (simp add: zero_Flow_def ipv6_packet_def)
qed

theorem ipv6_extensions_transparent_witness:
  "ParsePacket (ipv6_packet [0, 0, 0] 24 64 (replicate 16 1) (replicate 16 2)
      [(0, 0 # replicate 6 0), (44, [0, 0, 1, 0, 0, 0, 7])] ProtoUDP [0, 53, 0, 80, 0, 8, 0, 0]) =
   Some (\<lparr>SrcIP = replicate 16 1, DstIP = replicate 16 2, SrcPort = 53, DstPort = 80, flow_Proto = 17, IPv6 = True\<rparr>,
         KindStart, None)"
  using ipv6_extensions_transparent [of "[0, 0, 0]" "replicate 16 1" "replicate 16 2"
      "[(0, 0 # replicate 6 0), (44, [0, 0, 1, 0, 0, 0, 7])]" ProtoUDP 24 "[0, 53, 0, 80, 0, 8, 0, 0]" 64]
  by (simp add: ext_ok_def parseTransport_def parseUDP_def accept_def uint16_at_def BE_Uint16_def be_uint_def protos)

lemma ihl_byte:
  assumes "n < 16"
  shows "drop_bit 4 (0x40 OR of_nat n :: byte) = 4" "unat ((0x40 OR of_nat n :: byte) AND 0x0F) = n"
proof -
  have "n \<in> {0, 1, 2, 3, 4, 5, 6, 7, 8, 9, 10, 11, 12, 13, 14, 15}"
    unfolding insert_iff empty_iff using assms by presburger
  then show "drop_bit 4 (0x40 OR of_nat n :: byte) = 4" "unat ((0x40 OR of_nat n :: byte) AND 0x0F) = n"
    by (elim insertE emptyE; simp)+
qed

lemma ipv4_fields:
  assumes "length src = 4" "length dst = 4"
    and pkt: "pkt = ipv4_packet tos tlen ident ff ttl proto ck src dst opts payload"
  shows "byte_at pkt 0 = Some (0x40 OR of_nat (5 + length opts div 4))" "uint16_at pkt 2 = Some tlen"
    "uint16_at pkt 6 = Some ff" "byte_at pkt 9 = Some proto" "byte_slice pkt 12 16 = Some src"
    "byte_slice pkt 16 20 = Some dst" "length pkt = 20 + length opts + length payload"
    "byte_from pkt (20 + length opts) = Some payload"
proof -
  let ?b = "0x40 OR of_nat (5 + length opts div 4) :: byte"
  let ?h = "[?b, tos] @ be_bytes 2 (unat tlen) @ be_bytes 2 (unat ident)" and ?r = "opts @ payload"
  let ?g = "?h @ be_bytes 2 (unat ff)"
  note pkt_def = pkt ipv4_packet_def
  show "byte_at pkt 0 = Some ?b" "length pkt = 20 + length opts + length payload"
    using assms(1,2) by (simp_all add: pkt_def)
  show "uint16_at pkt 2 = Some tlen"
    using uint16_at_be_bytes [of "[?b, tos]" 2 tlen "be_bytes 2 (unat ident) @ be_bytes 2 (unat ff) @
        [ttl, proto] @ be_bytes 2 (unat ck) @ src @ dst @ ?r"] by (simp add: pkt_def)
  show "uint16_at pkt 6 = Some ff"
    using uint16_at_be_bytes [of ?h 6 ff "[ttl, proto] @ be_bytes 2 (unat ck) @ src @ dst @ ?r"] by (simp add: pkt_def)
  show "byte_at pkt 9 = Some proto"
    using byte_at_append [of "?g @ [ttl]" 9 proto "be_bytes 2 (unat ck) @ src @ dst @ ?r"] by (simp add: pkt_def)
  show "byte_slice pkt 12 16 = Some src"
    using byte_slice_append [of "?g @ [ttl, proto] @ be_bytes 2 (unat ck)" 12 16 src "dst @ ?r"] assms(1)
    by (simp add: pkt_def)
  show "byte_slice pkt 16 20 = Some dst"
    using byte_slice_append [of "?g @ [ttl, proto] @ be_bytes 2 (unat ck) @ src" 16 20 dst ?r] assms(1,2)
    by (simp add: pkt_def)
  show "byte_from pkt (20 + length opts) = Some payload"
    using byte_from_append [of "?g @ [ttl, proto] @ be_bytes 2 (unat ck) @ src @ dst @ opts" "20 + length opts" payload]
      assms(1,2) by (simp add: pkt_def)
qed

lemma parseIPv4_packet:
  assumes "length src = 4" "length dst = 4" "length opts \<le> 40" "4 dvd length opts" "length payload \<ge> 4"
  shows "ParsePacket (ipv4_packet tos tlen ident ff ttl proto ck src dst opts payload) =
    (let flow = zero_Flow\<lparr>SrcIP := replicate 12 0 @ src, DstIP := replicate 12 0 @ dst, flow_Proto := proto\<rparr>
     in if ff AND 0x1FFF \<noteq> 0 then accept flow KindFragment else parseTransport flow proto payload)"
proof -
  define pkt where "pkt = ipv4_packet tos tlen ident ff ttl proto ck src dst opts payload"
  note F = ipv4_fields [OF assms(1,2) pkt_def]
  have n: "5 + length opts div 4 < 16" "(5 + length opts div 4) * 4 = 20 + length opts"
    using assms(3,4) by auto
  obtain b0 n where b0: "byte_at pkt 0 = Some b0" "drop_bit 4 b0 = 4" "unat (b0 AND 0x0F) = n"
    and n5: "\<not> n < 5" and n4: "n * 4 = 20 + length opts"
    using F(1) ihl_byte [OF n(1)] n(2) by (metis le_add1 not_less)
  have z: "put_bytes (replicate 16 0) 12 src = replicate 12 0 @ src"
    "put_bytes (replicate 16 0) 12 dst = replicate 12 0 @ dst"
    using assms(1,2) by (simp_all add: put_bytes_fits)
  have len: "\<not> length pkt < 20" "\<not> length pkt < n * 4" "\<not> length pkt < n * 4 + 4"
    using F(7) n4 assms(5) by auto
  show ?thesis
    unfolding pkt_def [symmetric] ParsePacket_def parseIPv4_def Let_def
    by (simp add: b0 n5 len F(2-6) F(8) [folded n4] z zero_Flow_def word_neq_0_conv [symmetric])
qed

definition tcp_kind :: "byte \<Rightarrow> Kind" where
  "tcp_kind flags = (if bit flags 1 \<and> \<not> bit flags 4 then KindStart
                     else if bit flags 0 \<or> bit flags 2 then KindEnd else KindOther)"

lemma flag_bits: "(flags :: byte) AND 1 \<noteq> 0 \<longleftrightarrow> bit flags 0" "flags AND 2 \<noteq> 0 \<longleftrightarrow> bit flags 1"
  "flags AND 4 \<noteq> 0 \<longleftrightarrow> bit flags 2" "flags AND 0x10 \<noteq> 0 \<longleftrightarrow> bit flags 4"
  using and_exp_eq_0_iff_not_bit [of flags 0] and_exp_eq_0_iff_not_bit [of flags 1]
    and_exp_eq_0_iff_not_bit [of flags 2] and_exp_eq_0_iff_not_bit [of flags 4]
  by simp_all

lemma parseTCP_segment:
  assumes "length sa = 8" "5 \<le> unat (drop_bit 4 doff)" "unat (drop_bit 4 doff) * 4 \<le> 14 + length rest"
  shows "parseTCP flow (tcp_segment sp dp sa doff flags rest) =
    Some (flow\<lparr>SrcPort := sp, DstPort := dp\<rparr>, tcp_kind flags, None)"
proof -
  let ?s = "tcp_segment sp dp sa doff flags rest"
  have "uint16_at ?s 0 = Some sp"
    using uint16_at_be_bytes [of "[]" 0 sp "be_bytes 2 (unat dp) @ sa @ [doff, flags] @ rest"] by (simp add: tcp_segment_def)
  moreover have "uint16_at ?s 2 = Some dp"
    using uint16_at_be_bytes [of "be_bytes 2 (unat sp)" 2 dp "sa @ [doff, flags] @ rest"] by (simp add: tcp_segment_def)
  moreover have "byte_at ?s 12 = Some doff"
    using byte_at_append [of "be_bytes 2 (unat sp) @ be_bytes 2 (unat dp) @ sa" 12 doff "flags # rest"] assms(1)
    by (simp add: tcp_segment_def)
  moreover have "byte_at ?s 13 = Some flags"
    using byte_at_append [of "be_bytes 2 (unat sp) @ be_bytes 2 (unat dp) @ sa @ [doff]" 13 flags rest] assms(1)
    by (simp add: tcp_segment_def)
  moreover have "length ?s = 14 + length rest" using assms(1) by (simp add: tcp_segment_def)
  moreover have "\<not> 14 + length rest < 20" "\<not> unat (drop_bit 4 doff) < 5"
    "\<not> 14 + length rest < unat (drop_bit 4 doff) * 4" using assms(2,3) by linarith+
  ultimately show ?thesis
    unfolding parseTCP_def tcp_kind_def Let_def accept_def flag_bits by simp
qed

text \<open>C27. The parser reads back what the headers say: for every IPv4 packet carrying TCP, with any options in
  both headers, it returns the packet's addresses in the last four bytes, its protocol and ports, and its kind:
  a start exactly for SYN without ACK, an end for FIN or RST, and a fragment, with ports zero, exactly when the
  fragment offset is not zero.\<close>

theorem ipv4_tcp_roundtrip:
  assumes "length src = 4" "length dst = 4" "length opts \<le> 40" "4 dvd length opts"
    and "length sa = 8" "5 \<le> unat (drop_bit 4 doff)" "unat (drop_bit 4 doff) * 4 \<le> 14 + length rest"
  shows "ParsePacket (ipv4_packet tos tlen ident ff ttl ProtoTCP ck src dst opts
      (tcp_segment sp dp sa doff flags rest)) =
    Some (if take_bit 13 ff \<noteq> 0
      then (\<lparr>SrcIP = replicate 12 0 @ src, DstIP = replicate 12 0 @ dst, SrcPort = 0, DstPort = 0,
             flow_Proto = ProtoTCP, IPv6 = False\<rparr>, KindFragment, None)
      else (\<lparr>SrcIP = replicate 12 0 @ src, DstIP = replicate 12 0 @ dst, SrcPort = sp, DstPort = dp,
             flow_Proto = ProtoTCP, IPv6 = False\<rparr>, tcp_kind flags, None))"
proof -
  have "length (tcp_segment sp dp sa doff flags rest) \<ge> 4" by (simp add: tcp_segment_def)
  moreover have "ff AND 0x1FFF = take_bit 13 ff" by (simp add: take_bit_eq_mask mask_eq_exp_minus_1)
  ultimately show ?thesis
    using parseIPv4_packet [OF assms(1-4)] parseTCP_segment [OF assms(5-7)]
    by (simp add: Let_def parseTransport_def accept_def zero_Flow_def)
qed

theorem ipv4_tcp_roundtrip_witness:
  "ParsePacket (ipv4_packet 0 44 1 0x4000 64 ProtoTCP 0 [10, 1, 0, 2] [10, 1, 0, 3] []
      (tcp_segment 40000 443 (replicate 8 0) 0x50 0x02 (replicate 6 0))) =
    Some (\<lparr>SrcIP = replicate 12 0 @ [10, 1, 0, 2], DstIP = replicate 12 0 @ [10, 1, 0, 3], SrcPort = 40000,
           DstPort = 443, flow_Proto = ProtoTCP, IPv6 = False\<rparr>, KindStart, None)"
  using ipv4_tcp_roundtrip [where src = "[10, 1, 0, 2]" and dst = "[10, 1, 0, 3]" and opts = "[]"
      and sa = "replicate 8 0" and doff = "0x50" and rest = "replicate 6 0" and tos = 0 and tlen = 44 and ident = 1
      and ff = "0x4000" and ttl = 64 and ck = 0 and sp = 40000 and dp = 443 and flags = 2]
  by (simp add: tcp_kind_def)

end
