(* ===== verification/Encoding.thy ===== *)
theory Encoding
  imports Veld_Prelude
begin

text \<open>
  Text encodings of the standard library the components share: hexadecimal (\<open>encoding/hex\<close>) and base64
  (\<open>encoding/base64\<close>, the standard alphabet with padding).
\<close>

fun hex_digit :: "char \<Rightarrow> nat option" where
  "hex_digit c = (let n = of_char c in
     if 48 \<le> n \<and> n \<le> 57 then Some (n - 48)
     else if 97 \<le> n \<and> n \<le> 102 then Some (n - 87)
     else if 65 \<le> n \<and> n \<le> 70 then Some (n - 55) else None)"

fun hex_DecodeString :: "string \<Rightarrow> bytes option" where
  "hex_DecodeString [] = Some []"
| "hex_DecodeString [c] = None"
| "hex_DecodeString (c # d # s) = do {
     h \<leftarrow> hex_digit c; l \<leftarrow> hex_digit d; r \<leftarrow> hex_DecodeString s;
     Some (of_nat (16 * h + l) # r) }"

definition b64_digit :: "char \<Rightarrow> nat option" where
  "b64_digit c = (let n = of_char c in
     if 65 \<le> n \<and> n \<le> 90 then Some (n - 65)
     else if 97 \<le> n \<and> n \<le> 122 then Some (n - 71)
     else if 48 \<le> n \<and> n \<le> 57 then Some (n + 4)
     else if c = CHR ''+'' then Some 62 else if c = CHR ''/'' then Some 63 else None)"

fun b64_quads :: "string \<Rightarrow> bytes option" where
  "b64_quads [] = Some []"
| "b64_quads (a # b # c # d # s) = do {
     w \<leftarrow> b64_digit a; x \<leftarrow> b64_digit b;
     if c = CHR ''='' then
       (if d = CHR ''='' \<and> s = [] then Some [of_nat (4 * w + x div 16)] else None)
     else do {
       y \<leftarrow> b64_digit c;
       if d = CHR ''='' then
         (if s = [] then Some [of_nat (4 * w + x div 16), of_nat ((x mod 16) * 16 + y div 4)] else None)
       else do {
         z \<leftarrow> b64_digit d; r \<leftarrow> b64_quads s;
         Some (of_nat (4 * w + x div 16) # of_nat ((x mod 16) * 16 + y div 4) # of_nat ((y mod 4) * 64 + z) # r)
       }
     } }"
| "b64_quads _ = None"

text \<open>\<open>base64.StdEncoding.DecodeString\<close>, which ignores carriage returns and newlines.\<close>

definition b64_DecodeString :: "string \<Rightarrow> bytes option" where
  "b64_DecodeString s = b64_quads (filter (\<lambda>c. c \<noteq> CHR 0x0A \<and> c \<noteq> CHR 0x0D) s)"

definition hex_char :: "nat \<Rightarrow> char" where
  "hex_char n = char_of (if n < 10 then 48 + n else 87 + n)"

fun hex_EncodeToString :: "bytes \<Rightarrow> string" where
  "hex_EncodeToString [] = []"
| "hex_EncodeToString (b # bs) = hex_char (unat b div 16) # hex_char (unat b mod 16) # hex_EncodeToString bs"

lemma hex_digit_char: "n < 16 \<Longrightarrow> hex_digit (hex_char n) = Some n"
  by (simp add: hex_char_def Let_def)

lemma hex_decode_encode [simp]: "hex_DecodeString (hex_EncodeToString bs) = Some bs"
proof (induction bs)
  case (Cons b bs)
  have "unat b < 256" using unat_bounds(1) [of b] .
  then have "hex_digit (hex_char (unat b div 16)) = Some (unat b div 16)" "hex_digit (hex_char (unat b mod 16)) = Some (unat b mod 16)"
    by (intro hex_digit_char; simp add: div_less_iff_less_mult)+
  moreover have "of_nat (16 * (unat b div 16) + unat b mod 16) = b" by (simp only: mult_div_mod_eq) simp
  ultimately show ?case using Cons.IH by (simp del: hex_digit.simps of_nat_add of_nat_mult)
qed simp

lemma hex_encode_inject [simp]: "hex_EncodeToString a = hex_EncodeToString b \<longleftrightarrow> a = b"
  by (metis hex_decode_encode option.inject)

lemma length_hex_encode [simp]: "length (hex_EncodeToString b) = 2 * length b"
  by (induction b) auto

end
