(* ===== verification/AclPolicy.thy ===== *)
theory AclPolicy
  imports AclPacket Encoding
begin

text \<open>
  Package internal/acl, policy.go, compile.go and loader.go: the policy file's validation, its
  compiled form, the decision on a connection, the combination and hot swap of policies, and the
  loader. The TOML decoder is third-party: validation starts from the decoded
  \<open>rawPolicy\<close>. A Go map is an association list in the order the iteration happens to take, so what is
  proved for every list holds for every order; sets of keys are HOL sets.

  Every error the source builds is a constructor here with the values the message shows.
\<close>

type_synonym PeerKey = bytes

section \<open>Text\<close>

fun split_on :: "char \<Rightarrow> string \<Rightarrow> string list" where
  "split_on c [] = [[]]"
| "split_on c (d # s) = (if d = c then [] # split_on c s
                         else case split_on c s of [] \<Rightarrow> [[d]] | w # ws \<Rightarrow> (d # w) # ws)"

definition is_digit :: "char \<Rightarrow> bool" where
  "is_digit c \<longleftrightarrow> 48 \<le> (of_char c :: nat) \<and> (of_char c :: nat) \<le> 57"

definition is_space :: "char \<Rightarrow> bool" where
  "is_space c \<longleftrightarrow> 9 \<le> (of_char c :: nat) \<and> (of_char c :: nat) \<le> 13 \<or> c = CHR '' ''"

definition dec_nat :: "string \<Rightarrow> nat" where
  "dec_nat s = foldl (\<lambda>n c. 10 * n + (of_char c - 48)) 0 s"

text \<open>\<open>fmt.Sscanf(s, "%d", &port)\<close> into a uint64: it skips blanks (a newline is an error), takes the
  longest run of digits, and leaves the rest of the input unread.\<close>

fun skip_space :: "string \<Rightarrow> string option" where
  "skip_space [] = Some []"
| "skip_space (c # s) = (if c = CHR 0x0A then None else if is_space c then skip_space s else Some (c # s))"

definition Sscanf_d :: "string \<Rightarrow> nat option" where
  "Sscanf_d s = do {
     t \<leftarrow> skip_space s;
     let ds = takeWhile is_digit t;
     if ds = [] \<or> dec_nat ds \<ge> 2 ^ 64 then None else Some (dec_nat ds)
   }"

section \<open>Ports\<close>

datatype portnum_error = BadNumber string | PortTooLarge nat

datatype port_error = PortFormat string | UnknownProtocol string | BadRange string
  | StartPort portnum_error | EndPort portnum_error | SinglePort portnum_error | StartAfterEnd u16 u16

record PortRange =
  pr_Proto :: Proto
  Start :: u16
  End :: u16
  matchICMPv6 :: bool

definition ContainsPort :: "PortRange \<Rightarrow> u16 \<Rightarrow> bool" where
  "ContainsPort pr port =
     (if pr_Proto pr \<noteq> ProtoAny \<and> pr_Proto pr \<noteq> ProtoICMP \<and> pr_Proto pr \<noteq> ProtoICMPv6
      then port \<ge> Start pr \<and> port \<le> End pr else True)"

definition MatchesProto :: "PortRange \<Rightarrow> Proto \<Rightarrow> bool" where
  "MatchesProto pr proto =
     (if pr_Proto pr = ProtoAny then True
      else if pr_Proto pr = proto then True
      else if matchICMPv6 pr \<and> (proto = ProtoICMP \<or> proto = ProtoICMPv6) then True
      else False)"

definition parsePort :: "string \<Rightarrow> portnum_error + u16" where
  "parsePort s = (case Sscanf_d s of
      None \<Rightarrow> Inl (BadNumber s)
    | Some port \<Rightarrow> if port > 65535 then Inl (PortTooLarge port) else Inr (of_nat port))"

text \<open>\<open>parse_span\<close> is the part of \<open>parsePortRange\<close> after the protocol: a port, or two joined by a dash.\<close>

definition parse_span :: "Proto \<Rightarrow> string \<Rightarrow> port_error + PortRange" where
  "parse_span proto portStr =
     (if CHR ''-'' \<in> set portStr then
        (case split_on (CHR ''-'') portStr of
           [a, b] \<Rightarrow>
             (case parsePort a of
                Inl err \<Rightarrow> Inl (StartPort err)
              | Inr start \<Rightarrow>
                  (case parsePort b of
                     Inl err \<Rightarrow> Inl (EndPort err)
                   | Inr end_ \<Rightarrow>
                       if start > end_ then Inl (StartAfterEnd start end_)
                       else Inr \<lparr>pr_Proto = proto, Start = start, End = end_, matchICMPv6 = False\<rparr>))
         | _ \<Rightarrow> Inl (BadRange portStr))
      else
        (case parsePort portStr of
           Inl err \<Rightarrow> Inl (SinglePort err)
         | Inr port \<Rightarrow> Inr \<lparr>pr_Proto = proto, Start = port, End = port, matchICMPv6 = False\<rparr>))"

definition any_port :: PortRange where
  "any_port = \<lparr>pr_Proto = ProtoAny, Start = 0, End = 65535, matchICMPv6 = False\<rparr>"

definition icmp_port :: PortRange where
  "icmp_port = \<lparr>pr_Proto = ProtoICMP, Start = 0, End = 65535, matchICMPv6 = True\<rparr>"

definition parsePortRange :: "string \<Rightarrow> port_error + PortRange" where
  "parsePortRange s =
     (if s = ''*'' then Inr any_port
      else if EqualFold s ''icmp'' then Inr icmp_port
      else
        (let parts = split_on (CHR ''/'') s
         in if length parts \<noteq> 2 then Inl (PortFormat s)
            else
              (let protoStr = ToLower (parts ! 0); portStr = parts ! 1
               in if protoStr = ''tcp'' then parse_span ProtoTCP portStr
                  else if protoStr = ''udp'' then parse_span ProtoUDP portStr
                  else if protoStr = ''icmp'' then Inr icmp_port
                  else Inl (UnknownProtocol protoStr))))"

section \<open>The policy and its validation\<close>

datatype DefaultAction = DefaultAllow | DefaultDeny

datatype subject_error = EmptyTag | UnknownTag string | UnknownPeer string

datatype key_error = NoKeyPrefix | KeyLength nat | BadKeyEncoding

datatype policy_error = BadVersion | NoDefault | InvalidDefault string | NoPeers | EmptyPeerName
  | DuplicatePeer string | BadPeerKey string key_error | EmptyTagName | DuplicateTag string | TagWithoutPeers string
  | TagUnknownPeer string string | RuleFromTo nat | RuleWithoutPorts nat | RuleFrom nat subject_error
  | RuleTo nat subject_error | RulePort nat string port_error | OutboundUnknownPeer string

record Rule =
  From :: string
  To :: string
  Ports :: "PortRange list"

record Policy =
  Version :: int
  Default :: DefaultAction
  Peers :: "(string \<times> PeerKey) list"
  Tags :: "(string \<times> string list) list"
  Rules :: "Rule list"
  OutboundOnly :: "string list"
  Warnings :: "(nat \<times> string \<times> string) list"

record rawRule =
  raw_From :: string
  raw_To :: string
  raw_Ports :: "string list"

record rawPolicy =
  raw_Version :: int
  raw_Default :: string
  raw_Peers :: "(string \<times> string) list"
  raw_Tags :: "(string \<times> string list) list"
  raw_Rules :: "rawRule list"
  raw_OutboundOnly :: "string list"

definition ParseDefaultAction :: "string \<Rightarrow> DefaultAction option" where
  "ParseDefaultAction s =
     (if ToLower s = ''allow'' then Some DefaultAllow
      else if ToLower s = ''deny'' then Some DefaultDeny else None)"

definition parsePeerKey :: "string \<Rightarrow> key_error + PeerKey" where
  "parsePeerKey s =
     (if \<not> HasPrefix s ''ed25519:'' then Inl NoKeyPrefix
      else (let encoded = drop (length ''ed25519:'') s
            in case hex_DecodeString encoded of
                 Some decoded \<Rightarrow> if length decoded \<noteq> 32 then Inl (KeyLength (length decoded)) else Inr decoded
               | None \<Rightarrow>
                   (case b64_DecodeString encoded of
                      Some decoded \<Rightarrow> if length decoded \<noteq> 32 then Inl (KeyLength (length decoded)) else Inr decoded
                    | None \<Rightarrow> Inl BadKeyEncoding)))"

definition validateSubject :: "string \<Rightarrow> (string \<times> PeerKey) list \<Rightarrow> (string \<times> string list) list \<Rightarrow> subject_error option" where
  "validateSubject subject peers tags =
     (if subject = ''*'' then None
      else if HasPrefix subject ''tag:'' then
        (let tagName = drop 4 subject
         in if tagName = [] then Some EmptyTag
            else if map_of tags tagName = None then Some (UnknownTag tagName) else None)
      else if map_of peers subject = None then Some (UnknownPeer subject) else None)"

fun validate_peers :: "(string \<times> string) list \<Rightarrow> (string \<times> PeerKey) list \<Rightarrow> policy_error + (string \<times> PeerKey) list" where
  "validate_peers [] peers = Inr peers"
| "validate_peers ((name, keyStr) # rest) peers =
     (if name = [] then Inl EmptyPeerName
      else if map_of peers name \<noteq> None then Inl (DuplicatePeer name)
      else case parsePeerKey keyStr of
        Inl err \<Rightarrow> Inl (BadPeerKey name err)
      | Inr key \<Rightarrow> validate_peers rest (peers @ [(name, key)]))"

fun unknown_name :: "string list \<Rightarrow> (string \<times> PeerKey) list \<Rightarrow> string option" where
  "unknown_name [] peers = None"
| "unknown_name (pn # pns) peers = (if map_of peers pn = None then Some pn else unknown_name pns peers)"

fun validate_tags :: "(string \<times> string list) list \<Rightarrow> (string \<times> PeerKey) list \<Rightarrow> (string \<times> string list) list \<Rightarrow>
    policy_error + (string \<times> string list) list" where
  "validate_tags [] peers tags = Inr tags"
| "validate_tags ((tagName, peerNames) # rest) peers tags =
     (if tagName = [] then Inl EmptyTagName
      else if map_of tags tagName \<noteq> None then Inl (DuplicateTag tagName)
      else if length peerNames = 0 then Inl (TagWithoutPeers tagName)
      else case unknown_name peerNames peers of
        Some pn \<Rightarrow> Inl (TagUnknownPeer tagName pn)
      | None \<Rightarrow> validate_tags rest peers (tags @ [(tagName, peerNames)]))"

fun parse_ports :: "nat \<Rightarrow> string list \<Rightarrow> PortRange list \<Rightarrow> policy_error + PortRange list" where
  "parse_ports i [] ports = Inr ports"
| "parse_ports i (portStr # rest) ports =
     (case parsePortRange portStr of
        Inl err \<Rightarrow> Inl (RulePort i portStr err)
      | Inr pr \<Rightarrow> parse_ports i rest (ports @ [pr]))"

fun validate_rules :: "nat \<Rightarrow> rawRule list \<Rightarrow> (string \<times> PeerKey) list \<Rightarrow> (string \<times> string list) list \<Rightarrow> Rule list \<Rightarrow>
    policy_error + Rule list" where
  "validate_rules i [] peers tags rules = Inr rules"
| "validate_rules i (rr # rest) peers tags rules =
     (if raw_From rr = [] \<or> raw_To rr = [] then Inl (RuleFromTo i)
      else if length (raw_Ports rr) = 0 then Inl (RuleWithoutPorts i)
      else case validateSubject (raw_From rr) peers tags of
        Some err \<Rightarrow> Inl (RuleFrom i err)
      | None \<Rightarrow>
          (case validateSubject (raw_To rr) peers tags of
             Some err \<Rightarrow> Inl (RuleTo i err)
           | None \<Rightarrow>
               (case parse_ports i (raw_Ports rr) [] of
                  Inl err \<Rightarrow> Inl err
                | Inr ports \<Rightarrow>
                    validate_rules (i + 1) rest peers tags
                      (rules @ [\<lparr>From = raw_From rr, To = raw_To rr, Ports = ports\<rparr>]))))"

definition resolve_names :: "string list \<Rightarrow> (string \<times> PeerKey) list \<Rightarrow> PeerKey set" where
  "resolve_names pns peers = set (List.map_filter (map_of peers) pns)"

definition tag_members :: "(string \<times> string list) list \<Rightarrow> string \<Rightarrow> string list" where
  "tag_members tags tagName = (case map_of tags tagName of None \<Rightarrow> [] | Some pns \<Rightarrow> pns)"

definition resolveSubject :: "string \<Rightarrow> (string \<times> PeerKey) list \<Rightarrow> (string \<times> string list) list \<Rightarrow> PeerKey set" where
  "resolveSubject subject peers tags =
     (if subject = ''*'' then set (map snd peers)
      else if HasPrefix subject ''tag:'' then resolve_names (tag_members tags (drop 4 subject)) peers
      else resolve_names [subject] peers)"

definition isUnmatchable :: "Rule \<Rightarrow> (string \<times> PeerKey) list \<Rightarrow> (string \<times> string list) list \<Rightarrow> bool" where
  "isUnmatchable rule peers tags =
     (let fromSet = resolveSubject (From rule) peers tags;
          toSet = resolveSubject (To rule) peers tags
      in if card fromSet = 1 \<and> card toSet = 1 \<and> fromSet \<inter> toSet \<noteq> {} then True
         else if card fromSet > 0 \<and> card toSet > 0 \<and> fromSet \<inter> toSet = {} then True
         else False)"

definition unmatchable_rules :: "Rule list \<Rightarrow> (string \<times> PeerKey) list \<Rightarrow> (string \<times> string list) list \<Rightarrow> (nat \<times> string \<times> string) list" where
  "unmatchable_rules rules peers tags =
     map (\<lambda>(i, rule). (i, From rule, To rule)) (filter (\<lambda>(i, rule). isUnmatchable rule peers tags) (enumerate 0 rules))"

definition validateAndCompile :: "rawPolicy \<Rightarrow> policy_error + Policy" where
  "validateAndCompile r =
     (if raw_Version r \<le> 0 then Inl BadVersion
      else if raw_Default r = [] then Inl NoDefault
      else case ParseDefaultAction (raw_Default r) of
        None \<Rightarrow> Inl (InvalidDefault (raw_Default r))
      | Some defaultAction \<Rightarrow>
          if length (raw_Peers r) = 0 then Inl NoPeers
          else case validate_peers (raw_Peers r) [] of
            Inl err \<Rightarrow> Inl err
          | Inr peers \<Rightarrow>
              (case validate_tags (raw_Tags r) peers [] of
                 Inl err \<Rightarrow> Inl err
               | Inr tags \<Rightarrow>
                   (case validate_rules 0 (raw_Rules r) peers tags [] of
                      Inl err \<Rightarrow> Inl err
                    | Inr rules \<Rightarrow>
                        (case unknown_name (raw_OutboundOnly r) peers of
                           Some name \<Rightarrow> Inl (OutboundUnknownPeer name)
                         | None \<Rightarrow>
                             Inr \<lparr>Version = raw_Version r, Default = defaultAction, Peers = peers, Tags = tags,
                                  Rules = rules, OutboundOnly = raw_OutboundOnly r,
                                  Warnings = unmatchable_rules rules peers tags\<rparr>))))"

section \<open>Compilation and decision\<close>

datatype Action = ActionAllow | ActionDeny

record Decision =
  dec_Action :: Action
  RuleIndex :: int
  dec_OutboundOnly :: bool

record compiledRule =
  srcPeers :: "PeerKey set"
  dstPeers :: "PeerKey set"
  srcAny :: bool
  dstAny :: bool
  ports :: "PortRange list"
  ruleIndex :: int

record CompiledPolicy =
  rules :: "compiledRule list"
  defaultAction :: Action
  outboundOnly :: "PeerKey set"
  knownPeers :: "PeerKey set"

definition resolveSubjectToPeers :: "string \<Rightarrow> (string \<times> PeerKey) list \<Rightarrow> (string \<times> string list) list \<Rightarrow> PeerKey set" where
  "resolveSubjectToPeers subject peers tags =
     (if subject = ''*'' then {}
      else if length subject \<ge> 4 \<and> take 4 subject = ''tag:''
      then resolve_names (tag_members tags (drop 4 subject)) peers
      else resolve_names [subject] peers)"

fun action_of :: "DefaultAction \<Rightarrow> Action" where
  "action_of DefaultAllow = ActionAllow"
| "action_of DefaultDeny = ActionDeny"

definition Compile :: "Policy \<Rightarrow> CompiledPolicy" where
  "Compile p =
     \<lparr>rules = map (\<lambda>(i, rule).
        \<lparr>srcPeers = resolveSubjectToPeers (From rule) (Peers p) (Tags p),
         dstPeers = resolveSubjectToPeers (To rule) (Peers p) (Tags p),
         srcAny = (From rule = ''*''), dstAny = (To rule = ''*''),
         ports = Ports rule, ruleIndex = int i\<rparr>) (enumerate 0 (Rules p)),
      defaultAction = action_of (Default p),
      outboundOnly = resolve_names (OutboundOnly p) (Peers p),
      knownPeers = set (map snd (Peers p))\<rparr>"

fun match_ports :: "PortRange list \<Rightarrow> Proto \<Rightarrow> u16 \<Rightarrow> bool" where
  "match_ports [] proto port = False"
| "match_ports (pr # prs) proto port =
     (if MatchesProto pr proto \<and> ContainsPort pr port then True else match_ports prs proto port)"

fun scan_rules :: "CompiledPolicy \<Rightarrow> compiledRule list \<Rightarrow> PeerKey \<Rightarrow> PeerKey \<Rightarrow> Proto \<Rightarrow> u16 \<Rightarrow> Decision option" where
  "scan_rules cp [] src dst proto port = None"
| "scan_rules cp (r # rs) src dst proto port =
     (if \<not> dstAny r \<and> dst \<notin> dstPeers r then scan_rules cp rs src dst proto port
      else if \<not> srcAny r \<and> src \<notin> srcPeers r then scan_rules cp rs src dst proto port
      else if match_ports (ports r) proto port then
        (if dst \<in> outboundOnly cp then Some \<lparr>dec_Action = ActionDeny, RuleIndex = -1, dec_OutboundOnly = True\<rparr>
         else Some \<lparr>dec_Action = ActionAllow, RuleIndex = ruleIndex r, dec_OutboundOnly = False\<rparr>)
      else scan_rules cp rs src dst proto port)"

definition Decide :: "CompiledPolicy \<Rightarrow> PeerKey \<Rightarrow> PeerKey \<Rightarrow> Proto \<Rightarrow> u16 \<Rightarrow> Decision" where
  "Decide cp src dst proto port =
     (case scan_rules cp (rules cp) src dst proto port of
        Some d \<Rightarrow> d
      | None \<Rightarrow>
          if dst \<notin> knownPeers cp then \<lparr>dec_Action = defaultAction cp, RuleIndex = -1, dec_OutboundOnly = False\<rparr>
          else if dst \<in> outboundOnly cp then \<lparr>dec_Action = ActionDeny, RuleIndex = -1, dec_OutboundOnly = True\<rparr>
          else \<lparr>dec_Action = defaultAction cp, RuleIndex = -1, dec_OutboundOnly = False\<rparr>)"

section \<open>Deciders: combination and hot swap\<close>

text \<open>A \<open>PolicySwap\<close> is an atomic pointer that several holders share, so a decider names it and the
  store of swaps (\<open>swaps\<close>) gives the policy it points at; nil is None.\<close>

datatype PolicyDecider = CompiledD CompiledPolicy | SwapD nat | CombinedD PolicyDecider PolicyDecider

type_synonym swaps = "nat \<Rightarrow> CompiledPolicy option"

definition Swap_Store :: "swaps \<Rightarrow> nat \<Rightarrow> CompiledPolicy option \<Rightarrow> swaps" where
  "Swap_Store sw ps cp = sw(ps := cp)"

definition Swap_Decide :: "swaps \<Rightarrow> nat \<Rightarrow> PeerKey \<Rightarrow> PeerKey \<Rightarrow> Proto \<Rightarrow> u16 \<Rightarrow> Decision" where
  "Swap_Decide sw ps src dst proto port = (case sw ps of
      None \<Rightarrow> \<lparr>dec_Action = ActionDeny, RuleIndex = -1, dec_OutboundOnly = False\<rparr>
    | Some cp \<Rightarrow> Decide cp src dst proto port)"

fun Decider_Decide :: "swaps \<Rightarrow> PolicyDecider \<Rightarrow> PeerKey \<Rightarrow> PeerKey \<Rightarrow> Proto \<Rightarrow> u16 \<Rightarrow> Decision" where
  "Decider_Decide sw (CompiledD cp) src dst proto port = Decide cp src dst proto port"
| "Decider_Decide sw (SwapD ps) src dst proto port = Swap_Decide sw ps src dst proto port"
| "Decider_Decide sw (CombinedD local network) src dst proto port =
     (let localDec = Decider_Decide sw local src dst proto port
      in if dec_Action localDec = ActionDeny then localDec
         else (let netDec = Decider_Decide sw network src dst proto port
               in if dec_Action netDec = ActionDeny then netDec
                  else if RuleIndex localDec \<ge> 0 then localDec else netDec))"

definition Combine :: "PolicyDecider option \<Rightarrow> PolicyDecider option \<Rightarrow> PolicyDecider option" where
  "Combine local network = (case local of
      None \<Rightarrow> network
    | Some l \<Rightarrow> (case network of None \<Rightarrow> local | Some n \<Rightarrow> Some (CombinedD l n)))"

section \<open>Drop counters\<close>

record DropCounters =
  byPeer :: "PeerKey \<Rightarrow> u64"
  byRule :: "int \<Rightarrow> u64"
  byOutboundOnly :: "PeerKey \<Rightarrow> u64"

definition NewDropCounters :: DropCounters where
  "NewDropCounters = \<lparr>byPeer = (\<lambda>_. 0), byRule = (\<lambda>_. 0), byOutboundOnly = (\<lambda>_. 0)\<rparr>"

definition IncrementPeer :: "DropCounters \<Rightarrow> PeerKey \<Rightarrow> DropCounters" where
  "IncrementPeer dc p = dc\<lparr>byPeer := (byPeer dc)(p := byPeer dc p + 1)\<rparr>"

definition IncrementRule :: "DropCounters \<Rightarrow> int \<Rightarrow> DropCounters" where
  "IncrementRule dc i = dc\<lparr>byRule := (byRule dc)(i := byRule dc i + 1)\<rparr>"

definition IncrementOutboundOnly :: "DropCounters \<Rightarrow> PeerKey \<Rightarrow> DropCounters" where
  "IncrementOutboundOnly dc p = dc\<lparr>byOutboundOnly := (byOutboundOnly dc)(p := byOutboundOnly dc p + 1)\<rparr>"

section \<open>The loader\<close>

text \<open>What the operating system and the TOML decoder answer for the policy file: no file, another stat
  error, or a file with its mode, owner, modification time and, if it can be read, what decoding it gives.\<close>

datatype toml_result = TomlError | Undecoded "string list" | Decoded rawPolicy

record file_info =
  Mode :: u32
  Uid :: u32
  ModTime :: gotime
  Contents :: "toml_result option"

datatype file_stat = NotExist | StatFails | Present file_info

datatype goos = Windows | Linux | OtherOS

datatype load_error = StatError | Writable | NotOwned | ReadError | ParseError | UnknownFields "string list"
  | Invalid policy_error

definition ParsePolicy :: "toml_result \<Rightarrow> load_error + Policy" where
  "ParsePolicy t = (case t of
      TomlError \<Rightarrow> Inl ParseError
    | Undecoded ks \<Rightarrow> Inl (UnknownFields ks)
    | Decoded raw \<Rightarrow> (case validateAndCompile raw of Inl err \<Rightarrow> Inl (Invalid err) | Inr p \<Rightarrow> Inr p))"

definition checkRootOrCurrentOwnership :: "u32 \<Rightarrow> file_info \<Rightarrow> load_error option" where
  "checkRootOrCurrentOwnership euid info = (if Uid info \<noteq> 0 \<and> Uid info \<noteq> euid then Some NotOwned else None)"

text \<open>The octal mode bits 022 (group and world write) are 0x12.\<close>

definition validatePolicyFilePermissions :: "goos \<Rightarrow> u32 \<Rightarrow> file_info \<Rightarrow> load_error option" where
  "validatePolicyFilePermissions os euid info =
     (if os = Windows then None
      else if Mode info AND 0x12 \<noteq> 0 then Some Writable
      else if os = Linux then checkRootOrCurrentOwnership euid info
      else None)"

record LocalPolicyLoader =
  l_swap :: nat
  l_network :: "PolicyDecider option"
  lastModTime :: gotime
  lastErrorLog :: gotime

definition Load :: "goos \<Rightarrow> u32 \<Rightarrow> file_stat \<Rightarrow> LocalPolicyLoader \<Rightarrow> swaps \<Rightarrow> load_error option \<times> LocalPolicyLoader \<times> swaps" where
  "Load os euid fs l sw = (case fs of
      NotExist \<Rightarrow> (None, l, Swap_Store sw (l_swap l) None)
    | StatFails \<Rightarrow> (Some StatError, l, sw)
    | Present info \<Rightarrow>
        (case validatePolicyFilePermissions os euid info of
           Some err \<Rightarrow> (Some err, l, sw)
         | None \<Rightarrow>
             (case Contents info of
                None \<Rightarrow> (Some ReadError, l, sw)
              | Some t \<Rightarrow>
                  (case ParsePolicy t of
                     Inl err \<Rightarrow> (Some err, l, sw)
                   | Inr p \<Rightarrow> (None, l\<lparr>lastModTime := ModTime info\<rparr>, Swap_Store sw (l_swap l) (Some (Compile p)))))))"

definition logError :: "gotime \<Rightarrow> LocalPolicyLoader \<Rightarrow> LocalPolicyLoader \<times> bool" where
  "logError now l = (if now - lastErrorLog l < 30 * second then (l, False) else (l\<lparr>lastErrorLog := now\<rparr>, True))"

text \<open>One event of the file watcher: \<open>ours\<close> says that the event names the policy file, \<open>relevant\<close> that it is a
  write, create, rename or remove; \<open>now\<close> and \<open>now'\<close> are the times read by the debounce and by \<open>logError\<close>.\<close>

definition watch_event :: "goos \<Rightarrow> u32 \<Rightarrow> file_stat \<Rightarrow> bool \<Rightarrow> bool \<Rightarrow> gotime \<Rightarrow> gotime \<Rightarrow> LocalPolicyLoader \<Rightarrow> swaps \<Rightarrow>
    LocalPolicyLoader \<times> swaps" where
  "watch_event os euid fs ours relevant now now' l sw =
     (if \<not> ours then (l, sw)
      else if \<not> relevant then (l, sw)
      else if now - lastModTime l < 100000000 then (l, sw)
      else (case Load os euid fs (l\<lparr>lastModTime := now\<rparr>) sw of
              (Some err, l', sw') \<Rightarrow> (fst (logError now' l'), sw')
            | (None, l', sw') \<Rightarrow> (l', sw')))"

definition Reload :: "goos \<Rightarrow> u32 \<Rightarrow> file_stat \<Rightarrow> gotime \<Rightarrow> LocalPolicyLoader \<Rightarrow> swaps \<Rightarrow> load_error option \<times> LocalPolicyLoader \<times> swaps" where
  "Reload os euid fs now l sw = (case Load os euid fs l sw of
      (Some err, l', sw') \<Rightarrow> (Some err, fst (logError now l'), sw')
    | (None, l', sw') \<Rightarrow> (None, l', sw'))"

definition CombinedPolicy :: "LocalPolicyLoader \<Rightarrow> PolicyDecider option" where
  "CombinedPolicy l = Combine (Some (SwapD (l_swap l))) (l_network l)"

definition SetNetworkPolicy :: "LocalPolicyLoader \<Rightarrow> PolicyDecider option \<Rightarrow> LocalPolicyLoader" where
  "SetNetworkPolicy l network = l\<lparr>l_network := network\<rparr>"

section \<open>What a compiled policy decides\<close>

text \<open>The meaning of a policy, on its source form: which peers a subject covers, and whether a rule
  grants a connection.\<close>

definition covers :: "Policy \<Rightarrow> string \<Rightarrow> PeerKey \<Rightarrow> bool" where
  "covers p subject k \<longleftrightarrow> subject = ''*'' \<or>
     (\<exists>name. map_of (Peers p) name = Some k \<and>
        (if HasPrefix subject ''tag:'' then \<exists>pns. map_of (Tags p) (drop 4 subject) = Some pns \<and> name \<in> set pns
         else name = subject))"

definition grants :: "Policy \<Rightarrow> Rule \<Rightarrow> PeerKey \<Rightarrow> PeerKey \<Rightarrow> Proto \<Rightarrow> u16 \<Rightarrow> bool" where
  "grants p rule src dst proto port \<longleftrightarrow> covers p (From rule) src \<and> covers p (To rule) dst \<and>
     (\<exists>pr \<in> set (Ports rule). MatchesProto pr proto \<and> ContainsPort pr port)"

definition policy_verdict :: "Policy \<Rightarrow> PeerKey \<Rightarrow> PeerKey \<Rightarrow> Proto \<Rightarrow> u16 \<Rightarrow> Decision" where
  "policy_verdict p src dst proto port =
     (if \<exists>name \<in> set (OutboundOnly p). map_of (Peers p) name = Some dst
      then \<lparr>dec_Action = ActionDeny, RuleIndex = -1, dec_OutboundOnly = True\<rparr>
      else case find (\<lambda>ir. grants p (snd ir) src dst proto port) (enumerate 0 (Rules p)) of
             Some (i, rule) \<Rightarrow> \<lparr>dec_Action = ActionAllow, RuleIndex = int i, dec_OutboundOnly = False\<rparr>
           | None \<Rightarrow> \<lparr>dec_Action = action_of (Default p), RuleIndex = -1, dec_OutboundOnly = False\<rparr>)"

lemma resolve_names_iff: "k \<in> resolve_names pns peers \<longleftrightarrow> (\<exists>name \<in> set pns. map_of peers name = Some k)"
  by (simp add: resolve_names_def mem_map_filter)

lemma tag_prefix: "HasPrefix s ''tag:'' \<longleftrightarrow> length s \<ge> 4 \<and> take 4 s = ''tag:''"
proof -
  have "length s \<ge> 4" if "take 4 s = ''tag:''"
    using arg_cong [OF that, of length] by simp
  moreover have "length ''tag:'' = 4" by simp
  ultimately show ?thesis unfolding HasPrefix_def by metis
qed

lemma covers_compiled:
  "covers p subject k \<longleftrightarrow> subject = ''*'' \<or> k \<in> resolveSubjectToPeers subject (Peers p) (Tags p)"
proof (cases "map_of (Tags p) (drop 4 subject)")
  case None
  then show ?thesis
    by (auto simp: covers_def resolveSubjectToPeers_def resolve_names_iff tag_members_def tag_prefix [symmetric])
next
  case (Some pns)
  then show ?thesis
    by (auto simp: covers_def resolveSubjectToPeers_def resolve_names_iff tag_members_def tag_prefix [symmetric])
qed

lemma match_ports_iff: "match_ports prs proto port \<longleftrightarrow> (\<exists>pr \<in> set prs. MatchesProto pr proto \<and> ContainsPort pr port)"
  by (induction prs) auto

definition compile_rule :: "Policy \<Rightarrow> nat \<times> Rule \<Rightarrow> compiledRule" where
  "compile_rule p = (\<lambda>(i, rule).
     \<lparr>srcPeers = resolveSubjectToPeers (From rule) (Peers p) (Tags p),
      dstPeers = resolveSubjectToPeers (To rule) (Peers p) (Tags p),
      srcAny = (From rule = ''*''), dstAny = (To rule = ''*''),
      ports = Ports rule, ruleIndex = int i\<rparr>)"

lemma scan_compiled:
  "scan_rules cp (compile_rule p (i, rule) # rs) src dst proto port =
     (if grants p rule src dst proto port
      then Some (if dst \<in> outboundOnly cp then \<lparr>dec_Action = ActionDeny, RuleIndex = -1, dec_OutboundOnly = True\<rparr>
                 else \<lparr>dec_Action = ActionAllow, RuleIndex = int i, dec_OutboundOnly = False\<rparr>)
      else scan_rules cp rs src dst proto port)"
  unfolding grants_def covers_compiled match_ports_iff [symmetric] by (simp add: compile_rule_def)

lemma scan_find:
  "scan_rules cp (map (compile_rule p) irs) src dst proto port =
     (case find (\<lambda>ir. grants p (snd ir) src dst proto port) irs of
        None \<Rightarrow> None
      | Some (i, rule) \<Rightarrow>
          Some (if dst \<in> outboundOnly cp then \<lparr>dec_Action = ActionDeny, RuleIndex = -1, dec_OutboundOnly = True\<rparr>
                else \<lparr>dec_Action = ActionAllow, RuleIndex = int i, dec_OutboundOnly = False\<rparr>))"
proof (induction irs)
  case (Cons ir irs)
  obtain i rule where "ir = (i, rule)" by (cases ir)
  with Cons show ?case by (simp add: scan_compiled del: scan_rules.simps(2))
qed simp

lemma Compile_rules: "rules (Compile p) = map (compile_rule p) (enumerate 0 (Rules p))"
  by (simp add: Compile_def compile_rule_def)

text \<open>C6. The compiled policy decides what the policy says: a connection to an outbound-only peer is refused;
  otherwise it is allowed, under the index of the first rule in file order that grants it, if some rule covers
  its source, destination, protocol and port; otherwise the default applies. So compiling names and tags to
  key sets loses nothing, for known and unknown peers alike.\<close>

theorem Compile_decides_policy: "Decide (Compile p) src dst proto port = policy_verdict p src dst proto port"
proof -
  have oo: "dst \<in> outboundOnly (Compile p) \<longleftrightarrow> (\<exists>name \<in> set (OutboundOnly p). map_of (Peers p) name = Some dst)"
    by (simp add: Compile_def resolve_names_iff)
  have known: "dst \<in> knownPeers (Compile p)" if "dst \<in> outboundOnly (Compile p)"
    using that unfolding oo by (force simp: Compile_def dest: map_of_SomeD)
  have "defaultAction (Compile p) = action_of (Default p)" by (simp add: Compile_def)
  then show ?thesis
    unfolding Decide_def Compile_rules scan_find policy_verdict_def oo [symmetric]
    using known by (auto split: option.splits)
qed

section \<open>What validation guarantees\<close>

definition subject_ok :: "(string \<times> PeerKey) list \<Rightarrow> (string \<times> string list) list \<Rightarrow> string \<Rightarrow> bool" where
  "subject_ok peers tags subject \<longleftrightarrow> subject = ''*'' \<or>
     (if HasPrefix subject ''tag:'' then drop 4 subject \<in> fst ` set tags else subject \<in> fst ` set peers)"

definition peers_ok :: "(string \<times> PeerKey) list \<Rightarrow> bool" where
  "peers_ok peers \<longleftrightarrow> distinct (map fst peers) \<and> (\<forall>(n, k) \<in> set peers. n \<noteq> [] \<and> length k = 32)"

definition tags_ok :: "(string \<times> PeerKey) list \<Rightarrow> (string \<times> string list) list \<Rightarrow> bool" where
  "tags_ok peers tags \<longleftrightarrow> distinct (map fst tags) \<and>
     (\<forall>(t, pns) \<in> set tags. t \<noteq> [] \<and> pns \<noteq> [] \<and> set pns \<subseteq> fst ` set peers)"

definition rule_ok :: "(string \<times> PeerKey) list \<Rightarrow> (string \<times> string list) list \<Rightarrow> Rule \<Rightarrow> bool" where
  "rule_ok peers tags rule \<longleftrightarrow> subject_ok peers tags (From rule) \<and> subject_ok peers tags (To rule) \<and>
     Ports rule \<noteq> [] \<and> (\<forall>pr \<in> set (Ports rule). Start pr \<le> End pr)"

definition policy_ok :: "Policy \<Rightarrow> bool" where
  "policy_ok p \<longleftrightarrow> Version p > 0 \<and> Peers p \<noteq> [] \<and> peers_ok (Peers p) \<and> tags_ok (Peers p) (Tags p) \<and>
     list_all (rule_ok (Peers p) (Tags p)) (Rules p) \<and> set (OutboundOnly p) \<subseteq> fst ` set (Peers p)"

lemma parsePeerKey_length: "parsePeerKey s = Inr k \<Longrightarrow> length k = 32"
  by (auto simp: parsePeerKey_def Let_def split: option.splits if_splits)

lemma parse_span_ordered: "parse_span proto s = Inr pr \<Longrightarrow> Start pr \<le> End pr"
  by (auto simp: parse_span_def split: if_splits list.splits sum.splits)

lemma parsePortRange_ordered:
  assumes "parsePortRange s = Inr pr"
  shows "Start pr \<le> End pr"
proof -
  have "pr = any_port \<or> pr = icmp_port \<or> (\<exists>proto t. parse_span proto t = Inr pr)"
    using assms unfolding parsePortRange_def Let_def by (simp split: if_splits) blast+
  then show ?thesis using parse_span_ordered by (auto simp: any_port_def icmp_port_def)
qed

lemma map_of_None_fst: "map_of xs k = None \<longleftrightarrow> k \<notin> fst ` set xs"
  by (simp add: map_of_eq_None_iff)

lemma validate_peers_ok:
  "validate_peers raw acc = Inr peers \<Longrightarrow> peers_ok acc \<Longrightarrow> peers_ok peers \<and> length peers = length acc + length raw"
proof (induction raw arbitrary: acc)
  case (Cons x raw)
  obtain name keyStr where x: "x = (name, keyStr)" by (cases x)
  with Cons.prems obtain key where key: "parsePeerKey keyStr = Inr key" and new: "name \<noteq> []" "name \<notin> fst ` set acc"
    and rest: "validate_peers raw (acc @ [(name, key)]) = Inr peers"
    by (auto simp: map_of_None_fst split: if_splits sum.splits)
  have "peers_ok (acc @ [(name, key)])"
    using Cons.prems(2) new parsePeerKey_length [OF key] by (auto simp: peers_ok_def)
  from Cons.IH [OF rest this] show ?case by simp
qed simp

lemma unknown_name_None: "unknown_name pns peers = None \<longleftrightarrow> set pns \<subseteq> fst ` set peers"
  by (induction pns) (auto simp: map_of_None_fst)

lemma validate_tags_ok:
  "validate_tags raw peers acc = Inr tags \<Longrightarrow> tags_ok peers acc \<Longrightarrow> tags_ok peers tags"
proof (induction raw arbitrary: acc)
  case (Cons x raw)
  obtain t pns where x: "x = (t, pns)" by (cases x)
  with Cons.prems have new: "t \<noteq> []" "t \<notin> fst ` set acc" "pns \<noteq> []" "set pns \<subseteq> fst ` set peers"
    and rest: "validate_tags raw peers (acc @ [(t, pns)]) = Inr tags"
    by (auto simp: map_of_None_fst unknown_name_None [symmetric] split: if_splits option.splits)
  have "tags_ok peers (acc @ [(t, pns)])"
    using Cons.prems(2) new by (auto simp: tags_ok_def)
  from Cons.IH [OF rest this] show ?case .
qed simp

lemma parse_ports_ok:
  "parse_ports i raw acc = Inr prs \<Longrightarrow> \<forall>pr \<in> set acc. Start pr \<le> End pr \<Longrightarrow>
     (\<forall>pr \<in> set prs. Start pr \<le> End pr) \<and> length prs = length acc + length raw"
proof (induction raw arbitrary: acc)
  case (Cons x raw)
  from Cons.prems(1) obtain pr where pr: "parsePortRange x = Inr pr" "parse_ports i raw (acc @ [pr]) = Inr prs"
    by (auto split: sum.splits)
  have "\<forall>q \<in> set (acc @ [pr]). Start q \<le> End q"
    using Cons.prems(2) parsePortRange_ordered [OF pr(1)] by simp
  from Cons.IH [OF pr(2) this] show ?case by simp
qed simp

lemma validateSubject_ok: "validateSubject subject peers tags = None \<longleftrightarrow>
    subject_ok peers tags subject \<and> (HasPrefix subject ''tag:'' \<longrightarrow> drop 4 subject \<noteq> [])"
  by (auto simp: validateSubject_def subject_ok_def Let_def map_of_None_fst HasPrefix_def)

lemma validate_rules_ok:
  "validate_rules i raw peers tags acc = Inr rs \<Longrightarrow> list_all (rule_ok peers tags) acc \<Longrightarrow>
     list_all (rule_ok peers tags) rs \<and> length rs = length acc + length raw"
proof (induction raw arbitrary: i acc)
  case (Cons rr raw)
  from Cons.prems(1) obtain prs where subj: "validateSubject (raw_From rr) peers tags = None" "validateSubject (raw_To rr) peers tags = None"
    and P: "raw_Ports rr \<noteq> []" "parse_ports i (raw_Ports rr) [] = Inr prs"
    and rest: "validate_rules (i + 1) raw peers tags (acc @ [\<lparr>From = raw_From rr, To = raw_To rr, Ports = prs\<rparr>]) = Inr rs"
    by (auto split: if_splits option.splits sum.splits)
  have "rule_ok peers tags \<lparr>From = raw_From rr, To = raw_To rr, Ports = prs\<rparr>"
    using subj parse_ports_ok [OF P(2)] P(1) by (auto simp: rule_ok_def validateSubject_ok)
  with Cons.IH [OF rest] Cons.prems(2) show ?case by simp
qed simp

lemma subject_resolves:
  assumes "policy_ok p" "subject_ok (Peers p) (Tags p) subject" "subject \<noteq> ''*''"
  shows "resolveSubjectToPeers subject (Peers p) (Tags p) \<noteq> {}"
proof -
  have "\<exists>name k. map_of (Peers p) name = Some k \<and> (if HasPrefix subject ''tag:''
      then \<exists>pns. map_of (Tags p) (drop 4 subject) = Some pns \<and> name \<in> set pns else name = subject)"
  proof (cases "HasPrefix subject ''tag:''")
    case True
    then have "map_of (Tags p) (drop 4 subject) \<noteq> None"
      using assms(2,3) unfolding map_of_None_fst subject_ok_def by simp
    then obtain pns where pns: "map_of (Tags p) (drop 4 subject) = Some pns" by blast
    then have "(drop 4 subject, pns) \<in> set (Tags p)" by (rule map_of_SomeD)
    then have "pns \<noteq> []" "set pns \<subseteq> fst ` set (Peers p)"
      using assms(1) by (auto simp: policy_ok_def tags_ok_def)
    then obtain name where "name \<in> set pns" "map_of (Peers p) name \<noteq> None"
      unfolding map_of_None_fst by (cases pns) auto
    with pns True show ?thesis by auto
  next
    case False
    then have "map_of (Peers p) subject \<noteq> None"
      using assms(2,3) unfolding map_of_None_fst subject_ok_def by simp
    with False show ?thesis by auto
  qed
  then have "\<exists>k. covers p subject k" unfolding covers_def by blast
  then show ?thesis using assms(3) unfolding covers_compiled by blast
qed

lemma validateAndCompile_ok:
  assumes "validateAndCompile r = Inr p"
  shows "policy_ok p" "length (Rules p) = length (raw_Rules r)"
proof -
  from assms obtain d peers tags rs where V: "raw_Version r > 0" "raw_Peers r \<noteq> []"
    and P: "validate_peers (raw_Peers r) [] = Inr peers" and T: "validate_tags (raw_Tags r) peers [] = Inr tags"
    and R: "validate_rules 0 (raw_Rules r) peers tags [] = Inr rs" and O: "unknown_name (raw_OutboundOnly r) peers = None"
    and p: "p = \<lparr>Version = raw_Version r, Default = d, Peers = peers, Tags = tags, Rules = rs,
        OutboundOnly = raw_OutboundOnly r, Warnings = unmatchable_rules rs peers tags\<rparr>"
    by (auto simp: validateAndCompile_def split: if_splits option.splits sum.splits)
  have "peers_ok peers" "length peers = length (raw_Peers r)"
    using validate_peers_ok [OF P] by (simp_all add: peers_ok_def)
  moreover have "tags_ok peers tags" using validate_tags_ok [OF T] by (simp add: tags_ok_def)
  moreover have rs: "list_all (rule_ok peers tags) rs" "length rs = length (raw_Rules r)"
    using validate_rules_ok [OF R] by simp_all
  ultimately show "policy_ok p"
    using V O unfolding policy_ok_def p unknown_name_None by auto
  show "length (Rules p) = length (raw_Rules r)" using rs by (simp add: p)
qed

text \<open>C23. A policy that passes validation has no loose ends: names are distinct and non-empty, keys have 32
  bytes, tags, rules and the outbound-only list name only peers and tags that exist, port ranges are in order,
  no rule was lost, and every compiled rule applies to at least one source and one destination.\<close>

theorem accepted_policy_resolves:
  assumes "validateAndCompile r = Inr p"
  shows "policy_ok p \<and> length (rules (Compile p)) = length (raw_Rules r) \<and>
    (\<forall>cr \<in> set (rules (Compile p)). (srcAny cr \<or> srcPeers cr \<noteq> {}) \<and> (dstAny cr \<or> dstPeers cr \<noteq> {}))"
proof -
  note ok = validateAndCompile_ok [OF assms]
  have "(srcAny cr \<or> srcPeers cr \<noteq> {}) \<and> (dstAny cr \<or> dstPeers cr \<noteq> {})" if cr: "cr \<in> set (rules (Compile p))" for cr
  proof -
    obtain i rule where "cr = compile_rule p (i, rule)" "rule \<in> set (Rules p)"
      using cr unfolding Compile_rules by (force simp: in_set_enumerate_eq)
    moreover from this have "subject_ok (Peers p) (Tags p) (From rule)" "subject_ok (Peers p) (Tags p) (To rule)"
      using ok(1) by (auto simp: policy_ok_def list_all_iff rule_ok_def)
    ultimately show ?thesis using subject_resolves [OF ok(1)] by (auto simp: compile_rule_def)
  qed
  with ok show ?thesis by (simp add: Compile_rules)
qed

section \<open>Port ranges and their text\<close>

text \<open>The decimal text of a number, and the text of a TCP or UDP range.\<close>

fun dec_str :: "nat \<Rightarrow> string" where
  "dec_str n = (if n < 10 then [char_of (48 + n)] else dec_str (n div 10) @ [char_of (48 + n mod 10)])"

declare dec_str.simps [simp del]

definition print_range :: "PortRange \<Rightarrow> string" where
  "print_range pr = (if pr_Proto pr = ProtoTCP then ''tcp/'' else ''udp/'') @
     dec_str (unat (Start pr)) @ ''-'' @ dec_str (unat (End pr))"

lemma of_char_digit: "n < 10 \<Longrightarrow> of_char (char_of (48 + n)) = (48 + n :: nat)"
  by simp

lemma dec_str_digits: "c \<in> set (dec_str n) \<Longrightarrow> is_digit c"
proof (induction n rule: dec_str.induct)
  case (1 n)
  then show ?case
    by (subst (asm) dec_str.simps) (auto simp: is_digit_def split: if_splits)
qed

lemma dec_str_neq_Nil [simp]: "dec_str n \<noteq> []"
  by (subst dec_str.simps) simp

lemma dec_nat_dec_str: "dec_nat (dec_str n) = n"
proof (induction n rule: dec_str.induct)
  case (1 n)
  then show ?case
    by (subst dec_str.simps) (auto simp: dec_nat_def)
qed

lemma digit_facts: "is_digit c \<Longrightarrow> \<not> is_space c \<and> c \<noteq> CHR 0x0A \<and> c \<noteq> CHR ''-'' \<and> c \<noteq> CHR ''/''"
  by (auto simp: is_digit_def is_space_def)

text \<open>The scanner stops at the first character that is not a digit.\<close>

lemma Sscanf_dec_str:
  assumes "n < 2 ^ 64" "rest = [] \<or> \<not> is_digit (hd rest)"
  shows "Sscanf_d (dec_str n @ rest) = Some n"
proof -
  obtain c s where cs: "dec_str n = c # s" by (cases "dec_str n") auto
  have "is_digit c" using dec_str_digits [of c n] cs by simp
  then have "skip_space (dec_str n @ rest) = Some (dec_str n @ rest)"
    using digit_facts [of c] by (simp add: cs)
  moreover have "takeWhile is_digit (dec_str n @ rest) = dec_str n"
    using dec_str_digits assms(2) by (cases rest) (auto simp: takeWhile_append)
  ultimately show ?thesis using assms(1) by (simp add: Sscanf_d_def dec_nat_dec_str)
qed

lemma parsePort_dec_str:
  "rest = [] \<or> \<not> is_digit (hd rest) \<Longrightarrow> parsePort (dec_str (unat (port :: u16)) @ rest) = Inr port"
  using unat_bounds(2) [of port] Sscanf_dec_str [of "unat port" rest] by (simp add: parsePort_def)

lemma split_on_absent: "c \<notin> set s \<Longrightarrow> split_on c s = [s]"
  by (induction s) auto

lemma split_on_first: "c \<notin> set s \<Longrightarrow> split_on c (s @ c # t) = s # split_on c t"
  by (induction s) auto

text \<open>A policy for the examples: two peers, a tag, and a rule between them.\<close>

definition example_key :: "byte \<Rightarrow> PeerKey" where
  "example_key b = replicate 32 b"

definition example_raw :: rawPolicy where
  "example_raw = \<lparr>raw_Version = 1, raw_Default = ''deny'',
     raw_Peers = [(''ada'', ''ed25519:'' @ concat (replicate 32 ''11'')), (''bob'', ''ed25519:'' @ concat (replicate 32 ''22''))],
     raw_Tags = [(''web'', [''bob''])],
     raw_Rules = [\<lparr>raw_From = ''ada'', raw_To = ''tag:web'', raw_Ports = [''tcp/80-443'', ''icmp'']\<rparr>],
     raw_OutboundOnly = []\<rparr>"

definition example_policy :: Policy where
  "example_policy = \<lparr>Version = 1, Default = DefaultDeny,
     Peers = [(''ada'', example_key 0x11), (''bob'', example_key 0x22)], Tags = [(''web'', [''bob''])],
     Rules = [\<lparr>From = ''ada'', To = ''tag:web'', Ports =
        [\<lparr>pr_Proto = ProtoTCP, Start = 80, End = 443, matchICMPv6 = False\<rparr>, icmp_port]\<rparr>],
     OutboundOnly = [], Warnings = [(0, ''ada'', ''tag:web'')]\<rparr>"

lemma hex_decode_repeat:
  "hex_digit c = Some d \<Longrightarrow> hex_DecodeString (concat (replicate n [c, c])) = Some (replicate n (of_nat (16 * d + d)))"
  by (induction n) (simp_all del: hex_digit.simps)

lemma example_keys:
  "parsePeerKey (''ed25519:'' @ concat (replicate 32 ''11'')) = Inr (example_key 0x11)"
  "parsePeerKey (''ed25519:'' @ concat (replicate 32 ''22'')) = Inr (example_key 0x22)"
  using hex_decode_repeat [of "CHR ''1''" 1 32] hex_decode_repeat [of "CHR ''2''" 2 32]
  by (simp_all add: parsePeerKey_def HasPrefix_def example_key_def)

lemma example_ports: "parsePortRange ''tcp/80-443'' = Inr \<lparr>pr_Proto = ProtoTCP, Start = 80, End = 443, matchICMPv6 = False\<rparr>"
  "parsePortRange ''icmp'' = Inr icmp_port"
  by (simp_all add: parsePortRange_def parse_span_def parsePort_def Sscanf_d_def is_digit_def is_space_def
      dec_nat_def EqualFold_def ToLower_def lower_char_def char_of_def bit_0 Let_def)

lemma example_valid: "validateAndCompile example_raw = Inr example_policy"
proof -
  have "resolveSubject ''ada'' (Peers example_policy) (Tags example_policy) = {example_key 0x11}"
    "resolveSubject ''tag:web'' (Peers example_policy) (Tags example_policy) = {example_key 0x22}"
    by (simp_all add: resolveSubject_def resolve_names_def example_policy_def HasPrefix_def tag_members_def
        List.map_filter_simps)
  moreover have "example_key 0x11 \<noteq> example_key 0x22" by (simp add: example_key_def)
  ultimately have "unmatchable_rules (Rules example_policy) (Peers example_policy) (Tags example_policy) = [(0, ''ada'', ''tag:web'')]"
    by (simp add: unmatchable_rules_def isUnmatchable_def example_policy_def)
  then show ?thesis
    by (simp add: validateAndCompile_def example_raw_def example_policy_def
        example_keys [unfolded append_Cons append_Nil] example_ports
        ParseDefaultAction_def ToLower_def lower_char_def validateSubject_def HasPrefix_def)
qed

theorem accepted_policy_resolves_witness:
  "validateAndCompile example_raw = Inr example_policy \<and> policy_ok example_policy \<and>
   length (rules (Compile example_policy)) = 1"
  using accepted_policy_resolves [OF example_valid] example_valid by (simp add: example_raw_def)

text \<open>C28. Port ranges survive their text form: printing a TCP or UDP range and parsing the text gives the range
  back, for all ports up to 65535.\<close>

theorem port_range_roundtrip:
  assumes "pr_Proto pr = ProtoTCP \<or> pr_Proto pr = ProtoUDP" "Start pr \<le> End pr" "\<not> matchICMPv6 pr"
  shows "parsePortRange (print_range pr) = Inr pr"
proof -
  let ?a = "dec_str (unat (Start pr))" and ?b = "dec_str (unat (End pr))"
  have no: "CHR ''-'' \<notin> set ?a" "CHR ''-'' \<notin> set ?b" "CHR ''/'' \<notin> set (?a @ ''-'' @ ?b)"
    using dec_str_digits digit_facts by auto
  have "split_on (CHR ''-'') (?a @ ''-'' @ ?b) = [?a, ?b]"
    using split_on_first [OF no(1)] split_on_absent [OF no(2)] by simp
  moreover have "parsePort ?a = Inr (Start pr)" "parsePort ?b = Inr (End pr)"
    using parsePort_dec_str [of "[]"] by simp_all
  ultimately have span: "parse_span (pr_Proto pr) (?a @ ''-'' @ ?b) = Inr pr"
    using assms(2,3) by (simp add: parse_span_def)
  have "split_on (CHR ''/'') (print_range pr) =
      [if pr_Proto pr = ProtoTCP then ''tcp'' else ''udp'', ?a @ ''-'' @ ?b]"
    using split_on_absent [OF no(3)] by (simp add: print_range_def)
  moreover have "print_range pr \<noteq> ''*'' \<and> \<not> EqualFold (print_range pr) ''icmp''"
    by (simp add: print_range_def EqualFold_def ToLower_def lower_char_def char_of_def)
  ultimately show ?thesis
    unfolding parsePortRange_def Let_def using span assms(1)
    by (auto simp: ToLower_def lower_char_def protos)
qed

theorem port_range_roundtrip_witness:
  "parsePortRange (print_range \<lparr>pr_Proto = ProtoUDP, Start = 53, End = 65535, matchICMPv6 = False\<rparr>) =
     Inr \<lparr>pr_Proto = ProtoUDP, Start = 53, End = 65535, matchICMPv6 = False\<rparr>"
  using port_range_roundtrip [of "\<lparr>pr_Proto = ProtoUDP, Start = 53, End = 65535, matchICMPv6 = False\<rparr>"] by simp

text \<open>What follows the digits of a port is ignored, so \<open>tcp/80x\<close> is read as port 80.\<close>

lemma port_trailing_text_ignored:
  assumes "rest \<noteq> []" "\<not> is_digit (hd rest)"
  shows "parsePort (dec_str (unat (port :: u16)) @ rest) = Inr port"
  using parsePort_dec_str assms by simp

section \<open>Combined policies and the loader\<close>

lemma combined_allows:
  "dec_Action (Decider_Decide sw (CombinedD l n) src dst proto port) = ActionAllow \<longleftrightarrow>
     dec_Action (Decider_Decide sw l src dst proto port) = ActionAllow \<and>
     dec_Action (Decider_Decide sw n src dst proto port) = ActionAllow"
  by (cases "dec_Action (Decider_Decide sw l src dst proto port)";
      cases "dec_Action (Decider_Decide sw n src dst proto port)") (simp_all add: Let_def)

text \<open>No policy overrides another: whatever the local and the network policy are, also themselves combined or
  hot-swapped, what passes their combination is what both allow; with one of them absent the other decides
  alone.\<close>

theorem Combine_is_conjunction:
  "case Combine local network of
     None \<Rightarrow> local = None \<and> network = None
   | Some d \<Rightarrow> dec_Action (Decider_Decide sw d src dst proto port) = ActionAllow \<longleftrightarrow>
       (local \<noteq> None \<or> network \<noteq> None) \<and>
       (\<forall>l. local = Some l \<longrightarrow> dec_Action (Decider_Decide sw l src dst proto port) = ActionAllow) \<and>
       (\<forall>n. network = Some n \<longrightarrow> dec_Action (Decider_Decide sw n src dst proto port) = ActionAllow)"
  by (cases local; cases network) (simp_all add: Combine_def combined_allows del: Decider_Decide.simps(3))

theorem Combine_is_conjunction_witness:
  "dec_Action (Decider_Decide (\<lambda>_. None) (CombinedD (CompiledD (Compile example_policy)) (SwapD 0))
     (example_key 0x11) (example_key 0x22) ProtoTCP 443) \<noteq> ActionAllow"
  using Combine_is_conjunction [of "Some (CompiledD (Compile example_policy))" "Some (SwapD 0)" "\<lambda>_. None"
      "example_key 0x11" "example_key 0x22" ProtoTCP 443]
  by (simp add: Combine_def Swap_Decide_def del: Decider_Decide.simps(3))

lemma Load_error_keeps: "Load os euid fs l sw = (Some err, l', sw') \<Longrightarrow> l' = l \<and> sw' = sw"
  by (auto simp: Load_def split: file_stat.splits option.splits sum.splits)



text \<open>What the loader does without a policy file: it stores no policy, and the swap it hands to the
  dispatcher then denies every connection.\<close>

lemma missing_file_denies_everything:
  assumes "l_network l = None" and "Load os euid NotExist l sw = (err, l', sw')"
  shows "err = None \<and> (\<exists>d. CombinedPolicy l' = Some d \<and>
           (\<forall>src dst proto port. dec_Action (Decider_Decide sw' d src dst proto port) = ActionDeny))"
  using assms by (auto simp: Load_def CombinedPolicy_def Combine_def Swap_Store_def Swap_Decide_def)

text \<open>An editor that truncates the file and then writes it causes two events; the first load fails, and the
  second event falls to the debounce, so the new policy stays unread.\<close>

lemma debounce_loses_last_write:
  assumes "now - lastModTime l \<ge> 100000000" "later - now < 100000000"
    and "fst (Load os euid fs (l\<lparr>lastModTime := now\<rparr>) sw) \<noteq> None"
    and "watch_event os euid fs True True now now' l sw = (l1, sw1)"
  shows "watch_event os euid fs2 True True later later' l1 sw1 = (l1, sw)"
proof -
  obtain err l2 sw2 where L: "Load os euid fs (l\<lparr>lastModTime := now\<rparr>) sw = (Some err, l2, sw2)"
    using assms(3) by (cases "Load os euid fs (l\<lparr>lastModTime := now\<rparr>) sw") auto
  have "l1 = fst (logError now' (l\<lparr>lastModTime := now\<rparr>)) \<and> sw1 = sw"
    using assms(1,4) L Load_error_keeps [OF L] by (simp add: watch_event_def)
  then have "lastModTime l1 = now" "sw1 = sw" by (simp_all add: logError_def)
  with assms(2) show ?thesis by (simp add: watch_event_def)
qed

text \<open>The warning about rules that can never match: a rule between two different peers gets it, and
  decides connections all the same.\<close>

lemma warned_rule_matches:
  "Warnings example_policy = [(0, ''ada'', ''tag:web'')] \<and>
   dec_Action (Decide (Compile example_policy) (example_key 0x11) (example_key 0x22) ProtoTCP 443) = ActionAllow \<and>
   RuleIndex (Decide (Compile example_policy) (example_key 0x11) (example_key 0x22) ProtoTCP 443) = 0"
  by (simp add: example_policy_def Decide_def Compile_def resolveSubjectToPeers_def resolve_names_def tag_members_def
      List.map_filter_simps MatchesProto_def ContainsPort_def protos)

end
