(* ===== verification/FlowTable.thy ===== *)
theory FlowTable
  imports AclPacket
begin

text \<open>
  Package internal/acl, flowtable.go: the connection table with its 64 shards and the doubly linked
  list that orders entries for eviction. Entries are cells of a heap with \<open>next\<close> and
  \<open>prev\<close> pointers, as in the source; the list operations are the source's pointer assignments, and the
  proofs relate them to the list of cells they link. The seeded hash of package maphash is a function of the key
  (\<open>ft_hash\<close>). An operation runs with its shard locked; whether a \<open>TryLock\<close> of another shard
  succeeds is an input.
\<close>

section \<open>Keys\<close>

record FlowKey =
  k_SrcIP :: bytes
  k_DstIP :: bytes
  k_SrcPort :: u16
  k_DstPort :: u16
  k_Proto :: Proto
  k_IPv6 :: bool

fun compare_bytes :: "bytes \<Rightarrow> bytes \<Rightarrow> int" where
  "compare_bytes (a # as) (b # bs) = (if a < b then -1 else if a > b then 1 else compare_bytes as bs)"
| "compare_bytes _ _ = 0"

definition compareIPs :: "bytes \<Rightarrow> bytes \<Rightarrow> bool \<Rightarrow> int" where
  "compareIPs a b ipv6 = (if ipv6 then compare_bytes a b else compare_bytes (drop 12 a) (drop 12 b))"

definition NormalizeFlowKey :: "Flow \<Rightarrow> FlowKey \<times> bool" where
  "NormalizeFlowKey f =
     (let cmp = compareIPs (SrcIP f) (DstIP f) (IPv6 f)
      in if cmp < 0 \<or> (cmp = 0 \<and> SrcPort f \<le> DstPort f)
         then (\<lparr>k_SrcIP = SrcIP f, k_DstIP = DstIP f, k_SrcPort = SrcPort f, k_DstPort = DstPort f,
                k_Proto = flow_Proto f, k_IPv6 = IPv6 f\<rparr>, False)
         else (\<lparr>k_SrcIP = DstIP f, k_DstIP = SrcIP f, k_SrcPort = DstPort f, k_DstPort = SrcPort f,
                k_Proto = flow_Proto f, k_IPv6 = IPv6 f\<rparr>, True))"

section \<open>The table\<close>

datatype FlowState = FlowStateNew | FlowStateEstablished | FlowStateClosing | FlowStateClosed

type_synonym fref = nat

record FlowEntry =
  fe_Flow :: Flow
  Created :: gotime
  LastSeen :: gotime
  fe_State :: FlowState
  IsReplyDir :: bool
  next_ptr :: "fref option"
  prev_ptr :: "fref option"

record FlowTableConfig =
  MaxFlows :: int
  TCPIdleTimeout :: duration
  UDPIdleTimeout :: duration
  ICMPIdleTimeout :: duration

definition DefaultFlowTableConfig :: FlowTableConfig where
  "DefaultFlowTableConfig = \<lparr>MaxFlows = 16384, TCPIdleTimeout = 5 * minute, UDPIdleTimeout = 60 * second,
     ICMPIdleTimeout = 30 * second\<rparr>"

text \<open>The state: the heap of entries with the next unused reference, the shards' maps, the ends of the eviction list and the
  counter.\<close>

record FlowTable =
  cells :: "fref \<Rightarrow> FlowEntry"
  fresh :: fref
  shards :: "nat \<Rightarrow> FlowKey \<rightharpoonup> fref"
  head_ptr :: "fref option"
  tail_ptr :: "fref option"
  flowCount :: int
  config :: FlowTableConfig
  ft_hash :: "FlowKey \<Rightarrow> u64"

definition numShards :: nat where
  "numShards = 64"

definition NewFlowTable :: "(FlowKey \<Rightarrow> u64) \<Rightarrow> (fref \<Rightarrow> FlowEntry) \<Rightarrow> FlowTableConfig \<Rightarrow> FlowTable" where
  "NewFlowTable hsh mem c =
     \<lparr>cells = mem, fresh = 0, shards = (\<lambda>_. Map.empty), head_ptr = None, tail_ptr = None, flowCount = 0,
      config = \<lparr>MaxFlows = (if MaxFlows c \<le> 0 then 16384 else MaxFlows c),
                TCPIdleTimeout = (if TCPIdleTimeout c \<le> 0 then 5 * minute else TCPIdleTimeout c),
                UDPIdleTimeout = (if UDPIdleTimeout c \<le> 0 then 60 * second else UDPIdleTimeout c),
                ICMPIdleTimeout = (if ICMPIdleTimeout c \<le> 0 then 30 * second else ICMPIdleTimeout c)\<rparr>,
      ft_hash = hsh\<rparr>"

definition shard_of :: "FlowTable \<Rightarrow> FlowKey \<Rightarrow> nat" where
  "shard_of ft key = unat (ft_hash ft key AND of_nat (numShards - 1))"

definition GetTimeout :: "FlowTableConfig \<Rightarrow> Proto \<Rightarrow> duration" where
  "GetTimeout c proto =
     (if proto = ProtoTCP then TCPIdleTimeout c
      else if proto = ProtoUDP then UDPIdleTimeout c
      else if proto = ProtoICMP \<or> proto = ProtoICMPv6 then ICMPIdleTimeout c
      else UDPIdleTimeout c)"

definition isEntryExpired :: "FlowTableConfig \<Rightarrow> FlowEntry \<Rightarrow> gotime \<Rightarrow> bool" where
  "isEntryExpired c entry now \<longleftrightarrow> now - LastSeen entry > GetTimeout c (flow_Proto (fe_Flow entry))"

section \<open>The eviction list\<close>

definition set_next :: "FlowTable \<Rightarrow> fref \<Rightarrow> fref option \<Rightarrow> FlowTable" where
  "set_next ft e p = ft\<lparr>cells := (cells ft)(e := (cells ft e)\<lparr>next_ptr := p\<rparr>)\<rparr>"

definition set_prev :: "FlowTable \<Rightarrow> fref \<Rightarrow> fref option \<Rightarrow> FlowTable" where
  "set_prev ft e p = ft\<lparr>cells := (cells ft)(e := (cells ft e)\<lparr>prev_ptr := p\<rparr>)\<rparr>"

definition unlinkEntry :: "FlowTable \<Rightarrow> fref \<Rightarrow> FlowTable" where
  "unlinkEntry ft entry =
     (let ft1 = (case prev_ptr (cells ft entry) of
                   Some p \<Rightarrow> set_next ft p (next_ptr (cells ft entry))
                 | None \<Rightarrow> ft\<lparr>head_ptr := next_ptr (cells ft entry)\<rparr>);
          ft2 = (case next_ptr (cells ft1 entry) of
                   Some n \<Rightarrow> set_prev ft1 n (prev_ptr (cells ft1 entry))
                 | None \<Rightarrow> ft1\<lparr>tail_ptr := prev_ptr (cells ft1 entry)\<rparr>)
      in set_next (set_prev ft2 entry None) entry None)"

definition linkEntryFront :: "FlowTable \<Rightarrow> fref \<Rightarrow> FlowTable" where
  "linkEntryFront ft entry =
     (let ft1 = set_prev (set_next ft entry (head_ptr ft)) entry None;
          ft2 = (case head_ptr ft1 of Some h \<Rightarrow> set_prev ft1 h (Some entry) | None \<Rightarrow> ft1);
          ft3 = ft2\<lparr>head_ptr := Some entry\<rparr>
      in if tail_ptr ft3 = None then ft3\<lparr>tail_ptr := Some entry\<rparr> else ft3)"

definition linkEntryBack :: "FlowTable \<Rightarrow> fref \<Rightarrow> FlowTable" where
  "linkEntryBack ft entry =
     (let ft1 = set_next (set_prev ft entry (tail_ptr ft)) entry None;
          ft2 = (case tail_ptr ft1 of Some t \<Rightarrow> set_next ft1 t (Some entry) | None \<Rightarrow> ft1);
          ft3 = ft2\<lparr>tail_ptr := Some entry\<rparr>
      in if head_ptr ft3 = None then ft3\<lparr>head_ptr := Some entry\<rparr> else ft3)"

definition moveToFrontLocked :: "FlowTable \<Rightarrow> fref \<Rightarrow> FlowTable" where
  "moveToFrontLocked ft entry = linkEntryFront (unlinkEntry ft entry) entry"

definition popOldestEntry :: "FlowTable \<Rightarrow> FlowTable \<times> fref option" where
  "popOldestEntry ft = (case tail_ptr ft of
      None \<Rightarrow> (ft, None)
    | Some e \<Rightarrow> (unlinkEntry ft e, Some e))"

section \<open>Operations\<close>

definition delete_flow :: "FlowTable \<Rightarrow> nat \<Rightarrow> FlowKey \<Rightarrow> FlowTable" where
  "delete_flow ft s key = ft\<lparr>shards := (shards ft)(s := (shards ft s)(key := None))\<rparr>"

definition add_count :: "FlowTable \<Rightarrow> int \<Rightarrow> FlowTable" where
  "add_count ft d = ft\<lparr>flowCount := flowCount ft + d\<rparr>"

text \<open>The steps every removal of a found entry takes: out of the shard, out of the list, one flow less.\<close>

definition drop_entry :: "FlowTable \<Rightarrow> nat \<Rightarrow> FlowKey \<Rightarrow> fref \<Rightarrow> FlowTable" where
  "drop_entry ft s key entry = add_count (unlinkEntry (delete_flow ft s key) entry) (-1)"

definition evict_victim :: "FlowTable \<Rightarrow> fref \<Rightarrow> FlowTable" where
  "evict_victim ft e =
     (let key = fst (NormalizeFlowKey (fe_Flow (cells ft e))); s = shard_of ft key
      in if shards ft s key \<noteq> None then add_count (delete_flow ft s key) (-1) else ft)"

text \<open>\<open>evictOneLocked\<close>: \<open>attempts\<close> turns are left (the source allows 8); \<open>trylock n\<close> says whether the \<open>TryLock\<close>
  with \<open>n\<close> turns left succeeds.\<close>

fun evict_attempts :: "(nat \<Rightarrow> bool) \<Rightarrow> nat \<Rightarrow> nat \<Rightarrow> FlowTable \<Rightarrow> FlowTable" where
  "evict_attempts trylock callerShardIdx 0 ft = ft"
| "evict_attempts trylock callerShardIdx (Suc attempts) ft =
     (case popOldestEntry ft of
        (ft1, None) \<Rightarrow> ft1
      | (ft1, Some e) \<Rightarrow>
          (if shard_of ft1 (fst (NormalizeFlowKey (fe_Flow (cells ft1 e)))) = callerShardIdx \<or> trylock attempts
           then evict_victim ft1 e
           else evict_attempts trylock callerShardIdx attempts (linkEntryBack ft1 e)))"

definition evictOneLocked :: "(nat \<Rightarrow> bool) \<Rightarrow> nat \<Rightarrow> FlowTable \<Rightarrow> FlowTable" where
  "evictOneLocked trylock callerShardIdx ft = evict_attempts trylock callerShardIdx 8 ft"

text \<open>The loop that makes room; it may not end, so None is the value of a loop that never returns.\<close>

partial_function (option) make_room :: "(nat \<Rightarrow> nat \<Rightarrow> bool) \<Rightarrow> nat \<Rightarrow> nat \<Rightarrow> FlowTable \<Rightarrow> FlowTable option" where
  "make_room trylock i s ft =
     (if flowCount ft \<ge> MaxFlows (config ft)
      then make_room trylock (Suc i) s (evictOneLocked (trylock i) s ft)
      else Some ft)"

definition insert_flow :: "FlowTable \<Rightarrow> nat \<Rightarrow> FlowKey \<Rightarrow> FlowEntry \<Rightarrow> FlowTable \<times> fref" where
  "insert_flow ft s key entry =
     (let e = fresh ft;
          ft1 = ft\<lparr>cells := (cells ft)(e := entry), fresh := Suc e, shards := (shards ft)(s := (shards ft s)(key \<mapsto> e))\<rparr>
      in (add_count (linkEntryFront ft1 e) 1, e))"

definition touch_entry :: "FlowTable \<Rightarrow> fref \<Rightarrow> gotime \<Rightarrow> FlowState \<Rightarrow> FlowTable" where
  "touch_entry ft e now st = ft\<lparr>cells := (cells ft)(e := (cells ft e)\<lparr>LastSeen := now, fe_State := st\<rparr>)\<rparr>"

definition create_flow :: "(nat \<Rightarrow> nat \<Rightarrow> bool) \<Rightarrow> FlowTable \<Rightarrow> Flow \<Rightarrow> bool \<Rightarrow> FlowState \<Rightarrow> gotime \<Rightarrow>
    (FlowTable \<times> fref option \<times> bool \<times> bool) option" where
  "create_flow trylock ft f createIfMissing initialState now =
     (case NormalizeFlowKey f of (key, isReply) \<Rightarrow>
        if \<not> createIfMissing then Some (ft, None, isReply, False)
        else
          (case make_room trylock 0 (shard_of ft key) ft of
             None \<Rightarrow> None
           | Some ft1 \<Rightarrow>
               (case insert_flow ft1 (shard_of ft key) key
                       \<lparr>fe_Flow = f, Created = now, LastSeen = now, fe_State = initialState, IsReplyDir = isReply,
                        next_ptr = None, prev_ptr = None\<rparr> of
                  (ft2, e) \<Rightarrow> Some (ft2, Some e, isReply, True))))"

definition Lookup :: "(nat \<Rightarrow> nat \<Rightarrow> bool) \<Rightarrow> FlowTable \<Rightarrow> Flow \<Rightarrow> bool \<Rightarrow> FlowState \<Rightarrow> gotime \<Rightarrow>
    (FlowTable \<times> fref option \<times> bool \<times> bool) option" where
  "Lookup trylock ft f createIfMissing initialState now =
     (case NormalizeFlowKey f of (key, isReply) \<Rightarrow>
        (case shards ft (shard_of ft key) key of
           Some entry \<Rightarrow>
             if isEntryExpired (config ft) (cells ft entry) now
             then create_flow trylock (drop_entry ft (shard_of ft key) key entry) f createIfMissing initialState now
             else
               (let st = (if fe_State (cells ft entry) = FlowStateNew \<and> initialState = FlowStateEstablished
                          then FlowStateEstablished else fe_State (cells ft entry))
                in Some (moveToFrontLocked (touch_entry ft entry now st) entry, Some entry, isReply, False))
         | None \<Rightarrow> create_flow trylock ft f createIfMissing initialState now))"

definition UpdateState :: "FlowTable \<Rightarrow> Flow \<Rightarrow> FlowState \<Rightarrow> gotime \<Rightarrow> FlowTable \<times> bool" where
  "UpdateState ft f st now =
     (let key = fst (NormalizeFlowKey f); s = shard_of ft key
      in case shards ft s key of
           None \<Rightarrow> (ft, False)
         | Some entry \<Rightarrow>
             if isEntryExpired (config ft) (cells ft entry) now then (drop_entry ft s key entry, False)
             else (moveToFrontLocked (touch_entry ft entry now st) entry, True))"

definition RemoveFlow :: "FlowTable \<Rightarrow> FlowKey \<Rightarrow> FlowTable \<times> bool" where
  "RemoveFlow ft key =
     (let s = shard_of ft key
      in case shards ft s key of
           None \<Rightarrow> (ft, False)
         | Some entry \<Rightarrow> (drop_entry ft s key entry, True))"

text \<open>\<open>ExpireOldFlows\<close> visits the shards in turn and the keys of a shard's map in some order; \<open>order\<close> lists
  the visits.\<close>

fun expire_visits :: "(nat \<times> FlowKey) list \<Rightarrow> gotime \<Rightarrow> FlowTable \<Rightarrow> nat \<Rightarrow> FlowTable \<times> nat" where
  "expire_visits [] now ft count = (ft, count)"
| "expire_visits ((s, key) # visits) now ft count =
     (case shards ft s key of
        None \<Rightarrow> expire_visits visits now ft count
      | Some entry \<Rightarrow>
          if now - LastSeen (cells ft entry) > GetTimeout (config ft) (flow_Proto (fe_Flow (cells ft entry))) \<or>
             fe_State (cells ft entry) = FlowStateClosed
          then expire_visits visits now (drop_entry ft s key entry) (Suc count)
          else expire_visits visits now ft count)"

definition ExpireOldFlows :: "(nat \<times> FlowKey) list \<Rightarrow> FlowTable \<Rightarrow> gotime \<Rightarrow> FlowTable \<times> nat" where
  "ExpireOldFlows order ft now = expire_visits order now ft 0"

definition Len :: "FlowTable \<Rightarrow> int" where
  "Len ft = flowCount ft"

section \<open>The pointers form a list\<close>

text \<open>\<open>links c p xs n\<close>: the cells \<open>xs\<close> are linked in this order, the first one pointing back to \<open>p\<close> and the last
  one forward to \<open>n\<close>.\<close>

definition first_or :: "fref list \<Rightarrow> fref option \<Rightarrow> fref option" where
  "first_or xs n = (case xs of [] \<Rightarrow> n | x # _ \<Rightarrow> Some x)"

definition last_or :: "fref option \<Rightarrow> fref list \<Rightarrow> fref option" where
  "last_or p xs = (if xs = [] then p else Some (last xs))"

fun links :: "(fref \<Rightarrow> FlowEntry) \<Rightarrow> fref option \<Rightarrow> fref list \<Rightarrow> fref option \<Rightarrow> bool" where
  "links c p [] n = True"
| "links c p (x # xs) n \<longleftrightarrow> prev_ptr (c x) = p \<and> next_ptr (c x) = first_or xs n \<and> links c (Some x) xs n"

definition evict_ok :: "FlowTable \<Rightarrow> fref list \<Rightarrow> bool" where
  "evict_ok ft xs \<longleftrightarrow> distinct xs \<and> head_ptr ft = first_or xs None \<and> tail_ptr ft = last_or None xs \<and>
     links (cells ft) None xs None"

lemma first_or_simps [simp]: "first_or [] n = n" "first_or (x # xs) n = Some x"
  "first_or (xs @ ys) n = first_or xs (first_or ys n)"
  by (simp_all add: first_or_def split: list.split)

lemma first_or_None [simp]: "first_or xs n = None \<longleftrightarrow> xs = [] \<and> n = None"
  by (simp add: first_or_def split: list.split)

lemma last_or_simps [simp]: "last_or p [] = p" "last_or p (xs @ [x]) = Some x" "last_or p [x] = Some x"
  "last_or p (x # xs) = last_or (Some x) xs" "last_or p (xs @ ys) = last_or (last_or p xs) ys"
  by (simp_all add: last_or_def)

lemma links_append [simp]:
  "links c p (xs @ ys) n \<longleftrightarrow> links c p xs (first_or ys n) \<and> links c (last_or p xs) ys n"
  by (induction xs arbitrary: p) auto

lemma links_cong:
  assumes "\<And>x. x \<in> set xs \<Longrightarrow> next_ptr (c' x) = next_ptr (c x) \<and> prev_ptr (c' x) = prev_ptr (c x)"
  shows "links c' p xs n = links c p xs n"
  using assms by (induction xs arbitrary: p) auto

lemma links_upd [simp]: "e \<notin> set xs \<Longrightarrow> links (c(e := v)) p xs n = links c p xs n"
  by (rule links_cong) auto

lemma links_data: "next_ptr v = next_ptr (c e) \<Longrightarrow> prev_ptr v = prev_ptr (c e) \<Longrightarrow> links (c(e := v)) p xs n = links c p xs n"
  by (rule links_cong) auto

text \<open>What the list operations leave alone: everything but the two pointers of entries and the list's ends.\<close>

definition strip :: "FlowEntry \<Rightarrow> FlowEntry" where
  "strip x = x\<lparr>next_ptr := None, prev_ptr := None\<rparr>"

definition same_flows :: "FlowTable \<Rightarrow> FlowTable \<Rightarrow> bool" where
  "same_flows ft ft' \<longleftrightarrow> (\<forall>x. strip (cells ft' x) = strip (cells ft x)) \<and> fresh ft' = fresh ft \<and>
     shards ft' = shards ft \<and> flowCount ft' = flowCount ft \<and> config ft' = config ft \<and> ft_hash ft' = ft_hash ft"

lemma same_flows_refl [simp]: "same_flows ft ft"
  by (simp add: same_flows_def)

lemma same_flows_trans: "same_flows a b \<Longrightarrow> same_flows b c \<Longrightarrow> same_flows a c"
  by (simp add: same_flows_def)

lemma same_flows_set [simp]:
  "same_flows ft (set_next ft' e p) = same_flows ft ft'" "same_flows ft (set_prev ft' e p) = same_flows ft ft'"
  "same_flows ft (ft'\<lparr>head_ptr := p\<rparr>) = same_flows ft ft'" "same_flows ft (ft'\<lparr>tail_ptr := p\<rparr>) = same_flows ft ft'"
  by (auto simp: same_flows_def set_next_def set_prev_def strip_def)

lemma list_ops_frame [simp]:
  "same_flows ft (unlinkEntry ft e)" "same_flows ft (linkEntryFront ft e)" "same_flows ft (linkEntryBack ft e)"
  by (simp_all add: unlinkEntry_def linkEntryFront_def linkEntryBack_def Let_def split: option.split)

lemma same_flowsD:
  assumes "same_flows ft ft'"
  shows "fe_Flow (cells ft' x) = fe_Flow (cells ft x)" "LastSeen (cells ft' x) = LastSeen (cells ft x)"
    "fe_State (cells ft' x) = fe_State (cells ft x)" "strip (cells ft' x) = strip (cells ft x)"
    "shards ft' = shards ft" "fresh ft' = fresh ft" "flowCount ft' = flowCount ft" "config ft' = config ft"
    "ft_hash ft' = ft_hash ft" "shard_of ft' = shard_of ft"
proof -
  have s: "strip (cells ft' x) = strip (cells ft x)" using assms by (simp add: same_flows_def)
  show "fe_Flow (cells ft' x) = fe_Flow (cells ft x)" "LastSeen (cells ft' x) = LastSeen (cells ft x)"
    "fe_State (cells ft' x) = fe_State (cells ft x)"
    using arg_cong [OF s, of fe_Flow] arg_cong [OF s, of LastSeen] arg_cong [OF s, of fe_State]
    by (simp_all add: strip_def)
qed (use assms in \<open>auto simp: same_flows_def shard_of_def\<close>)

text \<open>Each list operation on the linked cells.\<close>

lemma unlinkEntry_list:
  assumes "evict_ok ft (as @ e # bs)"
  shows "evict_ok (unlinkEntry ft e) (as @ bs)"
proof (cases as rule: rev_cases)
  case Nil
  then show ?thesis
    using assms by (cases bs) (auto simp: evict_ok_def unlinkEntry_def set_next_def set_prev_def)
next
  case (snoc as' a)
  then show ?thesis
    using assms by (cases bs) (auto simp: evict_ok_def unlinkEntry_def set_next_def set_prev_def)
qed

lemma linkEntryFront_list:
  assumes "evict_ok ft xs" "e \<notin> set xs"
  shows "evict_ok (linkEntryFront ft e) (e # xs)"
  using assms
  by (cases xs) (auto simp: evict_ok_def linkEntryFront_def set_next_def set_prev_def last_or_def)

lemma linkEntryBack_list:
  assumes "evict_ok ft xs" "e \<notin> set xs"
  shows "evict_ok (linkEntryBack ft e) (xs @ [e])"
  using assms
  by (cases xs rule: rev_cases)
    (auto simp: evict_ok_def linkEntryBack_def set_next_def set_prev_def)

lemma moveToFront_list:
  assumes "evict_ok ft (as @ e # bs)"
  shows "evict_ok (moveToFrontLocked ft e) (e # as @ bs)" "same_flows ft (moveToFrontLocked ft e)"
proof -
  have "e \<notin> set (as @ bs)" using assms by (auto simp: evict_ok_def)
  then show "evict_ok (moveToFrontLocked ft e) (e # as @ bs)"
    unfolding moveToFrontLocked_def by (intro linkEntryFront_list unlinkEntry_list assms) 
  show "same_flows ft (moveToFrontLocked ft e)"
    unfolding moveToFrontLocked_def by (rule same_flows_trans) (rule list_ops_frame)+
qed

lemma popOldest_list:
  assumes "evict_ok ft (xs @ [e])"
  shows "popOldestEntry ft = (unlinkEntry ft e, Some e)" "evict_ok (unlinkEntry ft e) xs"
  using assms unlinkEntry_list [of ft xs e "[]"] by (auto simp: popOldestEntry_def evict_ok_def)

section \<open>The invariant of the table\<close>

text \<open>\<open>flow_inv ft xs\<close>: the eviction list is \<open>xs\<close>, its cells are exactly the entries the shards hold, each under the
  key of its flow in the shard of that key, and the counter counts them.\<close>

definition fkey :: "FlowTable \<Rightarrow> fref \<Rightarrow> FlowKey" where
  "fkey ft e = fst (NormalizeFlowKey (fe_Flow (cells ft e)))"

definition flow_inv :: "FlowTable \<Rightarrow> fref list \<Rightarrow> bool" where
  "flow_inv ft xs \<longleftrightarrow> evict_ok ft xs \<and>
     (\<forall>s k e. shards ft s k = Some e \<longleftrightarrow> e \<in> set xs \<and> k = fkey ft e \<and> s = shard_of ft k) \<and>
     flowCount ft = int (length xs) \<and> (\<forall>e \<in> set xs. e < fresh ft)"

lemma flow_invD:
  assumes "flow_inv ft xs"
  shows "evict_ok ft xs" "distinct xs" "shards ft s k = Some e \<longleftrightarrow> e \<in> set xs \<and> k = fkey ft e \<and> s = shard_of ft k"
    "flowCount ft = int (length xs)" "e \<in> set xs \<Longrightarrow> e < fresh ft"
  using assms by (simp_all add: flow_inv_def evict_ok_def)

lemma flow_invI:
  assumes "evict_ok ft xs" "\<And>s k e. shards ft s k = Some e \<longleftrightarrow> e \<in> set xs \<and> k = fkey ft e \<and> s = shard_of ft k"
    "flowCount ft = int (length xs)" "\<And>e. e \<in> set xs \<Longrightarrow> e < fresh ft"
  shows "flow_inv ft xs"
  using assms unfolding flow_inv_def by blast

lemma fkey_same: "same_flows ft ft' \<Longrightarrow> fkey ft' = fkey ft"
  by (rule ext) (simp add: fkey_def same_flowsD)

lemma flow_inv_same:
  assumes "flow_inv ft xs" "same_flows ft ft'" "evict_ok ft' ys" "set ys = set xs"
  shows "flow_inv ft' ys"
proof -
  have "length ys = length xs"
    using assms(1,3,4) unfolding flow_inv_def evict_ok_def by (metis distinct_card)
  then show ?thesis
    using assms unfolding flow_inv_def fkey_same [OF assms(2)] by (simp add: same_flowsD [OF assms(2)])
qed

lemma flow_inv_lookup:
  assumes "flow_inv ft xs" "shards ft s k = Some e"
  obtains as bs where "xs = as @ e # bs" "k = fkey ft e" "s = shard_of ft k"
proof -
  have "e \<in> set xs" "k = fkey ft e" "s = shard_of ft k" using assms flow_invD(3) by blast+
  then show thesis using that split_list by metis
qed

text \<open>Two entries with the same key are the same entry.\<close>

lemma fkey_inj: "flow_inv ft xs \<Longrightarrow> e \<in> set xs \<Longrightarrow> e' \<in> set xs \<Longrightarrow> fkey ft e = fkey ft e' \<Longrightarrow> e = e'"
proof -
  assume inv: "flow_inv ft xs" and e: "e \<in> set xs" "e' \<in> set xs" "fkey ft e = fkey ft e'"
  have "shards ft (shard_of ft (fkey ft e)) (fkey ft e) = Some e"
    "shards ft (shard_of ft (fkey ft e)) (fkey ft e) = Some e'"
    using inv e unfolding flow_inv_def by metis+
  then show "e = e'" by simp
qed

lemma NewFlowTable_inv: "flow_inv (NewFlowTable hsh mem c) []"
  by (simp add: NewFlowTable_def flow_inv_def evict_ok_def)

lemma delete_entry_inv:
  assumes inv: "flow_inv ft xs" and x: "xs = as @ e # bs" "k = fkey ft e" "s = shard_of ft k"
    and ft': "evict_ok ft' (as @ bs)" "same_flows (add_count (delete_flow ft s k) (-1)) ft'"
  shows "flow_inv ft' (as @ bs)"
proof (rule flow_invI)
  note I = flow_invD [OF inv] and S = same_flowsD [OF ft'(2)]
  show "evict_ok ft' (as @ bs)" by (rule ft'(1))
  have key: "fkey ft' = fkey ft" "shard_of ft' = shard_of ft"
    using fkey_same [OF ft'(2)] S(10) by (auto simp: fkey_def add_count_def delete_flow_def shard_of_def)
  have d: "distinct (as @ e # bs)" using I(2) x(1) by simp
  show "shards ft' s' k' = Some y \<longleftrightarrow> y \<in> set (as @ bs) \<and> k' = fkey ft' y \<and> s' = shard_of ft' k'" for s' k' y
  proof -
    have "shards ft' s' k' = Some y \<longleftrightarrow> shards ft s' k' = Some y \<and> (s', k') \<noteq> (s, k)"
      by (auto simp: S(5) add_count_def delete_flow_def)
    also have "\<dots> \<longleftrightarrow> (y \<in> set xs \<and> k' = fkey ft y \<and> s' = shard_of ft k') \<and> (s', k') \<noteq> (s, k)"
      unfolding I(3) by blast
    also have "\<dots> \<longleftrightarrow> (y \<in> set xs \<and> y \<noteq> e) \<and> k' = fkey ft y \<and> s' = shard_of ft k'"
      using x fkey_inj [OF inv, of y e] by auto
    also have "y \<in> set xs \<and> y \<noteq> e \<longleftrightarrow> y \<in> set (as @ bs)" using x(1) d by auto
    finally show ?thesis by (simp add: key)
  qed
  show "flowCount ft' = int (length (as @ bs))"
    using I(4) x(1) by (simp add: S add_count_def delete_flow_def)
  show "y < fresh ft'" if "y \<in> set (as @ bs)" for y
    using I(5) [of y] that x(1) by (auto simp: S add_count_def delete_flow_def)
qed

lemma drop_entry_inv:
  assumes "flow_inv ft xs" "xs = as @ e # bs" "k = fkey ft e" "s = shard_of ft k"
  shows "flow_inv (drop_entry ft s k e) (as @ bs)"
proof (rule delete_entry_inv [OF assms])
  have "evict_ok (delete_flow ft s k) (as @ e # bs)"
    using assms(1,2) by (simp add: flow_inv_def evict_ok_def delete_flow_def)
  from unlinkEntry_list [OF this] show "evict_ok (drop_entry ft s k e) (as @ bs)"
    by (simp add: drop_entry_def add_count_def evict_ok_def)
  have "same_flows (delete_flow ft s k) (unlinkEntry (delete_flow ft s k) e)" by simp
  then show "same_flows (add_count (delete_flow ft s k) (-1)) (drop_entry ft s k e)"
    by (simp add: drop_entry_def add_count_def same_flows_def)
qed

section \<open>Eviction\<close>

definition same_store :: "FlowTable \<Rightarrow> FlowTable \<Rightarrow> bool" where
  "same_store ft ft' \<longleftrightarrow> (\<forall>x. strip (cells ft' x) = strip (cells ft x)) \<and> fresh ft' = fresh ft \<and>
     config ft' = config ft \<and> ft_hash ft' = ft_hash ft"

lemma same_store_refl [simp]: "same_store ft ft"
  by (simp add: same_store_def)

lemma same_store_trans: "same_store a b \<Longrightarrow> same_store b c \<Longrightarrow> same_store a c"
  by (simp add: same_store_def)

lemma same_flows_store: "same_flows a b \<Longrightarrow> same_store a b"
  by (simp add: same_store_def same_flows_def)

lemma same_store_simps [simp]: "same_store a (add_count b d) = same_store a b" "same_store a (delete_flow b s k) = same_store a b"
  by (simp_all add: same_store_def add_count_def delete_flow_def)

lemma evict_victim_inv:
  assumes inv: "flow_inv ft (xs @ [e])"
  shows "flow_inv (evict_victim (unlinkEntry ft e) e) xs" "same_store ft (evict_victim (unlinkEntry ft e) e)"
proof -
  let ?u = "unlinkEntry ft e" and ?k = "fkey ft e"
  let ?s = "shard_of ft ?k"
  note S = same_flowsD [OF list_ops_frame(1), of ft e]
  have "shards ft ?s ?k = Some e" using flow_invD(3) [OF inv] by simp
  then have v: "evict_victim ?u e = add_count (delete_flow ?u ?s ?k) (-1)"
    by (simp add: evict_victim_def Let_def S fkey_def)
  have "flow_inv (evict_victim ?u e) (xs @ [])"
  proof (rule delete_entry_inv [OF inv])
    have "evict_ok ?u xs" using popOldest_list(2) flow_invD(1) [OF inv] by blast
    then show "evict_ok (evict_victim ?u e) (xs @ [])"
      by (simp add: v evict_ok_def add_count_def delete_flow_def)
    show "same_flows (add_count (delete_flow ft ?s ?k) (- 1)) (evict_victim ?u e)"
      using list_ops_frame(1) [of ft e] by (simp add: v same_flows_def add_count_def delete_flow_def)
  qed simp_all
  then show "flow_inv (evict_victim ?u e) xs" by simp
  show "same_store ft (evict_victim ?u e)"
    by (simp add: v same_flows_store)
qed

lemma put_back_inv:
  assumes inv: "flow_inv ft (xs @ [e])"
  shows "flow_inv (linkEntryBack (unlinkEntry ft e) e) (xs @ [e])" "same_store ft (linkEntryBack (unlinkEntry ft e) e)"
proof -
  have f: "same_flows ft (linkEntryBack (unlinkEntry ft e) e)"
    by (rule same_flows_trans) (rule list_ops_frame)+
  have "e \<notin> set xs" using flow_invD(2) [OF inv] by simp
  then have "evict_ok (linkEntryBack (unlinkEntry ft e) e) (xs @ [e])"
    using popOldest_list(2) flow_invD(1) [OF inv] by (intro linkEntryBack_list) blast+
  then show "flow_inv (linkEntryBack (unlinkEntry ft e) e) (xs @ [e])"
    by (rule flow_inv_same [OF inv f]) simp
  show "same_store ft (linkEntryBack (unlinkEntry ft e) e)" using f by (rule same_flows_store)
qed

text \<open>An eviction, contended or not, keeps the invariant; uncontended it drops the oldest entry.\<close>

lemma evict_attempts_inv:
  assumes "flow_inv ft xs"
  shows "\<exists>ys. flow_inv (evict_attempts trylock s n ft) ys \<and> (ys = xs \<or> ys = butlast xs) \<and>
    same_store ft (evict_attempts trylock s n ft)"
  using assms
proof (induction n arbitrary: ft)
  case (Suc n)
  show ?case
  proof (cases xs rule: rev_cases)
    case Nil
    then have "popOldestEntry ft = (ft, None)"
      using flow_invD(1) [OF Suc.prems] by (simp add: popOldestEntry_def evict_ok_def)
    with Suc.prems show ?thesis by auto
  next
    case (snoc ys e)
    have inv: "flow_inv ft (ys @ [e])" using Suc.prems snoc by simp
    note pop = popOldest_list(1) [OF flow_invD(1) [OF inv]]
    obtain zs where "flow_inv (evict_attempts trylock s n (linkEntryBack (unlinkEntry ft e) e)) zs"
      "zs = xs \<or> zs = butlast xs"
      "same_store (linkEntryBack (unlinkEntry ft e) e) (evict_attempts trylock s n (linkEntryBack (unlinkEntry ft e) e))"
      using Suc.IH put_back_inv(1) [OF inv] snoc by blast
    then show ?thesis
      using evict_victim_inv [OF inv] put_back_inv(2) [OF inv] same_store_trans snoc pop by auto
  qed
qed auto

lemma evict_attempts_uncontended:
  assumes "flow_inv ft xs" "n > 0"
  shows "flow_inv (evict_attempts (\<lambda>_. True) s n ft) (butlast xs)"
proof -
  obtain m where n: "n = Suc m" using assms(2) by (cases n) auto
  show ?thesis
  proof (cases xs rule: rev_cases)
    case Nil
    with assms(1) show ?thesis
      using flow_invD(1) [OF assms(1)] by (simp add: n popOldestEntry_def evict_ok_def)
  next
    case (snoc ys e)
    then have inv: "flow_inv ft (ys @ [e])" using assms(1) by simp
    show ?thesis
      using evict_victim_inv(1) [OF inv] popOldest_list(1) [OF flow_invD(1) [OF inv]] snoc by (simp add: n)
  qed
qed

lemma evictOne_uncontended:
  assumes "flow_inv ft xs"
  shows "flow_inv (evictOneLocked (\<lambda>_. True) s ft) (butlast xs)" "same_store ft (evictOneLocked (\<lambda>_. True) s ft)"
  unfolding evictOneLocked_def using evict_attempts_uncontended [OF assms, of 8] evict_attempts_inv [OF assms] by (simp, blast)

text \<open>Without contention the loop that makes room ends, with the newest entries kept.\<close>

lemma make_room_uncontended:
  assumes "flow_inv ft xs" "MaxFlows (config ft) \<ge> 1"
  shows "\<exists>ft'. make_room (\<lambda>_ _. True) i s ft = Some ft' \<and>
    flow_inv ft' (take (nat (MaxFlows (config ft)) - 1) xs) \<and> same_store ft ft'"
  using assms
proof (induction xs arbitrary: ft i rule: rev_induct)
  case Nil
  then show ?case using flow_invD(4) [OF Nil(1)] by (subst make_room.simps) simp
next
  case (snoc e xs)
  let ?m = "MaxFlows (config ft)"
  show ?case
  proof (cases "flowCount ft \<ge> ?m")
    case True
    let ?ft = "evictOneLocked (\<lambda>_. True) s ft"
    have e: "flow_inv ?ft xs" "same_store ft ?ft" using evictOne_uncontended [OF snoc.prems(1)] by simp_all
    have c: "config ?ft = config ft" using e(2) by (simp add: same_store_def)
    from snoc.IH [OF e(1), of "Suc i"] snoc.prems(2) obtain ft' where
      "make_room (\<lambda>_ _. True) (Suc i) s ?ft = Some ft'" "flow_inv ft' (take (nat ?m - 1) xs)" "same_store ?ft ft'"
      by (auto simp: c)
    moreover have "take (nat ?m - 1) (xs @ [e]) = take (nat ?m - 1) xs"
      using True flow_invD(4) [OF snoc.prems(1)] by simp
    ultimately show ?thesis
      using True e(2) same_store_trans by (subst make_room.simps) auto
  next
    case False
    then have "take (nat ?m - 1) (xs @ [e]) = xs @ [e]"
      using flow_invD(4) [OF snoc.prems(1)] by simp
    with False snoc.prems(1) show ?thesis by (subst make_room.simps) simp
  qed
qed

section \<open>The table as a least-recently-used cache\<close>

text \<open>The specification: the entries alone, newest first. A hit moves its entry to the front, a new entry pushes
  out the oldest ones beyond the limit, an expired entry counts as absent.\<close>

definition ekey :: "FlowEntry \<Rightarrow> FlowKey" where
  "ekey x = fst (NormalizeFlowKey (fe_Flow x))"

definition lru_get :: "FlowKey \<Rightarrow> FlowEntry list \<Rightarrow> FlowEntry option" where
  "lru_get k l = find (\<lambda>x. ekey x = k) l"

definition lru_del :: "FlowKey \<Rightarrow> FlowEntry list \<Rightarrow> FlowEntry list" where
  "lru_del k l = filter (\<lambda>x. ekey x \<noteq> k) l"

definition new_entry :: "Flow \<Rightarrow> FlowState \<Rightarrow> gotime \<Rightarrow> FlowEntry" where
  "new_entry f st now = \<lparr>fe_Flow = f, Created = now, LastSeen = now, fe_State = st, IsReplyDir = snd (NormalizeFlowKey f),
     next_ptr = None, prev_ptr = None\<rparr>"

definition lru_create :: "FlowTableConfig \<Rightarrow> Flow \<Rightarrow> bool \<Rightarrow> FlowState \<Rightarrow> gotime \<Rightarrow> FlowEntry list \<Rightarrow>
    FlowEntry list \<times> FlowEntry option \<times> bool" where
  "lru_create c f create st now l =
     (if create then (new_entry f st now # take (nat (MaxFlows c) - 1) l, Some (new_entry f st now), True)
      else (l, None, False))"

definition lru_Lookup :: "FlowTableConfig \<Rightarrow> Flow \<Rightarrow> bool \<Rightarrow> FlowState \<Rightarrow> gotime \<Rightarrow> FlowEntry list \<Rightarrow>
    FlowEntry list \<times> FlowEntry option \<times> bool" where
  "lru_Lookup c f create st now l =
     (let k = fst (NormalizeFlowKey f)
      in case lru_get k l of
           None \<Rightarrow> lru_create c f create st now l
         | Some x \<Rightarrow>
             if isEntryExpired c x now then lru_create c f create st now (lru_del k l)
             else (let x' = x\<lparr>LastSeen := now, fe_State := (if fe_State x = FlowStateNew \<and> st = FlowStateEstablished
                                                          then FlowStateEstablished else fe_State x)\<rparr>
                   in (x' # lru_del k l, Some x', False)))"

definition lru_Update :: "FlowTableConfig \<Rightarrow> Flow \<Rightarrow> FlowState \<Rightarrow> gotime \<Rightarrow> FlowEntry list \<Rightarrow> FlowEntry list \<times> bool" where
  "lru_Update c f st now l =
     (let k = fst (NormalizeFlowKey f)
      in case lru_get k l of
           None \<Rightarrow> (l, False)
         | Some x \<Rightarrow> if isEntryExpired c x now then (lru_del k l, False)
                     else (x\<lparr>LastSeen := now, fe_State := st\<rparr> # lru_del k l, True))"

definition contents :: "FlowTable \<Rightarrow> fref list \<Rightarrow> FlowEntry list" where
  "contents ft xs = map (\<lambda>e. strip (cells ft e)) xs"

lemma ekey_strip [simp]: "ekey (strip x) = ekey x" "isEntryExpired c (strip x) now = isEntryExpired c x now"
  "fe_State (strip x) = fe_State x" "LastSeen (strip x) = LastSeen x" "fe_Flow (strip x) = fe_Flow x"
  by (simp_all add: ekey_def strip_def isEntryExpired_def)

lemma ekey_fkey: "ekey (cells ft e) = fkey ft e"
  by (simp add: ekey_def fkey_def)

lemma contents_same: "same_store ft ft' \<Longrightarrow> contents ft' xs = contents ft xs"
  by (simp add: contents_def same_store_def)

lemma find_append: "find P (xs @ ys) = (case find P xs of None \<Rightarrow> find P ys | Some x \<Rightarrow> Some x)"
  by (induction xs) auto

lemma lru_get_contents:
  assumes inv: "flow_inv ft xs" and k: "s = shard_of ft k"
  shows "lru_get k (contents ft xs) = map_option (\<lambda>e. strip (cells ft e)) (shards ft s k)"
proof (cases "shards ft s k")
  case None
  then have "\<forall>e \<in> set xs. fkey ft e \<noteq> k" using flow_invD(3) [OF inv] k by (metis option.distinct(1))
  then show ?thesis using None by (auto simp: lru_get_def contents_def find_None_iff ekey_fkey)
next
  case (Some e)
  then obtain as bs where x: "xs = as @ e # bs" "k = fkey ft e" using flow_inv_lookup [OF inv] by metis
  have "fkey ft y \<noteq> k" if "y \<in> set as" for y
    using that x flow_invD(2) [OF inv] fkey_inj [OF inv, of y e] by auto
  then have "find (\<lambda>x. ekey x = k) (contents ft as) = None"
    by (auto simp: contents_def find_None_iff ekey_fkey)
  with x Some show ?thesis by (simp add: lru_get_def contents_def find_append ekey_fkey)
qed

lemma lru_del_contents:
  assumes inv: "flow_inv ft xs" and x: "xs = as @ e # bs" "k = fkey ft e"
  shows "lru_del k (contents ft xs) = contents ft (as @ bs)"
proof -
  have "fkey ft y \<noteq> k" if "y \<in> set (as @ bs)" for y
    using that x flow_invD(2) [OF inv] fkey_inj [OF inv, of y e] by auto
  then have "filter (\<lambda>x. ekey x \<noteq> k) (contents ft (as @ bs)) = contents ft (as @ bs)"
    by (auto simp: contents_def ekey_fkey filter_id_conv)
  moreover have "lru_del k (contents ft xs) = filter (\<lambda>x. ekey x \<noteq> k) (contents ft (as @ bs))"
    by (simp add: x contents_def lru_del_def ekey_fkey)
  ultimately show ?thesis by simp
qed

lemma drop_entry_contents:
  assumes "flow_inv ft xs" "xs = as @ e # bs" "k = fkey ft e" "s = shard_of ft k"
  shows "flow_inv (drop_entry ft s k e) (as @ bs)" "contents (drop_entry ft s k e) (as @ bs) = lru_del k (contents ft xs)"
    "config (drop_entry ft s k e) = config ft" "shard_of (drop_entry ft s k e) = shard_of ft"
proof -
  show "flow_inv (drop_entry ft s k e) (as @ bs)" by (rule drop_entry_inv [OF assms])
  have "same_store (delete_flow ft s k) (unlinkEntry (delete_flow ft s k) e)"
    by (simp add: same_flows_store)
  moreover have "same_store ft (delete_flow ft s k)" by simp
  ultimately have S: "same_store ft (drop_entry ft s k e)"
    unfolding drop_entry_def by (simp only: same_store_simps(1)) (rule same_store_trans)
  show "contents (drop_entry ft s k e) (as @ bs) = lru_del k (contents ft xs)"
    unfolding contents_same [OF S] lru_del_contents [OF assms(1-3)] ..
  show "config (drop_entry ft s k e) = config ft" "shard_of (drop_entry ft s k e) = shard_of ft"
    using S by (auto simp: same_store_def shard_of_def)
qed

lemma touch_front_contents:
  assumes inv: "flow_inv ft xs" and x: "xs = as @ e # bs"
    and ft': "ft' = moveToFrontLocked (touch_entry ft e now st) e"
  shows "flow_inv ft' (e # as @ bs)"
    "contents ft' (e # as @ bs) = (strip (cells ft e))\<lparr>LastSeen := now, fe_State := st\<rparr> # contents ft (as @ bs)"
    "config ft' = config ft" "strip (cells ft' e) = (strip (cells ft e))\<lparr>LastSeen := now, fe_State := st\<rparr>"
proof -
  let ?t = "touch_entry ft e now st"
  have ok: "evict_ok ?t (as @ e # bs)"
    using flow_invD(1) [OF inv] x by (simp add: evict_ok_def touch_entry_def links_data)
  note mv = moveToFront_list [OF ok, folded ft']
  have k: "fkey ?t = fkey ft" by (rule ext) (simp add: fkey_def touch_entry_def)
  have "flow_inv ?t xs"
    using ok inv unfolding x by (simp add: flow_inv_def k) (simp add: touch_entry_def shard_of_def)
  then show "flow_inv ft' (e # as @ bs)"
    by (rule flow_inv_same [OF _ mv(2) mv(1)]) (simp add: x)
  have e: "e \<notin> set (as @ bs)" using flow_invD(2) [OF inv] x by simp
  show st: "strip (cells ft' e) = (strip (cells ft e))\<lparr>LastSeen := now, fe_State := st\<rparr>"
    using same_flowsD(4) [OF mv(2), of e] by (simp add: touch_entry_def strip_def)
  have "contents ft' (as @ bs) = contents ?t (as @ bs)"
    by (rule contents_same) (rule same_flows_store [OF mv(2)])
  also have "\<dots> = contents ft (as @ bs)" using e by (auto simp: contents_def touch_entry_def)
  finally show "contents ft' (e # as @ bs) = (strip (cells ft e))\<lparr>LastSeen := now, fe_State := st\<rparr> # contents ft (as @ bs)"
    using st by (simp add: contents_def)
  show "config ft' = config ft" using same_flowsD(8) [OF mv(2)] by (simp add: touch_entry_def)
qed

lemma insert_flow_contents:
  assumes inv: "flow_inv ft xs" and k: "k = ekey entry" "s = shard_of ft k" "\<forall>x \<in> set xs. fkey ft x \<noteq> k"
    and I: "insert_flow ft s k entry = (ft', e)"
  shows "flow_inv ft' (e # xs)" "contents ft' (e # xs) = strip entry # contents ft xs" "config ft' = config ft"
proof -
  define ft1 where "ft1 = ft\<lparr>cells := (cells ft)(e := entry), fresh := Suc e, shards := (shards ft)(s := (shards ft s)(k \<mapsto> e))\<rparr>"
  have e: "e = fresh ft" and ft': "ft' = add_count (linkEntryFront ft1 e) 1"
    using I by (auto simp: insert_flow_def Let_def ft1_def)
  note D = flow_invD [OF inv]
  have new: "e \<notin> set xs" using D(5) e by blast
  have F: "same_flows ft1 (linkEntryFront ft1 e)" by simp
  note S = same_flowsD [OF F]
  have key: "fkey ft' y = (if y = e then k else fkey ft y)" for y
    using S(1) [of y] by (simp add: fkey_def ft' add_count_def ft1_def k(1) ekey_def)
  have "ft_hash ft' = ft_hash ft" using S(9) by (simp add: ft' add_count_def ft1_def)
  then have sh: "shard_of ft' = shard_of ft" by (intro ext) (simp add: shard_of_def)
  have "evict_ok ft1 xs" using D(1) new by (simp add: evict_ok_def ft1_def)
  from linkEntryFront_list [OF this new] have ok: "evict_ok ft' (e # xs)"
    by (simp add: ft' add_count_def evict_ok_def)
  show "flow_inv ft' (e # xs)"
  proof (rule flow_invI [OF ok])
    fix s' k' y
    have "shards ft' s' k' = (if s' = s \<and> k' = k then Some e else shards ft s' k')"
      using S(5) by (simp add: ft' add_count_def ft1_def)
    then show "shards ft' s' k' = Some y \<longleftrightarrow> y \<in> set (e # xs) \<and> k' = fkey ft' y \<and> s' = shard_of ft' k'"
      using D(3) [of s' k' y] k(2,3) new by (auto simp: key sh)
  next
    show "flowCount ft' = int (length (e # xs))" using D(4) S(7) by (simp add: ft' add_count_def ft1_def)
    show "y < fresh ft'" if "y \<in> set (e # xs)" for y
      using that D(5) [of y] e S(6) by (auto simp: ft' add_count_def ft1_def)
  qed
  have "strip (cells ft' y) = (if y = e then strip entry else strip (cells ft y))" for y
    using S(4) [of y] by (simp add: ft' add_count_def ft1_def)
  then show "contents ft' (e # xs) = strip entry # contents ft xs"
    using new by (auto simp: contents_def)
  show "config ft' = config ft" using S(8) by (simp add: ft' add_count_def ft1_def)
qed

text \<open>The simulation relation: the table satisfies the invariant for some list of cells, and the specification's list is
  their contents.\<close>

definition models :: "FlowTable \<Rightarrow> FlowTableConfig \<Rightarrow> FlowEntry list \<Rightarrow> bool" where
  "models ft c l \<longleftrightarrow> config ft = c \<and> MaxFlows c \<ge> 1 \<and> (\<exists>xs. flow_inv ft xs \<and> l = contents ft xs)"

definition indexed :: "FlowTable \<Rightarrow> FlowKey \<Rightarrow> fref \<Rightarrow> bool" where
  "indexed ft k e \<longleftrightarrow> shards ft (shard_of ft k) k = Some e"

lemma indexedI: "flow_inv ft xs \<Longrightarrow> e \<in> set xs \<Longrightarrow> ekey (strip (cells ft e)) = k \<Longrightarrow> indexed ft k e"
  unfolding indexed_def flow_invD(3) by (simp add: ekey_fkey)

lemma create_flow_models:
  assumes M: "models ft c l" and no: "lru_get (fst (NormalizeFlowKey f)) l = None"
  shows "\<exists>ft' e. create_flow (\<lambda>_ _. True) ft f cr st now = Some (ft', e, snd (NormalizeFlowKey f), snd (snd (lru_create c f cr st now l))) \<and>
    models ft' c (fst (lru_create c f cr st now l)) \<and>
    map_option (\<lambda>x. strip (cells ft' x)) e = fst (snd (lru_create c f cr st now l)) \<and>
    pred_option (indexed ft' (fst (NormalizeFlowKey f))) e"
proof -
  obtain key r where K: "NormalizeFlowKey f = (key, r)" by (cases "NormalizeFlowKey f")
  obtain xs where inv: "flow_inv ft xs" and l: "l = contents ft xs" and c: "config ft = c" "MaxFlows c \<ge> 1"
    using M by (auto simp: models_def)
  let ?s = "shard_of ft key" and ?ys = "take (nat (MaxFlows c) - 1) xs"
  obtain ft1 where mr: "make_room (\<lambda>_ _. True) 0 ?s ft = Some ft1" and i1: "flow_inv ft1 ?ys" and S: "same_store ft ft1"
    using make_room_uncontended [OF inv] c by metis
  obtain ft2 e where ins: "insert_flow ft1 ?s key (new_entry f st now) = (ft2, e)" by (cases "insert_flow ft1 ?s key (new_entry f st now)")
  have "shards ft ?s key = None" using no lru_get_contents [OF inv refl, of key] l K by simp
  then have "\<forall>x \<in> set xs. fkey ft x \<noteq> key" using flow_invD(3) [OF inv] by (metis option.distinct(1))
  moreover have "fkey ft1 x = fkey ft x" "shard_of ft1 = shard_of ft" "config ft1 = c" for x
  proof -
    have "ekey (strip (cells ft1 x)) = ekey (strip (cells ft x))" using S by (simp add: same_store_def)
    then show "fkey ft1 x = fkey ft x" by (simp add: ekey_fkey)
  qed (use S c in \<open>auto simp: same_store_def shard_of_def\<close>)
  ultimately have pre: "key = ekey (new_entry f st now)" "?s = shard_of ft1 key" "\<forall>x \<in> set ?ys. fkey ft1 x \<noteq> key" "config ft1 = c"
    by (auto simp: K ekey_def new_entry_def dest: in_set_takeD)
  note I = insert_flow_contents [OF i1 pre(1-3) ins]
  have x: "strip (cells ft2 e) = new_entry f st now"
    using I(2) by (simp add: contents_def strip_def new_entry_def)
  moreover have "indexed ft2 key e"
    by (rule indexedI [OF I(1)]) (simp_all add: x ekey_def new_entry_def K)
  moreover have "contents ft2 (e # ?ys) = new_entry f st now # take (nat (MaxFlows c) - 1) l"
    unfolding I(2) contents_same [OF S] l by (simp add: contents_def take_map strip_def new_entry_def)
  ultimately show ?thesis
    using mr ins I(1,3) M c pre(4)
    by (auto simp: create_flow_def lru_create_def K models_def new_entry_def)
qed

lemma lru_get_del: "lru_get k (lru_del k l) = None"
  by (auto simp: lru_get_def lru_del_def find_None_iff)

lemma drop_entry_models:
  assumes "models ft c l" "shards ft (shard_of ft k) k = Some e"
  shows "models (drop_entry ft (shard_of ft k) k e) c (lru_del k l)"
proof -
  obtain xs where inv: "flow_inv ft xs" and l: "l = contents ft xs" using assms(1) by (auto simp: models_def)
  obtain as bs where x: "xs = as @ e # bs" "k = fkey ft e" using flow_inv_lookup [OF inv assms(2)] by metis
  note D = drop_entry_contents [OF inv x refl]
  show ?thesis using assms(1) D unfolding models_def l by metis
qed

lemma touch_front_models:
  assumes "models ft c l" "shards ft (shard_of ft k) k = Some e"
  shows "models (moveToFrontLocked (touch_entry ft e now st) e) c
      ((strip (cells ft e))\<lparr>LastSeen := now, fe_State := st\<rparr> # lru_del k l)"
    "strip (cells (moveToFrontLocked (touch_entry ft e now st) e) e) = (strip (cells ft e))\<lparr>LastSeen := now, fe_State := st\<rparr>"
    "indexed (moveToFrontLocked (touch_entry ft e now st) e) k e"
proof -
  obtain xs where inv: "flow_inv ft xs" and l: "l = contents ft xs" using assms(1) by (auto simp: models_def)
  obtain as bs where x: "xs = as @ e # bs" "k = fkey ft e" using flow_inv_lookup [OF inv assms(2)] by metis
  note T = touch_front_contents [OF inv x(1) refl, of now st]
  have "lru_del k l = contents ft (as @ bs)" unfolding l by (rule lru_del_contents [OF inv x])
  then show "models (moveToFrontLocked (touch_entry ft e now st) e) c
      ((strip (cells ft e))\<lparr>LastSeen := now, fe_State := st\<rparr> # lru_del k l)"
    using assms(1) T(1-3) unfolding models_def by metis
  show "strip (cells (moveToFrontLocked (touch_entry ft e now st) e) e) = (strip (cells ft e))\<lparr>LastSeen := now, fe_State := st\<rparr>"
    by (rule T(4))
  show "indexed (moveToFrontLocked (touch_entry ft e now st) e) k e"
  proof (rule indexedI [OF T(1)])
    show "ekey (strip (cells (moveToFrontLocked (touch_entry ft e now st) e) e)) = k"
      unfolding T(4) x(2) by (simp add: fkey_def ekey_def strip_def)
  qed simp
qed

lemma models_get:
  assumes "models ft c l"
  shows "lru_get k l = map_option (\<lambda>e. strip (cells ft e)) (shards ft (shard_of ft k) k)" "config ft = c"
  using assms lru_get_contents [OF _ refl] by (auto simp: models_def)

lemma Lookup_models:
  assumes M: "models ft c l"
  shows "\<exists>ft' e. Lookup (\<lambda>_ _. True) ft f cr st now = Some (ft', e, snd (NormalizeFlowKey f), snd (snd (lru_Lookup c f cr st now l))) \<and>
    models ft' c (fst (lru_Lookup c f cr st now l)) \<and>
    map_option (\<lambda>x. strip (cells ft' x)) e = fst (snd (lru_Lookup c f cr st now l)) \<and>
    pred_option (indexed ft' (fst (NormalizeFlowKey f))) e"
proof -
  obtain k r where K: "NormalizeFlowKey f = (k, r)" by (cases "NormalizeFlowKey f")
  note G = models_get [OF M]
  show ?thesis
  proof (cases "shards ft (shard_of ft k) k")
    case None
    then have "lru_get (fst (NormalizeFlowKey f)) l = None" by (simp add: G(1) K)
    from create_flow_models [OF M this, of cr st now] None show ?thesis
      by (simp add: Lookup_def lru_Lookup_def K G(1))
  next
    case (Some e)
    have g: "lru_get k l = Some (strip (cells ft e))" by (simp add: G(1) Some)
    show ?thesis
    proof (cases "isEntryExpired c (cells ft e) now")
      case True
      have "lru_get (fst (NormalizeFlowKey f)) (lru_del k l) = None" by (simp add: K lru_get_del)
      from create_flow_models [OF drop_entry_models [OF M Some] this, of cr st now] True Some g show ?thesis
        by (simp add: Lookup_def lru_Lookup_def K G(2))
    next
      case False
      with touch_front_models [OF M Some] Some g show ?thesis
        by (simp add: Lookup_def lru_Lookup_def K G(2) Let_def)
    qed
  qed
qed

lemma UpdateState_models:
  assumes M: "models ft c l"
  shows "models (fst (UpdateState ft f st now)) c (fst (lru_Update c f st now l))"
    "snd (UpdateState ft f st now) = snd (lru_Update c f st now l)"
  using models_get(1) [OF M, of "fst (NormalizeFlowKey f)"] models_get(2) [OF M] M drop_entry_models [OF M] touch_front_models [OF M]
  by (auto simp: UpdateState_def lru_Update_def Let_def split: option.splits)

lemma RemoveFlow_models:
  assumes M: "models ft c l"
  shows "models (fst (RemoveFlow ft k)) c (lru_del k l)" "snd (RemoveFlow ft k) \<longleftrightarrow> lru_get k l \<noteq> None"
proof -
  have "lru_del k l = l" if "lru_get k l = None"
    using that by (auto simp: lru_get_def lru_del_def find_None_iff filter_id_conv)
  then show "models (fst (RemoveFlow ft k)) c (lru_del k l)" "snd (RemoveFlow ft k) \<longleftrightarrow> lru_get k l \<noteq> None"
    using models_get(1) [OF M, of k] models_get(2) [OF M] M drop_entry_models [OF M]
    by (auto simp: RemoveFlow_def Let_def split: option.splits)
qed

text \<open>The sweep, on the keys of its visits.\<close>

definition stale :: "FlowTableConfig \<Rightarrow> gotime \<Rightarrow> FlowEntry \<Rightarrow> bool" where
  "stale c now x \<longleftrightarrow> isEntryExpired c x now \<or> fe_State x = FlowStateClosed"

definition lru_expire :: "FlowTableConfig \<Rightarrow> FlowKey list \<Rightarrow> gotime \<Rightarrow> FlowEntry list \<Rightarrow> FlowEntry list" where
  "lru_expire c ks now l = filter (\<lambda>x. \<not> (ekey x \<in> set ks \<and> stale c now x)) l"

lemma models_keys: "models ft c l \<Longrightarrow> distinct (map ekey l)"
proof -
  assume "models ft c l"
  then obtain xs where inv: "flow_inv ft xs" and l: "l = contents ft xs" by (auto simp: models_def)
  have "inj_on (fkey ft) (set xs)" using fkey_inj [OF inv] by (rule inj_onI)
  moreover have "map ekey l = map (fkey ft) xs" by (simp add: l contents_def ekey_fkey comp_def)
  ultimately show "distinct (map ekey l)" using flow_invD(2) [OF inv] by (simp add: distinct_map)
qed

lemma length_lru_del: "distinct (map ekey l) \<Longrightarrow> x \<in> set l \<Longrightarrow> length (lru_del (ekey x) l) = length l - 1"
proof (induction l)
  case (Cons y l)
  show ?case
  proof (cases "x = y")
    case True
    then have "\<forall>z \<in> set l. ekey z \<noteq> ekey x" using Cons.prems(1) by (auto simp: image_iff)
    then have "filter (\<lambda>z. ekey z \<noteq> ekey x) l = l" by (simp add: filter_id_conv)
    with True show ?thesis by (simp add: lru_del_def)
  next
    case False
    then have "x \<in> set l" "ekey y \<noteq> ekey x" using Cons.prems by auto
    with Cons show ?thesis by (cases l) (auto simp: lru_del_def)
  qed
qed simp

lemma lru_expire_step:
  assumes "distinct (map ekey l)"
  shows "lru_get k l = Some x \<Longrightarrow> stale c now x \<Longrightarrow> lru_expire c (k # ks) now l = lru_expire c ks now (lru_del k l)"
    and "lru_get k l = Some x \<Longrightarrow> \<not> stale c now x \<Longrightarrow> lru_expire c (k # ks) now l = lru_expire c ks now l"
    and "lru_get k l = None \<Longrightarrow> lru_expire c (k # ks) now l = lru_expire c ks now l"
    and "lru_get k l = Some x \<Longrightarrow> length (lru_del k l) = length l - 1 \<and> l \<noteq> []"
proof -
  have only: "y = x" if "lru_get k l = Some x" "y \<in> set l" "ekey y = k" for x y
  proof -
    have "x \<in> set l" "ekey x = k" using that(1) by (auto simp: lru_get_def find_Some_iff)
    then show ?thesis using that assms by (metis distinct_map inj_onD)
  qed
  show "lru_expire c (k # ks) now l = lru_expire c ks now (lru_del k l)" if "lru_get k l = Some x" "stale c now x"
    using only [OF that(1)] that(2) by (auto simp: lru_expire_def lru_del_def intro!: filter_cong)
  show "lru_expire c (k # ks) now l = lru_expire c ks now l" if "lru_get k l = Some x" "\<not> stale c now x"
    using only [OF that(1)] that(2) by (auto simp: lru_expire_def intro!: filter_cong)
  show "lru_expire c (k # ks) now l = lru_expire c ks now l" if "lru_get k l = None"
    using that by (auto simp: lru_expire_def lru_get_def find_None_iff intro!: filter_cong)
  show "length (lru_del k l) = length l - 1 \<and> l \<noteq> []" if "lru_get k l = Some x"
  proof -
    have "x \<in> set l" "ekey x = k" using that by (auto simp: lru_get_def find_Some_iff)
    then show ?thesis using length_lru_del [OF assms] by (cases l) auto
  qed
qed

lemma shard_of_drop [simp]: "shard_of (drop_entry ft s k e) = shard_of ft"
  using same_flowsD(9) [OF list_ops_frame(1), of "delete_flow ft s k" e]
  by (intro ext) (simp add: drop_entry_def add_count_def shard_of_def delete_flow_def)

lemma lru_expire_length: "length (lru_expire c ks now l) \<le> length l"
  by (simp add: lru_expire_def)

lemma expire_visits_models:
  assumes "models ft c l"
  shows "models (fst (expire_visits (map (\<lambda>k. (shard_of ft k, k)) ks) now ft n)) c (lru_expire c ks now l) \<and>
    snd (expire_visits (map (\<lambda>k. (shard_of ft k, k)) ks) now ft n) = n + (length l - length (lru_expire c ks now l))"
  using assms
proof (induction ks arbitrary: ft l n)
  case Nil
  then show ?case by (simp add: lru_expire_def)
next
  case (Cons k ks)
  note M = Cons.prems and G = models_get [OF Cons.prems] and E = lru_expire_step [OF models_keys [OF Cons.prems]]
  show ?case
  proof (cases "shards ft (shard_of ft k) k")
    case None
    then show ?thesis using Cons.IH [OF M, of n] E(3) [of k] G(1) [of k] by simp
  next
    case (Some e)
    then have g: "lru_get k l = Some (strip (cells ft e))" using G(1) [of k] by simp
    have st: "stale c now (strip (cells ft e)) \<longleftrightarrow>
       now - LastSeen (cells ft e) > GetTimeout (config ft) (flow_Proto (fe_Flow (cells ft e))) \<or> fe_State (cells ft e) = FlowStateClosed"
      using G(2) by (simp add: stale_def) (simp add: isEntryExpired_def)
    show ?thesis
    proof (cases "stale c now (strip (cells ft e))")
      case True
      note IH = Cons.IH [OF drop_entry_models [OF M Some], of "Suc n"]
      have visit: "expire_visits (map (\<lambda>k. (shard_of ft k, k)) (k # ks)) now ft n =
          expire_visits (map (\<lambda>k. (shard_of ft k, k)) ks) now (drop_entry ft (shard_of ft k) k e) (Suc n)"
        using True Some st by simp
      have "Suc n + (length (lru_del k l) - length (lru_expire c ks now (lru_del k l))) =
          n + (length l - length (lru_expire c ks now (lru_del k l)))"
        using E(4) [OF g] lru_expire_length [of c ks now "lru_del k l"] by (cases l) auto
      with IH show ?thesis unfolding visit E(1) [OF g True] by simp
    next
      case False
      then show ?thesis using Cons.IH [OF M, of n] E(2) [OF g False] Some st by simp
    qed
  qed
qed

section \<open>Runs\<close>

datatype flow_op = FLookup Flow bool FlowState gotime | FUpdate Flow FlowState gotime | FRemove FlowKey
  | FExpire "FlowKey list" gotime

datatype flow_out = OLookup "FlowEntry option" bool bool | OBool bool | OCount nat

fun flow_exec :: "FlowTable \<Rightarrow> flow_op \<Rightarrow> (FlowTable \<times> flow_out) option" where
  "flow_exec ft (FLookup f cr st now) = (case Lookup (\<lambda>_ _. True) ft f cr st now of
     None \<Rightarrow> None
   | Some (ft', e, r, new) \<Rightarrow> Some (ft', OLookup (map_option (\<lambda>x. strip (cells ft' x)) e) r new))"
| "flow_exec ft (FUpdate f st now) = (case UpdateState ft f st now of (ft', b) \<Rightarrow> Some (ft', OBool b))"
| "flow_exec ft (FRemove k) = (case RemoveFlow ft k of (ft', b) \<Rightarrow> Some (ft', OBool b))"
| "flow_exec ft (FExpire ks now) =
     (case ExpireOldFlows (map (\<lambda>k. (shard_of ft k, k)) ks) ft now of (ft', n) \<Rightarrow> Some (ft', OCount n))"

fun flow_run :: "FlowTable \<Rightarrow> flow_op list \<Rightarrow> (FlowTable \<times> flow_out list) option" where
  "flow_run ft [] = Some (ft, [])"
| "flow_run ft (op # ops) = do {
     (ft1, out) \<leftarrow> flow_exec ft op;
     (ft2, outs) \<leftarrow> flow_run ft1 ops;
     Some (ft2, out # outs) }"

fun lru_exec :: "FlowTableConfig \<Rightarrow> FlowEntry list \<Rightarrow> flow_op \<Rightarrow> FlowEntry list \<times> flow_out" where
  "lru_exec c l (FLookup f cr st now) =
     (case lru_Lookup c f cr st now l of (l', x, new) \<Rightarrow> (l', OLookup x (snd (NormalizeFlowKey f)) new))"
| "lru_exec c l (FUpdate f st now) = (case lru_Update c f st now l of (l', b) \<Rightarrow> (l', OBool b))"
| "lru_exec c l (FRemove k) = (lru_del k l, OBool (lru_get k l \<noteq> None))"
| "lru_exec c l (FExpire ks now) = (lru_expire c ks now l, OCount (length l - length (lru_expire c ks now l)))"

fun lru_run :: "FlowTableConfig \<Rightarrow> FlowEntry list \<Rightarrow> flow_op list \<Rightarrow> FlowEntry list \<times> flow_out list" where
  "lru_run c l [] = (l, [])"
| "lru_run c l (op # ops) =
     (case lru_exec c l op of (l1, out) \<Rightarrow> case lru_run c l1 ops of (l2, outs) \<Rightarrow> (l2, out # outs))"

lemma flow_exec_models:
  assumes M: "models ft c l"
  shows "\<exists>ft'. flow_exec ft op = Some (ft', snd (lru_exec c l op)) \<and> models ft' c (fst (lru_exec c l op))"
proof (cases op)
  case (FLookup f cr st now)
  then show ?thesis using Lookup_models [OF M, of f cr st now] by (auto split: prod.splits)
next
  case (FUpdate f st now)
  then show ?thesis using UpdateState_models [OF M, of f st now] by (auto split: prod.splits)
next
  case (FRemove k)
  then show ?thesis using RemoveFlow_models [OF M, of k] by (auto split: prod.splits)
next
  case (FExpire ks now)
  then show ?thesis using expire_visits_models [OF M, of ks now 0] by (auto simp: ExpireOldFlows_def split: prod.splits)
qed

lemma flow_run_models:
  "models ft c l \<Longrightarrow> \<exists>ft'. flow_run ft ops = Some (ft', snd (lru_run c l ops)) \<and> models ft' c (fst (lru_run c l ops))"
proof (induction ops arbitrary: ft l)
  case (Cons op ops)
  obtain ft1 where 1: "flow_exec ft op = Some (ft1, snd (lru_exec c l op))" "models ft1 c (fst (lru_exec c l op))"
    using flow_exec_models [OF Cons.prems] by blast
  obtain ft2 where "flow_run ft1 ops = Some (ft2, snd (lru_run c (fst (lru_exec c l op)) ops))"
    "models ft2 c (fst (lru_run c (fst (lru_exec c l op)) ops))"
    using Cons.IH [OF 1(2)] by blast
  with 1 show ?case by (auto split: prod.splits)
qed auto

lemma NewFlowTable_models: "models (NewFlowTable hsh mem c) (config (NewFlowTable hsh mem c)) []"
  using NewFlowTable_inv [of hsh mem c] by (auto simp: models_def contents_def NewFlowTable_def)

text \<open>C7. The connection table is an LRU cache: starting empty, every sequence of lookups, state updates, removals
  and sweeps terminates, also the eviction loop of a full table, and answers what the specification on the plain
  list of entries answers; the pointer list, the shards' maps and the counter agree at every moment.\<close>

theorem flow_table_refines_lru:
  "\<exists>ft. flow_run (NewFlowTable hsh mem c) ops = Some (ft, snd (lru_run (config (NewFlowTable hsh mem c)) [] ops)) \<and>
     models ft (config (NewFlowTable hsh mem c)) (fst (lru_run (config (NewFlowTable hsh mem c)) [] ops))"
  by (rule flow_run_models [OF NewFlowTable_models])

lemma models_count:
  assumes "models ft c l"
  shows "Len ft = int (length l)" "card {(s, k). shards ft s k \<noteq> None} = length l"
proof -
  obtain xs where inv: "flow_inv ft xs" and l: "l = contents ft xs" using assms by (auto simp: models_def)
  show "Len ft = int (length l)" using flow_invD(4) [OF inv] by (simp add: Len_def l contents_def)
  have "{(s, k). shards ft s k \<noteq> None} = (\<lambda>e. (shard_of ft (fkey ft e), fkey ft e)) ` set xs"
    using flow_invD(3) [OF inv] by auto
  moreover have "inj_on (\<lambda>e. (shard_of ft (fkey ft e), fkey ft e)) (set xs)"
    using fkey_inj [OF inv] by (auto intro: inj_onI)
  ultimately show "card {(s, k). shards ft s k \<noteq> None} = length l"
    using flow_invD(2) [OF inv] by (simp add: card_image distinct_card l contents_def)
qed

lemma lru_del_length: "length (lru_del k l) \<le> length l"
  by (simp add: lru_del_def)

lemma lru_hit_length: "lru_get k l = Some x \<Longrightarrow> Suc (length (lru_del k l)) \<le> length l"
proof -
  assume "lru_get k l = Some x"
  then have x: "x \<in> set l" "ekey x = k" by (auto simp: lru_get_def find_Some_iff)
  then show ?thesis unfolding lru_del_def by (simp add: Suc_le_eq) (rule length_filter_less, auto)
qed

lemma lru_exec_bound:
  assumes M: "MaxFlows c \<ge> 1" "int (length l) \<le> MaxFlows c"
  shows "int (length (fst (lru_exec c l op))) \<le> MaxFlows c"
proof -
  have cr: "int (length (fst (lru_create c f b st now l'))) \<le> MaxFlows c" if "length l' \<le> length l" for f b st now l'
    using M that by (auto simp: lru_create_def min_def)
  have hit: "int (length (x' # lru_del k l)) \<le> MaxFlows c" if "lru_get k l = Some x" for x' x k
    using lru_hit_length [OF that] M by simp
  have del: "int (length (lru_del k l)) \<le> MaxFlows c" for k
    using lru_del_length [of k l] M by simp
  show ?thesis
  proof (cases op)
    case (FLookup f b st now)
    have "int (length (fst (lru_Lookup c f b st now l))) \<le> MaxFlows c"
      using cr [OF order_refl] cr [OF lru_del_length] hit
      by (simp add: lru_Lookup_def Let_def split: option.split)
    then show ?thesis by (auto simp: FLookup split: prod.splits)
  next
    case (FUpdate f st now)
    have "int (length (fst (lru_Update c f st now l))) \<le> MaxFlows c"
      using M(2) del hit by (simp add: lru_Update_def Let_def split: option.split)
    then show ?thesis by (auto simp: FUpdate split: prod.splits)
  next
    case (FRemove k)
    with del show ?thesis by simp
  next
    case (FExpire ks now)
    with M(2) lru_expire_length [of c ks now l] show ?thesis by simp
  qed
qed

lemma lru_run_bound:
  "MaxFlows c \<ge> 1 \<Longrightarrow> int (length l) \<le> MaxFlows c \<Longrightarrow> int (length (fst (lru_run c l ops))) \<le> MaxFlows c"
proof (induction ops arbitrary: l)
  case (Cons op ops)
  from Cons.IH [OF Cons.prems(1) lru_exec_bound [OF Cons.prems, of op]] show ?case by (auto split: prod.splits)
qed simp


text \<open>An IPv4 flow for the examples.\<close>

definition example_flow :: "byte \<Rightarrow> u16 \<Rightarrow> Flow" where
  "example_flow b port = \<lparr>SrcIP = replicate 15 0 @ [b], DstIP = replicate 15 0 @ [200], SrcPort = port, DstPort = 443,
     flow_Proto = ProtoTCP, IPv6 = False\<rparr>"


section \<open>Both directions of a connection\<close>

definition reverse :: "Flow \<Rightarrow> Flow" where
  "reverse f = f\<lparr>SrcIP := DstIP f, DstIP := SrcIP f, SrcPort := DstPort f, DstPort := SrcPort f\<rparr>"

text \<open>The addresses the parser produces: sixteen bytes, the first twelve of them alike in both for IPv4.\<close>

definition proper_flow :: "Flow \<Rightarrow> bool" where
  "proper_flow f \<longleftrightarrow> length (SrcIP f) = 16 \<and> length (DstIP f) = 16 \<and>
     (\<not> IPv6 f \<longrightarrow> take 12 (SrcIP f) = take 12 (DstIP f))"

lemma compare_bytes_flip: "length a = length b \<Longrightarrow> compare_bytes b a = - compare_bytes a b"
  by (induction a b rule: list_induct2) auto

lemma compare_bytes_0: "length a = length b \<Longrightarrow> compare_bytes a b = 0 \<longleftrightarrow> a = b"
  by (induction a b rule: list_induct2) auto

lemma NormalizeFlowKey_reverse:
  assumes "proper_flow f"
  shows "fst (NormalizeFlowKey (reverse f)) = fst (NormalizeFlowKey f)"
proof -
  let ?c = "compareIPs (SrcIP f) (DstIP f) (IPv6 f)"
  have flip: "compareIPs (DstIP f) (SrcIP f) (IPv6 f) = - ?c"
    using assms compare_bytes_flip [of "SrcIP f" "DstIP f"] compare_bytes_flip [of "drop 12 (SrcIP f)" "drop 12 (DstIP f)"]
    by (simp add: proper_flow_def compareIPs_def)
  have eq: "SrcIP f = DstIP f" if "?c = 0"
  proof (cases "IPv6 f")
    case True
    then show ?thesis using that assms compare_bytes_0 [of "SrcIP f" "DstIP f"] by (simp add: proper_flow_def compareIPs_def)
  next
    case False
    then have "drop 12 (SrcIP f) = drop 12 (DstIP f)"
      using that assms compare_bytes_0 [of "drop 12 (SrcIP f)" "drop 12 (DstIP f)"] by (simp add: proper_flow_def compareIPs_def)
    then show ?thesis using assms False by (metis append_take_drop_id proper_flow_def)
  qed
  show ?thesis
    using flip eq by (auto simp: NormalizeFlowKey_def reverse_def Let_def)
qed

lemma lru_Lookup_fresh:
  assumes "fst (snd (lru_Lookup c f cr st now l)) = Some x"
  shows "LastSeen x = now" "ekey x = fst (NormalizeFlowKey f)"
proof -
  have get: "ekey y = k" if "lru_get k l = Some y" for y k
    using that by (auto simp: lru_get_def find_Some_iff)
  have "LastSeen x = now \<and> ekey x = fst (NormalizeFlowKey f)"
    using assms get [of "fst (NormalizeFlowKey f)"]
    by (auto simp: lru_Lookup_def lru_create_def new_entry_def ekey_def Let_def split: option.splits if_splits)
  then show "LastSeen x = now" "ekey x = fst (NormalizeFlowKey f)" by simp_all
qed



section \<open>Contention on the eviction list\<close>

text \<open>\<open>evictOneLocked\<close> pops its victim and drops \<open>evictMu\<close> before it has the victim's shard; a lookup of the
  victim's flow that holds that shard meanwhile moves the popped entry to the front. Unlinking an entry that is in no
  list resets both ends, so every other entry falls off the list although the maps still hold it.\<close>

lemma popped_entry_move_loses_list:
  assumes "evict_ok ft (xs @ [e])"
  defines "ft' \<equiv> moveToFrontLocked (fst (popOldestEntry ft)) e"
  shows "head_ptr ft' = Some e \<and> tail_ptr ft' = Some e \<and> next_ptr (cells ft' e) = None \<and> prev_ptr (cells ft' e) = None"
proof -
  have p: "fst (popOldestEntry ft) = unlinkEntry ft e" using popOldest_list(1) [OF assms(1)] by simp
  have "next_ptr (cells (unlinkEntry ft e) e) = None" "prev_ptr (cells (unlinkEntry ft e) e) = None"
    by (simp_all add: unlinkEntry_def Let_def set_next_def set_prev_def)
  then show ?thesis
    unfolding ft'_def p moveToFrontLocked_def
    by (simp add: linkEntryFront_def unlinkEntry_def [of "unlinkEntry ft e"] Let_def set_next_def set_prev_def)
qed

text \<open>With the list empty and the table full the loop of \<open>Lookup\<close> finds no victim and never ends, holding its
  shard's lock: the "temporary overshoot" the comment at its end speaks of does not happen.\<close>

lemma evict_empty: "tail_ptr ft = None \<Longrightarrow> evictOneLocked trylock s ft = ft"
proof -
  assume "tail_ptr ft = None"
  then have "evict_attempts trylock s n ft = ft" for n by (cases n) (simp_all add: popOldestEntry_def)
  then show ?thesis by (simp add: evictOneLocked_def)
qed

lemma make_room_diverges:
  assumes "tail_ptr ft = None" "flowCount ft \<ge> MaxFlows (config ft)"
  shows "make_room trylock i s ft = None"
proof -
  have "\<not> (tail_ptr ft = None \<and> flowCount ft \<ge> MaxFlows (config ft))" if "make_room trylock i s ft = Some ft'" for ft'
  proof (rule make_room.raw_induct [where P = "\<lambda>t i s ft y. \<not> (tail_ptr ft = None \<and> flowCount ft \<ge> MaxFlows (config ft))",
        OF _ that], goal_cases)
    case (1 mr trylock i s ft y)
    show ?case
    proof
      assume full: "tail_ptr ft = None \<and> flowCount ft \<ge> MaxFlows (config ft)"
      then have "mr trylock (Suc i) s ft = Some y" using 1(2) by (simp add: evict_empty)
      from 1(1) [OF this] full show False by blast
    qed
  qed
  with assms show ?thesis by (cases "make_room trylock i s ft") auto
qed

end
