(* ===== verification/DataPacket.thy ===== *)
theory DataPacket
  imports Session Netip AclPacket
begin

text \<open>
  The packets of the data plane: the header of \<open>internal/dataplane/packet.go\<close> and, from
  \<open>internal/dataplane/dispatcher.go\<close>, the addresses read from IP packets and socket addresses and the rejections
  (TCP reset, ICMP administratively prohibited) answered to the local host. The lemmas show that the encodings
  and the packet parser of the policy agree: a header reads back, a reset parses as the end of the reversed flow
  and an ICMP rejection as an error about the rejected flow.
\<close>

section \<open>Packets\<close>

definition HeaderSize :: nat where "HeaderSize = 16"

definition TypeData :: u32 where "TypeData = 0x01"
definition TypeHandshakeInit :: u32 where "TypeHandshakeInit = 0x02"
definition TypeHandshakeResp :: u32 where "TypeHandshakeResp = 0x03"
definition TypeKeepalive :: u32 where "TypeKeepalive = 0x04"
definition TypeNATProbe :: u32 where "TypeNATProbe = 0x05"

lemmas packet_types = TypeData_def TypeHandshakeInit_def TypeHandshakeResp_def TypeKeepalive_def TypeNATProbe_def

definition buildDataPacket :: "u64 \<Rightarrow> bytes \<Rightarrow> bytes" where
  "buildDataPacket nonce ct =
     (let buf = replicate (HeaderSize + length ct) 0;
          buf = PutUint32 buf 0 TypeData;
          buf = PutUint32 buf 4 0;
          buf = PutUint64 buf 8 nonce
      in put_bytes buf HeaderSize ct)"

definition parseHeader :: "bytes \<Rightarrow> (u32 \<times> u32 \<times> u64) option" where
  "parseHeader hdr = do {
     pktType \<leftarrow> byte_slice hdr 0 4 \<bind> BE_Uint32;
     senderIdx \<leftarrow> byte_slice hdr 4 8 \<bind> BE_Uint32;
     nonce \<leftarrow> byte_slice hdr 8 16 \<bind> BE_Uint64;
     Some (pktType, senderIdx, nonce)
   }"

definition extractDestIP :: "bytes \<Rightarrow> Addr option" where
  "extractDestIP pkt =
     (if length pkt < 1 then None
      else if drop_bit 4 (pkt ! 0) = 4 then
        (if length pkt < 20 then None else Some (AddrFrom4 (take 4 (drop 16 pkt))))
      else if drop_bit 4 (pkt ! 0) = 6 then
        (if length pkt < 40 then None else Some (AddrFrom16 (take 16 (drop 24 pkt))))
      else None)"

definition extractSrcIP :: "bytes \<Rightarrow> Addr option" where
  "extractSrcIP pkt =
     (if length pkt < 1 then None
      else if drop_bit 4 (pkt ! 0) = 4 then
        (if length pkt < 20 then None else Some (AddrFrom4 (take 4 (drop 12 pkt))))
      else if drop_bit 4 (pkt ! 0) = 6 then
        (if length pkt < 40 then None else Some (AddrFrom16 (take 16 (drop 8 pkt))))
      else None)"

text \<open>
  A \<open>net.Addr\<close> is the address of a UDP socket, an IP of any length with port and zone, or an address of another
  kind of connection, of which the code only uses the text: here the result of parsing it.
\<close>

datatype net_addr = UDPAddr bytes u16 string | OtherAddr "AddrPort option"

fun AddrFromSlice :: "bytes \<Rightarrow> Addr" where
  "AddrFromSlice b = (if length b = 4 then AddrFrom4 b else if length b = 16 then AddrFrom16 b else zero_Addr)"

fun WithZone :: "Addr \<Rightarrow> string \<Rightarrow> Addr" where
  "WithZone (Addr6 a _) z = Addr6 a z"
| "WithZone a z = a"

fun AsSlice :: "Addr \<Rightarrow> bytes" where
  "AsSlice (Addr0 _) = []"
| "AsSlice (Addr4 a) = be_bytes 4 (unat a)"
| "AsSlice (Addr6 a _) = be_bytes 16 (unat a)"

definition UDPAddrFromAddrPort :: "AddrPort \<Rightarrow> net_addr" where
  "UDPAddrFromAddrPort ap = UDPAddr (AsSlice (ap_addr ap)) (ap_port ap) (Zone (ap_addr ap))"

definition unmap_port :: "AddrPort \<Rightarrow> AddrPort" where
  "unmap_port ap = \<lparr>ap_addr = Unmap (ap_addr ap), ap_port = ap_port ap\<rparr>"

fun addrToAddrPort :: "net_addr \<Rightarrow> AddrPort option" where
  "addrToAddrPort (UDPAddr ip port z) =
     (let ap = unmap_port \<lparr>ap_addr = WithZone (AddrFromSlice ip) z, ap_port = port\<rparr>
      in if AddrPort_IsValid ap then Some ap else None)"
| "addrToAddrPort (OtherAddr parsed) = map_option unmap_port parsed"

section \<open>Rejections\<close>

definition buildTCPRST :: "Flow \<Rightarrow> bytes" where
  "buildTCPRST flow =
     (let rstFlow = flow\<lparr>SrcIP := DstIP flow, DstIP := SrcIP flow, SrcPort := DstPort flow, DstPort := SrcPort flow\<rparr>;
          tcp = be_bytes 2 (unat (SrcPort rstFlow)) @ be_bytes 2 (unat (DstPort rstFlow)) @
                be_bytes 4 0 @ be_bytes 4 0 @ [0x50, 0x04] @ replicate 6 0
      in if IPv6 flow
         then [0x60, 0x00, 0x00, 0x00] @ be_bytes 2 20 @ [6, 64] @ SrcIP rstFlow @ DstIP rstFlow @ tcp
         else [0x45, 0x00] @ be_bytes 2 40 @ be_bytes 2 0 @ be_bytes 2 0 @ [64, 6] @ [0, 0] @
              take 4 (drop 12 (SrcIP rstFlow)) @ take 4 (drop 12 (DstIP rstFlow)) @ tcp)"

definition buildICMPAdminProhibited :: "Flow \<Rightarrow> bytes \<Rightarrow> bytes" where
  "buildICMPAdminProhibited flow originalPkt =
     (if IPv6 flow
      then (let maxQuoted = 1280 - 40 - 8;
                quotedLen = (if maxQuoted > length originalPkt then length originalPkt else maxQuoted)
            in [0x60, 0x00, 0x00, 0x00] @ be_bytes 2 (unat (of_nat (8 + quotedLen) :: u16)) @ [58, 64] @
               DstIP flow @ SrcIP flow @ [1, 1] @ replicate 6 0 @ take quotedLen originalPkt)
      else (let maxQuoted = 576 - 20 - 8;
                maxQuoted = (if maxQuoted > length originalPkt then length originalPkt else maxQuoted)
            in [0x45, 0x00] @ be_bytes 2 (unat (of_nat (20 + 8 + maxQuoted) :: u16)) @ be_bytes 2 0 @ be_bytes 2 0 @
               [64, 1] @ [0, 0] @ take 4 (drop 12 (DstIP flow)) @ take 4 (drop 12 (SrcIP flow)) @
               [3, 13] @ replicate 6 0 @ take maxQuoted originalPkt))"

section \<open>The wire format\<close>

lemma buildDataPacket_layout:
  "buildDataPacket nonce ct = be_bytes 4 (unat TypeData) @ be_bytes 4 0 @ be_bytes 8 (unat nonce) @ ct"
proof -
  let ?z = "\<lambda>n. replicate n (0 :: byte)"
  have B: "?z (HeaderSize + length ct) = [] @ ?z 4 @ ?z 4 @ ?z 8 @ ?z (length ct)"
    by (simp add: HeaderSize_def flip: replicate_add)
  have 1: "PutUint32 ([] @ ?z 4 @ ?z 4 @ ?z 8 @ ?z (length ct)) 0 TypeData =
      be_bytes 4 (unat TypeData) @ ?z 4 @ ?z 8 @ ?z (length ct)"
    unfolding PutUint32_def by (subst put_bytes_at) auto
  have 2: "PutUint32 (be_bytes 4 (unat TypeData) @ ?z 4 @ ?z 8 @ ?z (length ct)) 4 0 =
      (be_bytes 4 (unat TypeData) @ be_bytes 4 0) @ ?z 8 @ ?z (length ct)"
    unfolding PutUint32_def by (subst put_bytes_at) auto
  have 3: "PutUint64 ((be_bytes 4 (unat TypeData) @ be_bytes 4 0) @ ?z 8 @ ?z (length ct)) 8 nonce =
      (be_bytes 4 (unat TypeData) @ be_bytes 4 0 @ be_bytes 8 (unat nonce)) @ ?z (length ct) @ []"
    unfolding PutUint64_def by (subst put_bytes_at) auto
  show ?thesis
    unfolding buildDataPacket_def Let_def B 1 2 3 by (subst put_bytes_at) (simp_all add: HeaderSize_def)
qed

lemma parseHeader_fields:
  fixes t :: u32 and i :: u32 and n :: u64
  shows "parseHeader (be_bytes 4 (unat t) @ be_bytes 4 (unat i) @ be_bytes 8 (unat n)) = Some (t, i, n)"
  using be_uint_be_bytes [where v = t and n = 4 and s = "[]"] be_uint_be_bytes [where v = i and n = 4 and s = "[]"]
    be_uint_be_bytes [where v = n and n = 8 and s = "[]"]
  by (simp add: parseHeader_def BE_Uint32_def BE_Uint64_def)

lemma parseHeader_total:
  assumes "length hdr = HeaderSize"
  shows "\<exists>t i n. parseHeader hdr = Some (t, i, n)"
  using assms by (simp add: parseHeader_def BE_Uint32_def BE_Uint64_def be_uint_def HeaderSize_def)

text \<open>Sending to an endpoint and reading the sender's address back gives the endpoint, without its mapping.\<close>

lemma AddrFromSlice_AsSlice:
  "Addr_IsValid a \<Longrightarrow> WithZone (AddrFromSlice (AsSlice a)) (Zone a) = a"
proof (cases a)
  case (Addr4 x)
  have "unat x < 256 ^ 4" using unat_bounds(3) [of x] by simp
  then show ?thesis using Addr4 by (simp add: AddrFrom4_def be_nat_be_bytes)
next
  case (Addr6 x z)
  have "unat x < 256 ^ 16" using unat_bounds(5) [of x] by simp
  then show ?thesis using Addr6 by (simp add: AddrFrom16_def be_nat_be_bytes)
qed simp

lemma Unmap_IsValid [simp]: "Addr_IsValid (Unmap a) = Addr_IsValid a"
  by (cases a) auto

lemma addrToAddrPort_UDPAddr:
  assumes "AddrPort_IsValid ep"
  shows "addrToAddrPort (UDPAddrFromAddrPort ep) = Some (unmap_port ep)"
  using assms AddrFromSlice_AsSlice [of "ap_addr ep"]
  by (simp add: UDPAddrFromAddrPort_def AddrPort_IsValid_def unmap_port_def)

section \<open>Rejections parse back\<close>

definition well_formed_flow :: "Flow \<Rightarrow> bool" where
  "well_formed_flow f \<longleftrightarrow> length (SrcIP f) = 16 \<and> length (DstIP f) = 16 \<and>
     (\<not> IPv6 f \<longrightarrow> take 12 (SrcIP f) = replicate 12 0 \<and> take 12 (DstIP f) = replicate 12 0)"

definition reverse_flow :: "Flow \<Rightarrow> Flow" where
  "reverse_flow f = f\<lparr>SrcIP := DstIP f, DstIP := SrcIP f, SrcPort := DstPort f, DstPort := SrcPort f\<rparr>"

lemma v4_flow_addr:
  assumes "well_formed_flow f" "\<not> IPv6 f"
  shows "replicate 12 0 @ take 4 (drop 12 (SrcIP f)) = SrcIP f" "replicate 12 0 @ take 4 (drop 12 (DstIP f)) = DstIP f"
  using assms append_take_drop_id [of 12 "SrcIP f"] append_take_drop_id [of 12 "DstIP f"]
  by (auto simp: well_formed_flow_def)

lemma be_bytes_0: "be_bytes n 0 = replicate n 0"
  by (induction n) (auto simp: replicate_append_same)

lemma replicate_two: "replicate 2 x = [x, x]"
  by (simp add: numeral_2_eq_2)

lemma buildTCPRST_v4:
  assumes "\<not> IPv6 f"
  shows "buildTCPRST f = ipv4_packet 0 40 0 0 64 6 0 (take 4 (drop 12 (DstIP f))) (take 4 (drop 12 (SrcIP f))) []
    (tcp_segment (DstPort f) (SrcPort f) (replicate 8 0) 0x50 0x04 (replicate 6 0))"
  using assms by (simp add: buildTCPRST_def ipv4_packet_def tcp_segment_def Let_def be_bytes_0 replicate_two flip: replicate_add)

lemma buildTCPRST_v6:
  assumes "IPv6 f"
  shows "buildTCPRST f = ipv6_packet [0, 0, 0] 20 64 (DstIP f) (SrcIP f) [] 6
    (tcp_segment (DstPort f) (SrcPort f) (replicate 8 0) 0x50 0x04 (replicate 6 0))"
  using assms by (simp add: buildTCPRST_def ipv6_packet_def tcp_segment_def Let_def be_bytes_0 flip: replicate_add)

lemma ParsePacket_ipv6_plain:
  assumes "length cl = 3" "length src = 16" "length dst = 16"
    and "tp \<in> {ProtoTCP, ProtoUDP, ProtoICMP, ProtoICMPv6}" "payload \<noteq> []"
  shows "ParsePacket (ipv6_packet cl plen hop src dst [] tp payload) =
    parseTransport \<lparr>SrcIP = src, DstIP = dst, SrcPort = 0, DstPort = 0, flow_Proto = tp, IPv6 = True\<rparr> tp payload"
proof -
  let ?pkt = "ipv6_packet cl plen hop src dst [] tp payload"
  let ?flow = "zero_Flow\<lparr>IPv6 := True, SrcIP := src, DstIP := dst\<rparr>"
  note F = ipv6_fields [OF assms(1-3) refl, of plen hop "[]" tp payload]
  have "put_bytes (replicate 16 0) 0 src = src" "put_bytes (replicate 16 0) 0 dst = dst"
    using assms(2,3) by (simp_all add: put_bytes_fits)
  then have "ParsePacket ?pkt = walk_headers ?pkt ?flow 40 (int (unat plen)) tp"
    using F by (simp add: ParsePacket_def parseIPv6_def zero_Flow_def)
  also have "?pkt = ((0x60 # cl) @ be_bytes 2 (unat plen) @ [tp, hop] @ src @ dst) @ payload"
    by (simp add: ipv6_packet_def)
  also have "walk_headers \<dots> ?flow 40 (int (unat plen)) tp = parseTransport (?flow\<lparr>flow_Proto := tp\<rparr>) tp payload"
    using walk_headers_chain [where es = "[]" and pre = "(0x60 # cl) @ be_bytes 2 (unat plen) @ [tp, hop] @ src @ dst"
        and flow = ?flow and offset = 40 and remaining = "int (unat plen)" and tp = tp and payload = payload] assms
    by simp
  finally show ?thesis by (simp add: zero_Flow_def ipv6_packet_def)
qed

lemma tcp_rst_parses:
  assumes "well_formed_flow f" "flow_Proto f = ProtoTCP"
  shows "ParsePacket (buildTCPRST f) = Some (reverse_flow f, KindEnd, None)"
proof -
  let ?seg = "tcp_segment (DstPort f) (SrcPort f) (replicate 8 0) 0x50 0x04 (replicate 6 0)"
  have len: "length (SrcIP f) = 16" "length (DstIP f) = 16" using assms(1) by (auto simp: well_formed_flow_def)
  have seg: "parseTCP g ?seg = Some (g\<lparr>SrcPort := DstPort f, DstPort := SrcPort f\<rparr>, KindEnd, None)" for g
    using parseTCP_segment [of "replicate 8 0" "0x50" "replicate 6 0" g "DstPort f" "SrcPort f" "0x04"]
    by (simp add: tcp_kind_def)
  have "length ?seg \<ge> 4" by (simp add: tcp_segment_def)
  then have "?seg \<noteq> []" by auto
  have R: "reverse_flow f = \<lparr>SrcIP = DstIP f, DstIP = SrcIP f, SrcPort = DstPort f, DstPort = SrcPort f,
      flow_Proto = flow_Proto f, IPv6 = IPv6 f\<rparr>"
    by (cases f) (simp add: reverse_flow_def)
  show ?thesis
  proof (cases "IPv6 f")
    case True
    show ?thesis
      unfolding buildTCPRST_v6 [OF True] using len assms(2) True \<open>?seg \<noteq> []\<close>
      by (subst ParsePacket_ipv6_plain) (simp_all add: seg parseTransport_def ProtoTCP_def R)
  next
    case False
    show ?thesis
      unfolding buildTCPRST_v4 [OF False] using len assms(2) False v4_flow_addr [OF assms(1) False] \<open>length ?seg \<ge> 4\<close>
      by (subst parseIPv4_packet)
        (simp_all add: seg parseTransport_def ProtoTCP_def Let_def zero_Flow_def R)
  qed
qed

lemma parseICMPError_kind: "parseICMPError g t = Some (f, k, e) \<Longrightarrow> k = KindError"
  by (auto simp: parseICMPError_def parseICMPErrorIPv4_def parseICMPErrorIPv6_def accept_def Let_def bind_eq_Some_conv
      split: if_splits)

lemma parseTransport_start:
  assumes "parseTransport g p t = Some (f, KindStart, None)"
  shows "length t \<ge> 4 \<and> p \<in> {ProtoTCP, ProtoUDP, ProtoICMP, ProtoICMPv6} \<and>
    (if p \<in> {ProtoTCP, ProtoUDP}
     then \<exists>sp dp. uint16_at t 0 = Some sp \<and> uint16_at t 2 = Some dp \<and> f = g\<lparr>SrcPort := sp, DstPort := dp\<rparr>
     else f = g)"
  using assms parseICMPError_kind [of g t f KindStart None]
  unfolding parseTransport_def parseTCP_def parseUDP_def parseICMP_def parseICMPv6_def
  by (auto simp: fail_def accept_def Let_def bind_eq_Some_conv protos split: if_splits)

lemma put_v4 [simp]: "length s = 4 \<Longrightarrow> put_bytes (replicate 16 (0::byte)) 12 s = replicate 12 0 @ s"
  by (simp add: put_bytes_def)

lemma put_v6 [simp]: "length s = 16 \<Longrightarrow> put_bytes (replicate 16 (0::byte)) 0 s = s"
  by (simp add: put_bytes_def)

lemma walk_headers_start:
  assumes "walk_headers pkt flow off rem p = Some (f, KindStart, None)"
  shows "\<exists>p' t. parseTransport (flow\<lparr>flow_Proto := p'\<rparr>) p' t = Some (f, KindStart, None) \<and>
    (p \<in> {ProtoTCP, ProtoUDP, ProtoICMP, ProtoICMPv6} \<longrightarrow> p' = p \<and> t = drop off pkt)"
  using assms
proof (induction pkt flow off rem p rule: walk_headers.induct)
  case (1 pkt flow offset rem proto)
  then have nn: "\<not> rem < 0" by (subst (asm) (2) walk_headers.simps) (auto simp: fail_def split: if_splits)
  have E: "ext_header pkt flow offset proto \<noteq> None" using 1(2) nn by (subst (asm) walk_headers.simps) (auto split: option.splits)
  then consider r where "ext_header pkt flow offset proto = Some (Leave r)"
    | n p1 where "ext_header pkt flow offset proto = Some (Skip n p1)" by (metis ext_turn.exhaust option.exhaust)
  then show ?case
  proof cases
    case L: 1
    then have "r = (f, KindStart, None)" using 1(2) nn by (subst (asm) walk_headers.simps) auto
    with L show ?thesis
      by (auto simp: ext_header_def skip_header_def fragment_header_def bind_eq_Some_conv Let_def split: if_splits)
  next
    case S: 2
    then have "proto \<notin> {ProtoTCP, ProtoUDP, ProtoICMP, ProtoICMPv6}"
      by (auto simp: ext_header_def bind_eq_Some_conv Let_def split: if_splits)
    moreover have "walk_headers pkt flow (offset + n) (rem - int n) p1 = Some (f, KindStart, None)"
      using 1(2) nn S by (subst (asm) walk_headers.simps) auto
    ultimately show ?thesis using 1(1) [OF nn S refl] by auto
  qed
qed

lemma start_packet_v6:
  assumes "parseIPv6 pkt = Some (f, KindStart, None)"
  shows "40 \<le> length pkt" "IPv6 f" "SrcIP f = take 16 (drop 8 pkt)" "DstIP f = take 16 (drop 24 pkt)"
    "pkt ! 6 = flow_Proto f \<Longrightarrow> parseTransport \<lparr>SrcIP = take 16 (drop 8 pkt), DstIP = take 16 (drop 24 pkt), SrcPort = 0,
       DstPort = 0, flow_Proto = pkt ! 6, IPv6 = True\<rparr> (pkt ! 6) (drop 40 pkt) = Some (f, KindStart, None)"
proof -
  let ?g = "\<lparr>SrcIP = take 16 (drop 8 pkt), DstIP = take 16 (drop 24 pkt), SrcPort = 0,
     DstPort = 0, flow_Proto = 0, IPv6 = True\<rparr>"
  show len: "40 \<le> length pkt" using assms by (auto simp: parseIPv6_def fail_def Let_def split: if_splits)
  then have B: "byte_at pkt 6 = Some (pkt ! 6)" "byte_at pkt 7 = Some (pkt ! 7)"
    by (auto intro!: byte_at_Some)
  obtain pl where "uint16_at pkt 4 = Some pl" using len by (simp add: uint16_at_def BE_Uint16_def be_uint_def)
  with B assms len have "walk_headers pkt ?g 40 (int (unat pl)) (pkt ! 6) = Some (f, KindStart, None)"
    by (simp add: parseIPv6_def zero_Flow_def Let_def)
  from walk_headers_start [OF this] obtain p' t
    where t: "parseTransport (?g\<lparr>flow_Proto := p'\<rparr>) p' t = Some (f, KindStart, None)"
      "pkt ! 6 \<in> {ProtoTCP, ProtoUDP, ProtoICMP, ProtoICMPv6} \<longrightarrow> p' = pkt ! 6 \<and> t = drop 40 pkt"
    by auto
  note S = parseTransport_start [OF t(1)]
  show "IPv6 f" "SrcIP f = take 16 (drop 8 pkt)" "DstIP f = take 16 (drop 24 pkt)" using S by (auto split: if_splits)
  have p': "flow_Proto f = p'" using S by (auto split: if_splits)
  have "t = drop 40 pkt" if "p' = pkt ! 6"
    using S [THEN conjunct2, THEN conjunct1] t(2) that by simp
  then show "parseTransport \<lparr>SrcIP = take 16 (drop 8 pkt), DstIP = take 16 (drop 24 pkt), SrcPort = 0,
       DstPort = 0, flow_Proto = pkt ! 6, IPv6 = True\<rparr> (pkt ! 6) (drop 40 pkt) = Some (f, KindStart, None)"
    if "pkt ! 6 = flow_Proto f"
    using t(1) that unfolding p' by simp
qed

lemma parseIPv4_start:
  assumes "parseIPv4 pkt = Some (f, KindStart, None)"
  shows "\<not> IPv6 f" "20 \<le> length pkt" "5 \<le> unat (pkt ! 0 AND 0x0F)" "unat (pkt ! 0 AND 0x0F) * 4 + 4 \<le> length pkt"
    "parseTransport \<lparr>SrcIP = replicate 12 0 @ take 4 (drop 12 pkt), DstIP = replicate 12 0 @ take 4 (drop 16 pkt),
      SrcPort = 0, DstPort = 0, flow_Proto = pkt ! 9, IPv6 = False\<rparr> (pkt ! 9) (drop (unat (pkt ! 0 AND 0x0F) * 4) pkt) =
      Some (f, KindStart, None)"
proof -
  show len: "20 \<le> length pkt" using assms by (auto simp: parseIPv4_def fail_def Let_def split: if_splits)
  then have b0: "byte_at pkt 0 = Some (pkt ! 0)" by (intro byte_at_Some) linarith
  from len have P: "5 \<le> unat (pkt ! 0 AND 0x0F) \<and> unat (pkt ! 0 AND 0x0F) * 4 + 4 \<le> length pkt \<and>
    parseTransport \<lparr>SrcIP = replicate 12 0 @ take 4 (drop 12 pkt), DstIP = replicate 12 0 @ take 4 (drop 16 pkt),
      SrcPort = 0, DstPort = 0, flow_Proto = pkt ! 9, IPv6 = False\<rparr> (pkt ! 9) (drop (unat (pkt ! 0 AND 0x0F) * 4) pkt) =
      Some (f, KindStart, None)"
    using assms b0
    by (auto simp: parseIPv4_def zero_Flow_def fail_def accept_def bind_eq_Some_conv Let_def split: if_splits)
  then show T: "5 \<le> unat (pkt ! 0 AND 0x0F)" "unat (pkt ! 0 AND 0x0F) * 4 + 4 \<le> length pkt"
    "parseTransport \<lparr>SrcIP = replicate 12 0 @ take 4 (drop 12 pkt), DstIP = replicate 12 0 @ take 4 (drop 16 pkt),
      SrcPort = 0, DstPort = 0, flow_Proto = pkt ! 9, IPv6 = False\<rparr> (pkt ! 9) (drop (unat (pkt ! 0 AND 0x0F) * 4) pkt) =
      Some (f, KindStart, None)" by auto
  show "\<not> IPv6 f" using parseTransport_start [OF T(3)] by (auto split: if_splits)
qed

lemma ParsePacket_start_cases:
  assumes "ParsePacket pkt = Some (f, KindStart, None)"
  shows "drop_bit 4 (pkt ! 0) = 4 \<and> parseIPv4 pkt = Some (f, KindStart, None) \<or>
    drop_bit 4 (pkt ! 0) = 6 \<and> parseIPv6 pkt = Some (f, KindStart, None)"
proof -
  have "20 \<le> length pkt" using assms by (auto simp: ParsePacket_def fail_def split: if_splits)
  then have "byte_at pkt 0 = Some (pkt ! 0)" by (intro byte_at_Some) linarith
  with assms show ?thesis by (auto simp: ParsePacket_def fail_def split: if_splits)
qed

lemma start_flow_well_formed:
  assumes "ParsePacket pkt = Some (f, KindStart, None)"
  shows "well_formed_flow f"
  using ParsePacket_start_cases [OF assms]
proof (elim disjE conjE)
  assume "parseIPv4 pkt = Some (f, KindStart, None)"
  from parseIPv4_start [OF this] parseTransport_start [OF parseIPv4_start(5) [OF this]] show ?thesis
    by (auto simp: well_formed_flow_def split: if_splits)
next
  assume "parseIPv6 pkt = Some (f, KindStart, None)"
  from start_packet_v6(1-4) [OF this] show ?thesis by (simp add: well_formed_flow_def)
qed

lemma uint16_at_take: "i + 2 \<le> n \<Longrightarrow> n \<le> length b \<Longrightarrow> uint16_at (take n b) i = uint16_at b i"
  by (simp add: uint16_at_def drop_take min_def)

lemma low_nibble: "unat ((b :: byte) AND 0x0F) \<le> 15"
proof -
  have "b AND 0x0F \<le> 0x0F" by (rule word_and_le1)
  then show ?thesis by (simp add: word_le_nat_alt)
qed

lemma buildICMP_v4:
  assumes "\<not> IPv6 f"
  shows "buildICMPAdminProhibited f pkt = ipv4_packet 0 (of_nat (28 + min 548 (length pkt))) 0 0 64 1 0
    (take 4 (drop 12 (DstIP f))) (take 4 (drop 12 (SrcIP f))) []
    ([3, 13] @ replicate 6 0 @ take (min 548 (length pkt)) pkt)"
  using assms
  by (simp add: buildICMPAdminProhibited_def ipv4_packet_def Let_def be_bytes_0 replicate_two min_def del: of_nat_add)

lemma buildICMP_v6:
  assumes "IPv6 f"
  shows "buildICMPAdminProhibited f pkt = ipv6_packet [0, 0, 0] (of_nat (8 + min 1232 (length pkt))) 64 (DstIP f) (SrcIP f)
    [] 58 ([1, 1] @ replicate 6 0 @ take (min 1232 (length pkt)) pkt)"
  using assms
  by (simp add: buildICMPAdminProhibited_def ipv6_packet_def Let_def min_def del: of_nat_add)

lemma parseICMPError_quote:
  assumes "length h = 8" "20 \<le> length q"
  shows "parseICMPError g (h @ q) =
    (if drop_bit 4 (q ! 0) = 4 then parseICMPErrorIPv4 g q
     else if drop_bit 4 (q ! 0) = 6 then parseICMPErrorIPv6 g q else accept g KindError)"
proof -
  have "byte_at q 0 = Some (q ! 0)" using assms(2) by (intro byte_at_Some) linarith
  with assms show ?thesis by (simp add: parseICMPError_def)
qed

lemma put_low: "take 12 b = replicate 12 0 \<Longrightarrow> length b = 16 \<Longrightarrow> length s = 4 \<Longrightarrow> put_bytes b 12 s = replicate 12 (0::byte) @ s"
  by (simp add: put_bytes_def)

lemma parseICMPErrorIPv4_quote:
  assumes "20 \<le> length q" "5 \<le> unat (q ! 0 AND 0x0F)" "unat (q ! 0 AND 0x0F) * 4 + 4 \<le> length q"
    and "take 12 (SrcIP g) = replicate 12 0" "take 12 (DstIP g) = replicate 12 0" "length (SrcIP g) = 16" "length (DstIP g) = 16"
    and "uint16_at (drop (unat (q ! 0 AND 0x0F) * 4) q) 0 = Some sp" "uint16_at (drop (unat (q ! 0 AND 0x0F) * 4) q) 2 = Some dp"
    and "SrcPort g = 0" "DstPort g = 0"
  shows "parseICMPErrorIPv4 g q = Some ((if q ! 9 \<in> {ProtoTCP, ProtoUDP} then (\<lambda>f. f\<lparr>SrcPort := sp, DstPort := dp\<rparr>) else id)
    \<lparr>SrcIP = replicate 12 0 @ take 4 (drop 12 q), DstIP = replicate 12 0 @ take 4 (drop 16 q),
      SrcPort = 0, DstPort = 0, flow_Proto = q ! 9, IPv6 = False\<rparr>, KindError, None)"
proof -
  have b: "byte_at q 0 = Some (q ! 0)" "byte_at q 9 = Some (q ! 9)" using assms(1) by (auto intro!: byte_at_Some)
  show ?thesis
    using assms b by (cases g) (simp add: parseICMPErrorIPv4_def accept_def Let_def put_low)
qed

lemma parseICMPErrorIPv6_quote:
  assumes "44 \<le> length q" "length (SrcIP g) = 16" "length (DstIP g) = 16" "SrcPort g = 0" "DstPort g = 0"
    and "uint16_at (drop 40 q) 0 = Some sp" "uint16_at (drop 40 q) 2 = Some dp"
  shows "parseICMPErrorIPv6 g q = Some ((if q ! 6 \<in> {ProtoTCP, ProtoUDP} then (\<lambda>f. f\<lparr>SrcPort := sp, DstPort := dp\<rparr>) else id)
    \<lparr>SrcIP = take 16 (drop 8 q), DstIP = take 16 (drop 24 q),
      SrcPort = 0, DstPort = 0, flow_Proto = q ! 6, IPv6 = True\<rparr>, KindError, None)"
proof -
  have b: "byte_at q 6 = Some (q ! 6)" using assms(1) by (intro byte_at_Some) linarith
  show ?thesis
    using assms b by (cases g) (simp add: parseICMPErrorIPv6_def accept_def Let_def put_bytes_def)
qed

lemma uint16_at_total: "i + 2 \<le> length b \<Longrightarrow> \<exists>v. uint16_at b i = Some v"
  by simp

lemma quoted_v4:
  assumes "parseIPv4 pkt = Some (f, KindStart, None)" "drop_bit 4 (pkt ! 0) = 4" "length (SrcIP g) = 16" "length (DstIP g) = 16"
    "SrcPort g = 0" "DstPort g = 0" "take 12 (SrcIP g) = replicate 12 0" "take 12 (DstIP g) = replicate 12 0"
    "length h = 8"
  shows "parseICMPError g (h @ take (min 548 (length pkt)) pkt) = Some (f, KindError, None)"
proof -
  define n where "n = unat (pkt ! 0 AND 0x0F) * 4"
  define q where "q = take (min 548 (length pkt)) pkt"
  note S = parseIPv4_start [OF assms(1)] note T = parseTransport_start [OF S(5)]
  have n: "n \<le> 60" "20 \<le> n" "n + 4 \<le> length pkt" using low_nibble [of "pkt ! 0"] S(3,4) by (auto simp: n_def)
  have q: "20 \<le> length q" "n + 4 \<le> length q" using n by (auto simp: q_def)
  have b: "q ! 0 = pkt ! 0" "q ! 9 = pkt ! 9" "take 4 (drop 12 q) = take 4 (drop 12 pkt)" "take 4 (drop 16 q) = take 4 (drop 16 pkt)"
    using n S(2) by (auto simp: q_def drop_take min_def)
  have u: "uint16_at (drop n q) i = uint16_at (drop n pkt) i" if "i \<le> 2" for i
    unfolding q_def drop_take using n that by (intro uint16_at_take) auto
  obtain sp dp where p: "uint16_at (drop n pkt) 0 = Some sp" "uint16_at (drop n pkt) 2 = Some dp"
    using n(3) uint16_at_total [of 0 "drop n pkt"] uint16_at_total [of 2 "drop n pkt"] by auto
  have "parseICMPError g (h @ q) = parseICMPErrorIPv4 g q"
    using parseICMPError_quote [OF assms(9) q(1)] assms(2) b(1) by simp
  also have "\<dots> = Some ((if q ! 9 \<in> {ProtoTCP, ProtoUDP} then (\<lambda>f. f\<lparr>SrcPort := sp, DstPort := dp\<rparr>) else id)
    \<lparr>SrcIP = replicate 12 0 @ take 4 (drop 12 q), DstIP = replicate 12 0 @ take 4 (drop 16 q),
      SrcPort = 0, DstPort = 0, flow_Proto = q ! 9, IPv6 = False\<rparr>, KindError, None)"
    using q S(3) assms(3-8) u [of 0] u [of 2] p
    by (intro parseICMPErrorIPv4_quote) (simp_all add: b n_def)
  also have "\<dots> = Some (f, KindError, None)"
    using T p by (auto simp: b n_def simp del: uint16_at_Some split: if_split_asm)
  finally show ?thesis unfolding q_def .
qed

lemma quoted_v6:
  assumes "parseIPv6 pkt = Some (f, KindStart, None)" "drop_bit 4 (pkt ! 0) = 6" "pkt ! 6 = flow_Proto f"
    "length (SrcIP g) = 16" "length (DstIP g) = 16" "SrcPort g = 0" "DstPort g = 0" "length h = 8"
  shows "parseICMPError g (h @ take (min 1232 (length pkt)) pkt) = Some (f, KindError, None)"
proof -
  define q where "q = take (min 1232 (length pkt)) pkt"
  note S = start_packet_v6 [OF assms(1)] note T = parseTransport_start [OF S(5) [OF assms(3)]]
  have n: "44 \<le> length pkt" using T by auto
  then have q: "20 \<le> length q" "44 \<le> length q" by (auto simp: q_def)
  have b: "q ! 0 = pkt ! 0" "q ! 6 = pkt ! 6" "take 16 (drop 8 q) = take 16 (drop 8 pkt)"
    "take 16 (drop 24 q) = take 16 (drop 24 pkt)"
    using n by (auto simp: q_def drop_take min_def)
  have u: "uint16_at (drop 40 q) i = uint16_at (drop 40 pkt) i" if "i \<le> 2" for i
    unfolding q_def drop_take using n that by (intro uint16_at_take) auto
  obtain sp dp where p: "uint16_at (drop 40 pkt) 0 = Some sp" "uint16_at (drop 40 pkt) 2 = Some dp"
    using n uint16_at_total [of 0 "drop 40 pkt"] uint16_at_total [of 2 "drop 40 pkt"] by auto
  have "parseICMPError g (h @ q) = parseICMPErrorIPv6 g q"
    using parseICMPError_quote [OF assms(8) q(1)] assms(2) b(1) by simp
  also have "\<dots> = Some ((if q ! 6 \<in> {ProtoTCP, ProtoUDP} then (\<lambda>f. f\<lparr>SrcPort := sp, DstPort := dp\<rparr>) else id)
    \<lparr>SrcIP = take 16 (drop 8 q), DstIP = take 16 (drop 24 q),
      SrcPort = 0, DstPort = 0, flow_Proto = q ! 6, IPv6 = True\<rparr>, KindError, None)"
    using q(2) assms(4-7) u [of 0] u [of 2] p
    by (intro parseICMPErrorIPv6_quote) simp_all
  also have "\<dots> = Some (f, KindError, None)"
    using T p by (auto simp: b simp del: uint16_at_Some split: if_split_asm)
  finally show ?thesis unfolding q_def .
qed

lemma icmp_reject_parses:
  assumes P: "ParsePacket pkt = Some (f, KindStart, None)" and v6: "IPv6 f \<Longrightarrow> pkt ! 6 = flow_Proto f"
  shows "ParsePacket (buildICMPAdminProhibited f pkt) = Some (f, KindError, None)"
proof -
  have wf: "well_formed_flow f" by (rule start_flow_well_formed [OF P])
  then have len: "length (SrcIP f) = 16" "length (DstIP f) = 16" by (auto simp: well_formed_flow_def)
  show ?thesis
  proof (cases "IPv6 f")
    case True
    then have 6: "parseIPv6 pkt = Some (f, KindStart, None)" "drop_bit 4 (pkt ! 0) = 6"
      using ParsePacket_start_cases [OF P] parseIPv4_start(1) by blast+
    let ?g = "\<lparr>SrcIP = DstIP f, DstIP = SrcIP f, SrcPort = 0, DstPort = 0, flow_Proto = 58, IPv6 = True\<rparr>"
    have "ParsePacket (buildICMPAdminProhibited f pkt) =
        parseTransport ?g 58 ([1, 1] @ replicate 6 0 @ take (min 1232 (length pkt)) pkt)"
      unfolding buildICMP_v6 [OF True] using len by (intro ParsePacket_ipv6_plain) (auto simp: protos)
    also have "\<dots> = parseICMPError ?g (([1, 1] @ replicate 6 0) @ take (min 1232 (length pkt)) pkt)"
      by (simp add: parseTransport_def protos parseICMPv6_def isICMPv6Error_def)
    also have "\<dots> = Some (f, KindError, None)"
      using len by (intro quoted_v6 [OF 6 v6 [OF True]]) auto
    finally show ?thesis .
  next
    case False
    then have 4: "parseIPv4 pkt = Some (f, KindStart, None)" "drop_bit 4 (pkt ! 0) = 4"
      using ParsePacket_start_cases [OF P] start_packet_v6(2) by blast+
    let ?g = "\<lparr>SrcIP = DstIP f, DstIP = SrcIP f, SrcPort = 0, DstPort = 0, flow_Proto = 1, IPv6 = False\<rparr>"
    have "ParsePacket (buildICMPAdminProhibited f pkt) =
        parseTransport ?g 1 ([3, 13] @ replicate 6 0 @ take (min 548 (length pkt)) pkt)"
      unfolding buildICMP_v4 [OF False] using len v4_flow_addr [OF wf False]
      by (subst parseIPv4_packet) (simp_all add: Let_def zero_Flow_def)
    also have "\<dots> = parseICMPError ?g (([3, 13] @ replicate 6 0) @ take (min 548 (length pkt)) pkt)"
      by (simp add: parseTransport_def protos parseICMP_def isICMPError_def)
    also have "\<dots> = Some (f, KindError, None)"
      using len wf False by (intro quoted_v4 [OF 4]) (auto simp: well_formed_flow_def)
    finally show ?thesis .
  qed
qed

section \<open>Properties\<close>

text \<open>A data packet reads back: the header of what \<open>buildDataPacket\<close> assembles carries the data type, a zero
  sender index and the nonce, and what follows the header is the ciphertext.\<close>

theorem data_packet_roundtrip:
  "byte_slice (buildDataPacket nonce ct) 0 HeaderSize \<bind> parseHeader = Some (TypeData, 0, nonce) \<and>
   byte_from (buildDataPacket nonce ct) HeaderSize = Some ct"
  using parseHeader_fields [of TypeData 0 nonce]
  by (simp add: buildDataPacket_layout HeaderSize_def byte_slice_def byte_from_def)


definition example_udp :: bytes where
  "example_udp = ipv4_packet 0 28 7 0 64 17 0 [10, 1, 0, 2] [10, 1, 0, 3] [] [15, 160, 0, 53, 0, 8, 0, 0]"

lemma example_udp_parses:
  "ParsePacket example_udp = Some (\<lparr>SrcIP = replicate 12 0 @ [10, 1, 0, 2], DstIP = replicate 12 0 @ [10, 1, 0, 3],
     SrcPort = 4000, DstPort = 53, flow_Proto = ProtoUDP, IPv6 = False\<rparr>, KindStart, None)"
  unfolding example_udp_def
  by (subst parseIPv4_packet)
    (simp_all add: Let_def zero_Flow_def parseTransport_def parseUDP_def accept_def protos)


end
