(* ===== verification/Dataplane.thy ===== *)
theory Dataplane
  imports DataPacket PeerTable AclPolicy FlowTable
begin

text \<open>
  The data plane: the dispatcher of \<open>internal/dataplane/dispatcher.go\<close>, which moves packets between the TUN device and the UDP socket. It holds the
  peer table, the sessions, the policy decider and the flow table, and calls back into the handshake manager.

  The state of the dispatcher is a record that other components extend: the callbacks are functions on the
  extended state, the argument \<open>H\<close> of the handlers. What is written to the socket and to the TUN device is appended
  to two lists of the state. A handler is one call, run to its end, at the instant \<open>now\<close>; its result is an option,
  None when the call would panic or never return. The AEAD operations are the arguments \<open>seal\<close> and \<open>unseal\<close>.
\<close>

section \<open>The dispatcher\<close>

record 'k Dispatcher =
  tun :: "Prefix option"
  peers :: Table
  entries :: eheap
  sessions :: "sref \<Rightarrow> 'k Session"
  policyDecider :: "PolicyDecider option"
  policies :: swaps
  selfPeerID :: peer_id
  flowTable :: FlowTable
  dropCounters :: DropCounters
  lastDropLog :: gotime
  udp_sent :: "(net_addr \<times> bytes) list"
  tun_written :: "bytes list"

text \<open>The callbacks, unset when None.\<close>

record 'd Hooks =
  OnHandshakeRequired :: "('d \<Rightarrow> eref \<Rightarrow> 'd) option"
  OnRekeyRequired :: "('d \<Rightarrow> eref \<Rightarrow> 'd) option"
  OnHandshakePacket :: "('d \<Rightarrow> bytes \<Rightarrow> net_addr \<Rightarrow> 'd) option"
  OnNATProbePacket :: "('d \<Rightarrow> bytes \<Rightarrow> net_addr \<Rightarrow> 'd) option"
  OnSessionEstablished :: "('d \<Rightarrow> eref \<Rightarrow> 'd) option"

definition call_entry :: "('d \<Rightarrow> eref \<Rightarrow> 'd) option \<Rightarrow> 'd \<Rightarrow> eref \<Rightarrow> 'd" where
  "call_entry cb d e = (case cb of None \<Rightarrow> d | Some f \<Rightarrow> f d e)"

definition call_packet :: "('d \<Rightarrow> bytes \<Rightarrow> net_addr \<Rightarrow> 'd) option \<Rightarrow> 'd \<Rightarrow> bytes \<Rightarrow> net_addr \<Rightarrow> 'd" where
  "call_packet cb d pkt addr = (case cb of None \<Rightarrow> d | Some f \<Rightarrow> f d pkt addr)"

definition New_Dispatcher ::
  "(FlowKey \<Rightarrow> u64) \<Rightarrow> (fref \<Rightarrow> FlowEntry) \<Rightarrow> Prefix option \<Rightarrow> Table \<Rightarrow> eheap \<Rightarrow> (sref \<Rightarrow> 'k Session) \<Rightarrow> swaps \<Rightarrow> 'k Dispatcher" where
  "New_Dispatcher hsh mem t tbl h ss sw =
     \<lparr>tun = t, peers = tbl, entries = h, sessions = ss, policyDecider = None, policies = sw,
      selfPeerID = replicate 32 0, flowTable = NewFlowTable hsh mem DefaultFlowTableConfig,
      dropCounters = NewDropCounters, lastDropLog = 0, udp_sent = [], tun_written = []\<rparr>"

definition SetTUN :: "('k, 'm) Dispatcher_scheme \<Rightarrow> Prefix option \<Rightarrow> ('k, 'm) Dispatcher_scheme" where
  "SetTUN d t = d\<lparr>tun := t\<rparr>"

text \<open>\<open>atomic.Value\<close> refuses a nil value and a value of another concrete type than the one it holds.\<close>

fun same_type :: "PolicyDecider \<Rightarrow> PolicyDecider \<Rightarrow> bool" where
  "same_type (CompiledD _) (CompiledD _) = True"
| "same_type (SwapD _) (SwapD _) = True"
| "same_type (CombinedD _ _) (CombinedD _ _) = True"
| "same_type _ _ = False"

definition SetPolicyDecider ::
  "('k, 'm) Dispatcher_scheme \<Rightarrow> PolicyDecider option \<Rightarrow> ('k, 'm) Dispatcher_scheme option" where
  "SetPolicyDecider d pd = (case pd of
      None \<Rightarrow> None
    | Some p \<Rightarrow> (case policyDecider d of
          None \<Rightarrow> Some (d\<lparr>policyDecider := Some p\<rparr>)
        | Some q \<Rightarrow> if same_type q p then Some (d\<lparr>policyDecider := Some p\<rparr>) else None))"

definition SetSelfPeerID :: "('k, 'm) Dispatcher_scheme \<Rightarrow> peer_id \<Rightarrow> ('k, 'm) Dispatcher_scheme" where
  "SetSelfPeerID d pid = d\<lparr>selfPeerID := pid\<rparr>"

definition getPolicyDecider :: "('k, 'm) Dispatcher_scheme \<Rightarrow> PolicyDecider option" where
  "getPolicyDecider d = policyDecider d"

definition pd_Decide :: "('k, 'm) Dispatcher_scheme \<Rightarrow> PolicyDecider \<Rightarrow> peer_id \<Rightarrow> peer_id \<Rightarrow> Proto \<Rightarrow> u16 \<Rightarrow> Decision" where
  "pd_Decide d pd src dst proto port = Decider_Decide (policies d) pd src dst proto port"

definition on_entry :: "('k, 'm) Dispatcher_scheme \<Rightarrow> eref \<Rightarrow> Entry \<Rightarrow> ('k, 'm) Dispatcher_scheme" where
  "on_entry d e x = d\<lparr>entries := (entries d)(e := x)\<rparr>"

definition on_session :: "('k, 'm) Dispatcher_scheme \<Rightarrow> sref \<Rightarrow> 'k Session \<Rightarrow> ('k, 'm) Dispatcher_scheme" where
  "on_session d s x = d\<lparr>sessions := (sessions d)(s := x)\<rparr>"

definition conn_WriteTo :: "('k, 'm) Dispatcher_scheme \<Rightarrow> bytes \<Rightarrow> net_addr \<Rightarrow> ('k, 'm) Dispatcher_scheme" where
  "conn_WriteTo d pkt addr = d\<lparr>udp_sent := udp_sent d @ [(addr, pkt)]\<rparr>"

definition tun_Write :: "('k, 'm) Dispatcher_scheme \<Rightarrow> bytes \<Rightarrow> ('k, 'm) Dispatcher_scheme" where
  "tun_Write d pkt = (if tun d \<noteq> None then d\<lparr>tun_written := tun_written d @ [pkt]\<rparr> else d)"

definition recordDrop ::
  "gotime \<Rightarrow> ('k, 'm) Dispatcher_scheme \<Rightarrow> peer_id \<Rightarrow> Decision \<Rightarrow> ('k, 'm) Dispatcher_scheme" where
  "recordDrop now d peerID dec =
     (let dc = IncrementPeer (dropCounters d) peerID;
          dc = (if RuleIndex dec \<ge> 0 then IncrementRule dc (RuleIndex dec) else dc);
          dc = (if dec_OutboundOnly dec then IncrementOutboundOnly dc peerID else dc);
          d = d\<lparr>dropCounters := dc\<rparr>
      in if now - lastDropLog d > 60 * second then d\<lparr>lastDropLog := now\<rparr> else d)"

definition sendReject :: "('k, 'm) Dispatcher_scheme \<Rightarrow> Flow \<Rightarrow> bytes \<Rightarrow> ('k, 'm) Dispatcher_scheme" where
  "sendReject d flow originalPkt =
     tun_Write d (if flow_Proto flow = ProtoTCP then buildTCPRST flow else buildICMPAdminProhibited flow originalPkt)"

definition sourceAllowed :: "('k, 'm) Dispatcher_scheme \<Rightarrow> eref \<Rightarrow> bytes \<Rightarrow> bool" where
  "sourceAllowed d entry pkt = (case extractSrcIP pkt of
      None \<Rightarrow> False
    | Some a \<Rightarrow>
        (let src = Unmap a
         in if src = VPNAddr (entries d entry) then True
            else if (case tun d of None \<Rightarrow> False | Some p \<Rightarrow> Contains (Masked p) src) then False
            else if (case LookupByVPN (peers d) src of None \<Rightarrow> False | Some owner \<Rightarrow> owner \<noteq> entry) then False
            else list_ex (\<lambda>p. Contains p src) (SubnetRoutes (entries d entry))))"

fun flush_packets ::
  "('k \<Rightarrow> u64 \<Rightarrow> bytes \<Rightarrow> bytes) \<Rightarrow> sref \<Rightarrow> AddrPort \<Rightarrow> bytes list \<Rightarrow> ('k, 'm) Dispatcher_scheme \<Rightarrow> ('k, 'm) Dispatcher_scheme" where
  "flush_packets seal s ep [] d = d"
| "flush_packets seal s ep (pkt # pkts) d =
     (case Encrypt seal (sessions d s) pkt of
        (s', Inl _) \<Rightarrow> flush_packets seal s ep pkts (on_session d s s')
      | (s', Inr (nonce, ct)) \<Rightarrow>
          flush_packets seal s ep pkts
            (conn_WriteTo (on_session d s s') (buildDataPacket nonce ct) (UDPAddrFromAddrPort ep)))"

definition FlushHoldQueue ::
  "('k \<Rightarrow> u64 \<Rightarrow> bytes \<Rightarrow> bytes) \<Rightarrow> ('k, 'm) Dispatcher_scheme \<Rightarrow> eref \<Rightarrow> ('k, 'm) Dispatcher_scheme" where
  "FlushHoldQueue seal d entry = (case session (entries d entry) of
      None \<Rightarrow> d
    | Some sess \<Rightarrow>
        (let ep = endpoint (entries d entry)
         in if \<not> AddrPort_IsValid ep then d
            else case DrainQueue (entries d entry) of
                   (x, held) \<Rightarrow> flush_packets seal sess ep held (on_entry d entry x)))"

text \<open>The order of the peers \<open>List\<close> returns is not fixed: it is the argument \<open>es\<close>.\<close>

fun checkRekey ::
  "('k, 'm) Dispatcher_scheme Hooks \<Rightarrow> gotime \<Rightarrow> eref list \<Rightarrow> ('k, 'm) Dispatcher_scheme \<Rightarrow> ('k, 'm) Dispatcher_scheme" where
  "checkRekey H now [] d = d"
| "checkRekey H now (e # es) d =
     checkRekey H now es
       (case session (entries d e) of
          None \<Rightarrow> d
        | Some sess \<Rightarrow> if NeedsRekey (sessions d sess) now then call_entry (OnRekeyRequired H) d e else d)"

text \<open>One turn of \<open>expireFlowsLoop\<close>; the log line it ends with changes nothing.\<close>

definition expireFlows :: "gotime \<Rightarrow> FlowKey list \<Rightarrow> ('k, 'm) Dispatcher_scheme \<Rightarrow> ('k, 'm) Dispatcher_scheme" where
  "expireFlows now ks d =
     d\<lparr>flowTable := fst (ExpireOldFlows (map (\<lambda>k. (shard_of (flowTable d) k, k)) ks) (flowTable d) now)\<rparr>"

definition enqueue_for :: "('k, 'm) Dispatcher_scheme \<Rightarrow> eref \<Rightarrow> bytes \<Rightarrow> ('k, 'm) Dispatcher_scheme" where
  "enqueue_for d entry pkt = on_entry d entry (fst (Enqueue (entries d entry) pkt))"

definition track_flow ::
  "gotime \<Rightarrow> ('k, 'm) Dispatcher_scheme \<Rightarrow> Flow \<Rightarrow> bool \<Rightarrow> FlowState \<Rightarrow> (('k, 'm) Dispatcher_scheme \<times> fref option \<times> bool) option" where
  "track_flow now d flow createIfMissing st =
     (case Lookup (\<lambda>_ _. True) (flowTable d) flow createIfMissing st now of
        None \<Rightarrow> None
      | Some (ft, entry, _, created) \<Rightarrow> Some (d\<lparr>flowTable := ft\<rparr>, entry, created))"

text \<open>The outbound check: the denying decision, if the policy denies.\<close>

definition outbound_denial :: "('k, 'm) Dispatcher_scheme \<Rightarrow> eref \<Rightarrow> Flow \<Rightarrow> Decision option" where
  "outbound_denial d entry flow = (case getPolicyDecider d of
      None \<Rightarrow> None
    | Some pd \<Rightarrow>
        if flow_Proto flow \<noteq> 0
        then (let dec = pd_Decide d pd (selfPeerID d) (ID (entries d entry)) (flow_Proto flow) (DstPort flow)
              in if dec_Action dec = ActionDeny then Some dec else None)
        else None)"

text \<open>The rest of \<open>handleTunPacket\<close>, for a packet the policy lets out.\<close>

definition send_to_peer ::
  "('k \<Rightarrow> u64 \<Rightarrow> bytes \<Rightarrow> bytes) \<Rightarrow> ('k, 'm) Dispatcher_scheme Hooks \<Rightarrow> gotime \<Rightarrow> ('k, 'm) Dispatcher_scheme \<Rightarrow> eref \<Rightarrow> bytes \<Rightarrow>
    Flow \<Rightarrow> Kind \<Rightarrow> ('k, 'm) Dispatcher_scheme option" where
  "send_to_peer seal H now d entry pkt flow kind =
     (case session (entries d entry) of
        None \<Rightarrow> Some (call_entry (OnHandshakeRequired H) (enqueue_for d entry pkt) entry)
      | Some sess \<Rightarrow>
          if NeedsRekey (sessions d sess) now
          then Some (call_entry (OnRekeyRequired H) (enqueue_for d entry pkt) entry)
          else
     (case Encrypt seal (sessions d sess) pkt of
        (s', Inl ErrRekeyRequired) \<Rightarrow>
          Some (call_entry (OnRekeyRequired H) (enqueue_for (on_session d sess s') entry pkt) entry)
      | (s', Inr (nonce, ct)) \<Rightarrow>
          let d1 = on_session d sess s'; ep = endpoint (entries d entry)
          in if \<not> AddrPort_IsValid ep then Some d1
             else
     (case (if kind = KindStart then track_flow now d1 flow True FlowStateNew else Some (d1, None, False)) of
        None \<Rightarrow> None
      | Some (d2, _) \<Rightarrow> Some (conn_WriteTo d2 (buildDataPacket nonce ct) (UDPAddrFromAddrPort ep)))))"

definition handleTunPacket ::
  "('k \<Rightarrow> u64 \<Rightarrow> bytes \<Rightarrow> bytes) \<Rightarrow> ('k, 'm) Dispatcher_scheme Hooks \<Rightarrow> gotime \<Rightarrow> ('k, 'm) Dispatcher_scheme \<Rightarrow> bytes \<Rightarrow>
    ('k, 'm) Dispatcher_scheme option" where
  "handleTunPacket seal H now d pkt =
     (case extractDestIP pkt of None \<Rightarrow> Some d
      | Some destIP \<Rightarrow>
     (case LookupByVPN (peers d) destIP of None \<Rightarrow> Some d
      | Some entry \<Rightarrow>
     (case ParsePacket pkt of None \<Rightarrow> None
      | Some (_, _, Some _) \<Rightarrow> Some d
      | Some (flow, kind, None) \<Rightarrow>
     (case outbound_denial d entry flow of
        Some dec \<Rightarrow> Some (sendReject (recordDrop now d (ID (entries d entry)) dec) flow pkt)
      | None \<Rightarrow> send_to_peer seal H now d entry pkt flow kind))))"

definition decrypt_with ::
  "('k \<Rightarrow> u64 \<Rightarrow> bytes \<Rightarrow> bytes option) \<Rightarrow> ('k, 'm) Dispatcher_scheme \<Rightarrow> sref option \<Rightarrow> u64 \<Rightarrow> bytes \<Rightarrow>
    ('k, 'm) Dispatcher_scheme \<times> bytes option" where
  "decrypt_with unseal d s nonce payload = (case s of
      None \<Rightarrow> (d, None)
    | Some sess \<Rightarrow> (case Decrypt unseal (sessions d sess) nonce payload of (s', plain) \<Rightarrow> (on_session d sess s', plain)))"

definition decryptDataPacket ::
  "('k \<Rightarrow> u64 \<Rightarrow> bytes \<Rightarrow> bytes option) \<Rightarrow> ('k, 'm) Dispatcher_scheme Hooks \<Rightarrow> ('k, 'm) Dispatcher_scheme \<Rightarrow> eref \<Rightarrow>
    sref option \<Rightarrow> u64 \<Rightarrow> bytes \<Rightarrow> ('k, 'm) Dispatcher_scheme \<times> bytes option" where
  "decryptDataPacket unseal H d entry sess nonce payload =
     (case decrypt_with unseal d sess nonce payload of
        (d1, Some plain) \<Rightarrow> (d1, Some plain)
      | (d1, None) \<Rightarrow>
     (case decrypt_with unseal d1 (pendingSession (entries d1 entry)) nonce payload of
        (d2, Some plain) \<Rightarrow>
          (call_entry (OnSessionEstablished H)
             (on_entry d2 entry (fst (PromotePendingSession (entries d2 entry)))) entry, Some plain)
      | (d2, None) \<Rightarrow>
          (let prev = prevSession (entries d2 entry)
           in if prev \<noteq> None \<and> prev \<noteq> sess then decrypt_with unseal d2 prev nonce payload else (d2, None))))"

definition drop_untracked :: Decision where
  "drop_untracked = \<lparr>dec_Action = ActionDeny, RuleIndex = -1, dec_OutboundOnly = False\<rparr>"

definition flow_state :: "('k, 'm) Dispatcher_scheme \<Rightarrow> fref option \<Rightarrow> FlowState option" where
  "flow_state d x = map_option (\<lambda>e. fe_State (cells (flowTable d) e)) x"

definition set_LastSeen :: "gotime \<Rightarrow> ('k, 'm) Dispatcher_scheme \<Rightarrow> fref option \<Rightarrow> ('k, 'm) Dispatcher_scheme" where
  "set_LastSeen now d x = (case x of
      None \<Rightarrow> d
    | Some e \<Rightarrow> d\<lparr>flowTable := (flowTable d)\<lparr>cells := (cells (flowTable d))(e := (cells (flowTable d) e)\<lparr>LastSeen := now\<rparr>)\<rparr>\<rparr>)"

text \<open>The inbound check of \<open>handleUDPPacket\<close>: the new state and whether the packet passes.\<close>

definition inbound_check ::
  "gotime \<Rightarrow> ('k, 'm) Dispatcher_scheme \<Rightarrow> eref \<Rightarrow> bytes \<Rightarrow> (('k, 'm) Dispatcher_scheme \<times> bool) option" where
  "inbound_check now d entry plain = (case getPolicyDecider d of
      None \<Rightarrow> Some (d, True)
    | Some pd \<Rightarrow>
     (case ParsePacket plain of None \<Rightarrow> None
      | Some (_, _, Some _) \<Rightarrow> Some (d, False)
      | Some (flow, kind, None) \<Rightarrow>
          let srcPeerID = ID (entries d entry); dstPeerID = selfPeerID d
          in (case kind of
                KindStart \<Rightarrow>
                  (let dec = pd_Decide d pd srcPeerID dstPeerID (flow_Proto flow) (DstPort flow)
                   in if dec_Action dec = ActionDeny then Some (recordDrop now d srcPeerID dec, False)
                      else map_option (\<lambda>(d1, _). (d1, True)) (track_flow now d flow True FlowStateEstablished))
              | KindEnd \<Rightarrow>
                  (case track_flow now d flow False FlowStateNew of
                     None \<Rightarrow> None
                   | Some (d1, flowEntry, created) \<Rightarrow>
                       if \<not> created \<and> flow_state d1 flowEntry = Some FlowStateEstablished
                       then Some (d1\<lparr>flowTable := fst (UpdateState (flowTable d1) flow FlowStateClosing now)\<rparr>, True)
                       else Some (recordDrop now d1 srcPeerID drop_untracked, False))
              | _ \<Rightarrow>
                  (case track_flow now d flow False FlowStateNew of
                     None \<Rightarrow> None
                   | Some (d1, flowEntry, created) \<Rightarrow>
                       if created \<or> flow_state d1 flowEntry \<noteq> Some FlowStateEstablished
                       then Some (recordDrop now d1 srcPeerID drop_untracked, False)
                       else Some (set_LastSeen now d1 flowEntry, True)))))"

definition handleData ::
  "('k \<Rightarrow> u64 \<Rightarrow> bytes \<Rightarrow> bytes option) \<Rightarrow> ('k, 'm) Dispatcher_scheme Hooks \<Rightarrow> gotime \<Rightarrow> ('k, 'm) Dispatcher_scheme \<Rightarrow>
    u64 \<Rightarrow> bytes \<Rightarrow> net_addr \<Rightarrow> ('k, 'm) Dispatcher_scheme option" where
  "handleData unseal H now d nonce payload addr =
     (case addrToAddrPort addr of None \<Rightarrow> Some d
      | Some ep \<Rightarrow>
     (case LookupByEndpoint (peers d) ep of None \<Rightarrow> Some d
      | Some entry \<Rightarrow>
     (case decryptDataPacket unseal H d entry (session (entries d entry)) nonce payload of
        (d1, None) \<Rightarrow> Some d1
      | (d1, Some plain) \<Rightarrow>
          if \<not> sourceAllowed d1 entry plain then Some d1
          else
     (case inbound_check now d1 entry plain of None \<Rightarrow> None
      | Some (d2, False) \<Rightarrow> Some d2
      | Some (d2, True) \<Rightarrow> Some (tun_Write (on_entry d2 entry (Touch (entries d2 entry) now)) plain)))))"

definition handleUDPPacket ::
  "('k \<Rightarrow> u64 \<Rightarrow> bytes \<Rightarrow> bytes option) \<Rightarrow> ('k, 'm) Dispatcher_scheme Hooks \<Rightarrow> gotime \<Rightarrow> ('k, 'm) Dispatcher_scheme \<Rightarrow>
    bytes \<Rightarrow> net_addr \<Rightarrow> ('k, 'm) Dispatcher_scheme option" where
  "handleUDPPacket unseal H now d pkt addr = do {
     hdr \<leftarrow> byte_slice pkt 0 HeaderSize;
     (pktType, _, nonce) \<leftarrow> parseHeader hdr;
     payload \<leftarrow> byte_from pkt HeaderSize;
     if pktType = TypeData then handleData unseal H now d nonce payload addr
     else if pktType = TypeKeepalive then
       Some (case addrToAddrPort addr of
               None \<Rightarrow> d
             | Some ep \<Rightarrow> (case LookupByEndpoint (peers d) ep of
                   None \<Rightarrow> d
                 | Some entry \<Rightarrow> on_entry d entry (Touch (entries d entry) now)))
     else if pktType = TypeHandshakeInit \<or> pktType = TypeHandshakeResp then
       Some (call_packet (OnHandshakePacket H) d pkt addr)
     else if pktType = TypeNATProbe then Some (call_packet (OnNATProbePacket H) d pkt addr)
     else Some d
   }"

text \<open>One turn of \<open>tunLoop\<close> and of \<open>udpLoop\<close>, on what was read.\<close>

definition tunLoop ::
  "('k \<Rightarrow> u64 \<Rightarrow> bytes \<Rightarrow> bytes) \<Rightarrow> ('k, 'm) Dispatcher_scheme Hooks \<Rightarrow> gotime \<Rightarrow> ('k, 'm) Dispatcher_scheme \<Rightarrow> bytes \<Rightarrow>
    ('k, 'm) Dispatcher_scheme option" where
  "tunLoop seal H now d buf = (if length buf = 0 then Some d else handleTunPacket seal H now d buf)"

definition udpLoop ::
  "('k \<Rightarrow> u64 \<Rightarrow> bytes \<Rightarrow> bytes option) \<Rightarrow> ('k, 'm) Dispatcher_scheme Hooks \<Rightarrow> gotime \<Rightarrow> ('k, 'm) Dispatcher_scheme \<Rightarrow>
    bytes \<Rightarrow> net_addr \<Rightarrow> ('k, 'm) Dispatcher_scheme option" where
  "udpLoop unseal H now d buf addr = (if length buf < HeaderSize then Some d else handleUDPPacket unseal H now d buf addr)"

section \<open>Connection tracking as the handlers use it\<close>

lemmas state_updates = on_entry_def on_session_def conn_WriteTo_def tun_Write_def enqueue_for_def SetTUN_def SetSelfPeerID_def

abbreviation flow_key :: "Flow \<Rightarrow> FlowKey" where
  "flow_key f \<equiv> fst (NormalizeFlowKey f)"

definition flows_ok :: "FlowTable \<Rightarrow> bool" where
  "flows_ok ft \<longleftrightarrow> (\<exists>c l. models ft c l)"

text \<open>The connections the table holds as established.\<close>

definition established :: "FlowTable \<Rightarrow> FlowKey set" where
  "established ft = {k. \<exists>e. shards ft (shard_of ft k) k = Some e \<and> fe_State (cells ft e) = FlowStateEstablished}"

definition lru_established :: "FlowEntry list \<Rightarrow> FlowKey set" where
  "lru_established l = {k. \<exists>x. lru_get k l = Some x \<and> fe_State x = FlowStateEstablished}"

lemma models_established: "models ft c l \<Longrightarrow> established ft = lru_established l"
  using models_get(1) [of ft c l] by (auto simp: established_def lru_established_def strip_def)

lemma lru_get_Cons: "lru_get k (x # l) = (if ekey x = k then Some x else lru_get k l)"
  by (simp add: lru_get_def)

lemma lru_get_del_other: "lru_get k (lru_del k' l) = (if k = k' then None else lru_get k l)"
  by (induction l) (auto simp: lru_get_def lru_del_def)

lemma lru_get_take: "lru_get k (take n l) = Some x \<Longrightarrow> lru_get k l = Some x"
  by (induction l arbitrary: n) (auto simp: lru_get_def take_Cons split: nat.splits if_splits)

lemma lru_get_key: "lru_get k l = Some x \<Longrightarrow> ekey x = k"
  by (auto simp: lru_get_def find_Some_iff)

lemma lru_create_established:
  "lru_established (fst (lru_create c f cr st now l)) \<subseteq>
     lru_established l \<union> (if cr \<and> st = FlowStateEstablished then {flow_key f} else {})"
  by (auto simp: lru_established_def lru_create_def lru_get_Cons new_entry_def ekey_def dest: lru_get_take split: if_splits)

lemma lru_established_del: "lru_established (lru_del k l) \<subseteq> lru_established l"
  by (auto simp: lru_established_def lru_get_del_other split: if_splits)

lemma lru_Lookup_established:
  assumes "cr \<or> st \<noteq> FlowStateEstablished"
  shows "lru_established (fst (lru_Lookup c f cr st now l)) \<subseteq>
     lru_established l \<union> (if st = FlowStateEstablished then {flow_key f} else {})"
proof (cases "lru_get (flow_key f) l")
  case None
  then show ?thesis using lru_create_established [of c f cr st now l] by (auto simp: lru_Lookup_def split: if_splits)
next
  case (Some x)
  note K = lru_get_key [OF Some]
  show ?thesis
  proof (cases "isEntryExpired c x now")
    case True
    then show ?thesis
      using Some lru_create_established [of c f cr st now "lru_del (flow_key f) l"] lru_established_del [of "flow_key f" l]
      by (auto simp: lru_Lookup_def split: if_splits)
  next
    case False
    then show ?thesis
      using Some K assms
      by (auto simp: lru_Lookup_def lru_established_def Let_def lru_get_Cons lru_get_del_other ekey_def split: if_splits)
  qed
qed

lemma lru_Lookup_hit:
  assumes "fst (snd (lru_Lookup c f False st now l)) = Some x" "fe_State x = FlowStateEstablished" "st \<noteq> FlowStateEstablished"
  shows "flow_key f \<in> lru_established l"
  using assms
  by (auto simp: lru_Lookup_def lru_create_def lru_established_def Let_def split: option.splits if_splits)

lemma lru_Lookup_seen: "fst (snd (lru_Lookup c f cr st now l)) = Some x \<Longrightarrow> LastSeen x = now"
  by (auto simp: lru_Lookup_def lru_create_def new_entry_def Let_def split: option.splits if_splits)

lemma track_flow_ok:
  assumes "flows_ok (flowTable d)"
  obtains ft x new where "track_flow now d f cr st = Some (d\<lparr>flowTable := ft\<rparr>, x, new)" "flows_ok ft"
    "cr \<or> st \<noteq> FlowStateEstablished \<Longrightarrow>
       established ft \<subseteq> established (flowTable d) \<union> (if st = FlowStateEstablished then {flow_key f} else {})"
    "\<And>e. x = Some e \<Longrightarrow> LastSeen (cells ft e) = now"
    "\<And>e. \<lbrakk>\<not> cr; st \<noteq> FlowStateEstablished; x = Some e; fe_State (cells ft e) = FlowStateEstablished\<rbrakk> \<Longrightarrow>
       flow_key f \<in> established (flowTable d)"
proof -
  obtain c l where M: "models (flowTable d) c l" using assms by (auto simp: flows_ok_def)
  obtain ft x where L: "Lookup (\<lambda>_ _. True) (flowTable d) f cr st now =
        Some (ft, x, snd (NormalizeFlowKey f), snd (snd (lru_Lookup c f cr st now l)))"
      "models ft c (fst (lru_Lookup c f cr st now l))"
      "map_option (\<lambda>e. strip (cells ft e)) x = fst (snd (lru_Lookup c f cr st now l))"
    using Lookup_models [OF M] by blast
  have S: "fst (snd (lru_Lookup c f cr st now l)) = Some (strip (cells ft e))" if "x = Some e" for e
    using L(3) that by auto
  show thesis
  proof
    show "track_flow now d f cr st = Some (d\<lparr>flowTable := ft\<rparr>, x, snd (snd (lru_Lookup c f cr st now l)))"
      using L(1) by (simp add: track_flow_def)
    show "flows_ok ft" using L(2) by (auto simp: flows_ok_def)
    show "established ft \<subseteq> established (flowTable d) \<union> (if st = FlowStateEstablished then {flow_key f} else {})"
      if "cr \<or> st \<noteq> FlowStateEstablished"
      using lru_Lookup_established [OF that] by (simp add: models_established [OF M] models_established [OF L(2)])
    show "LastSeen (cells ft e) = now" if "x = Some e" for e
      using lru_Lookup_seen [OF S [OF that]] by (simp add: strip_def)
    show "flow_key f \<in> established (flowTable d)"
      if "\<not> cr" "st \<noteq> FlowStateEstablished" "x = Some e" "fe_State (cells ft e) = FlowStateEstablished" for e
      using lru_Lookup_hit [of c f st now l] S [OF that(3)] that by (simp add: models_established [OF M] strip_def)
  qed
qed

lemma UpdateState_ok:
  assumes "flows_ok ft" "st \<noteq> FlowStateEstablished"
  shows "flows_ok (fst (UpdateState ft f st now))" "established (fst (UpdateState ft f st now)) \<subseteq> established ft"
proof -
  obtain c l where M: "models ft c l" using assms by (auto simp: flows_ok_def)
  note U = UpdateState_models(1) [OF M, of f st now]
  show "flows_ok (fst (UpdateState ft f st now))" using U by (auto simp: flows_ok_def)
  have "lru_established (fst (lru_Update c f st now l)) \<subseteq> lru_established l"
    using assms(2)
    by (auto simp: lru_Update_def lru_established_def Let_def lru_get_Cons lru_get_del_other split: option.splits if_splits)
  then show "established (fst (UpdateState ft f st now)) \<subseteq> established ft"
    by (simp add: models_established [OF M] models_established [OF U])
qed

lemma lru_get_mem: "distinct (map ekey l) \<Longrightarrow> x \<in> set l \<Longrightarrow> lru_get (ekey x) l = Some x"
  by (induction l) (auto simp: lru_get_def)

lemma lru_get_filter: "distinct (map ekey l) \<Longrightarrow> lru_get k (filter P l) = Some x \<Longrightarrow> lru_get k l = Some x"
proof -
  assume D: "distinct (map ekey l)" and G: "lru_get k (filter P l) = Some x"
  from G have "x \<in> set (filter P l)" by (metis find_Some_iff lru_get_def nth_mem)
  then show "lru_get k l = Some x" using lru_get_mem [OF D, of x] lru_get_key [OF G] by simp
qed

lemma expireFlows_ok:
  assumes "flows_ok (flowTable d)"
  shows "flows_ok (flowTable (expireFlows now ks d))" "established (flowTable (expireFlows now ks d)) \<subseteq> established (flowTable d)"
proof -
  obtain c l where M: "models (flowTable d) c l" using assms by (auto simp: flows_ok_def)
  have E: "models (flowTable (expireFlows now ks d)) c (lru_expire c ks now l)"
    using flow_exec_models [OF M, of "FExpire ks now"] by (auto simp: expireFlows_def split: prod.splits)
  then show "flows_ok (flowTable (expireFlows now ks d))" by (auto simp: flows_ok_def)
  have "lru_get k (lru_expire c ks now l) = Some x \<Longrightarrow> lru_get k l = Some x" for k x
    using models_keys [OF M] lru_get_filter unfolding lru_expire_def by blast
  then show "established (flowTable (expireFlows now ks d)) \<subseteq> established (flowTable d)"
    by (auto simp: models_established [OF M] models_established [OF E] lru_established_def)
qed

section \<open>The inbound check\<close>

text \<open>The connections a decrypted packet may open, and whether the packet may enter at all.\<close>

definition admits :: "('k, 'm) Dispatcher_scheme \<Rightarrow> eref \<Rightarrow> bytes \<Rightarrow> FlowKey set" where
  "admits d entry plain = (case (policyDecider d, ParsePacket plain) of
      (Some pd, Some (f, KindStart, None)) \<Rightarrow>
        if dec_Action (pd_Decide d pd (ID (entries d entry)) (selfPeerID d) (flow_Proto f) (DstPort f)) = ActionAllow
        then {flow_key f} else {}
    | _ \<Rightarrow> {})"

definition may_enter :: "('k, 'm) Dispatcher_scheme \<Rightarrow> eref \<Rightarrow> bytes \<Rightarrow> bool" where
  "may_enter d entry plain = (policyDecider d = None \<or>
     (case ParsePacket plain of
        Some (f, k, None) \<Rightarrow> if k = KindStart then flow_key f \<in> admits d entry plain else flow_key f \<in> established (flowTable d)
      | _ \<Rightarrow> False))"

definition only_tracking :: "('k, 'm) Dispatcher_scheme \<Rightarrow> ('k, 'm) Dispatcher_scheme \<Rightarrow> bool" where
  "only_tracking d d' \<longleftrightarrow> tun d' = tun d \<and> peers d' = peers d \<and> entries d' = entries d \<and> sessions d' = sessions d \<and>
     policyDecider d' = policyDecider d \<and> policies d' = policies d \<and> selfPeerID d' = selfPeerID d \<and>
     udp_sent d' = udp_sent d \<and> tun_written d' = tun_written d \<and> Dispatcher.more d' = Dispatcher.more d"

lemma recordDrop_only [simp]: "only_tracking d (recordDrop now d1 p dec) = only_tracking d d1"
  "flowTable (recordDrop now d p dec) = flowTable d"
  by (simp_all add: recordDrop_def only_tracking_def Let_def)

lemma set_LastSeen_same:
  assumes "\<And>e. x = Some e \<Longrightarrow> LastSeen (cells (flowTable d) e) = now"
  shows "set_LastSeen now d x = d"
proof (cases x)
  case (Some e)
  then have "(cells (flowTable d) e)\<lparr>LastSeen := now\<rparr> = cells (flowTable d) e" using assms by simp
  then show ?thesis by (simp add: set_LastSeen_def Some del: FlowEntry.update_convs)
qed (simp add: set_LastSeen_def)

lemma ParsePacket_returns: "ParsePacket pkt \<noteq> None"
  by (auto simp: ParsePacket_def panic_free simp del: not_None_eq)

definition check_ok :: "('k, 'm) Dispatcher_scheme \<Rightarrow> eref \<Rightarrow> bytes \<Rightarrow> (('k, 'm) Dispatcher_scheme \<times> bool) option \<Rightarrow> bool" where
  "check_ok d entry plain r \<longleftrightarrow> (\<exists>d' pass. r = Some (d', pass) \<and> only_tracking d d' \<and> flows_ok (flowTable d') \<and>
     established (flowTable d') \<subseteq> established (flowTable d) \<union> admits d entry plain \<and> (pass \<longrightarrow> may_enter d entry plain))"

lemma check_okI:
  assumes "r = Some (d', pass)" "only_tracking d d'" "flows_ok (flowTable d')"
    "established (flowTable d') \<subseteq> established (flowTable d) \<union> admits d entry plain" "pass \<longrightarrow> may_enter d entry plain"
  shows "check_ok d entry plain r"
  using assms unfolding check_ok_def by blast

lemma only_tracking_flow [simp]: "only_tracking d (d\<lparr>flowTable := ft\<rparr>)" "only_tracking d d"
  by (simp_all add: only_tracking_def)

lemma admits_start:
  assumes "policyDecider d = Some pd" "ParsePacket plain = Some (f, KindStart, None)"
  shows "admits d entry plain = (if dec_Action (pd_Decide d pd (ID (entries d entry)) (selfPeerID d) (flow_Proto f) (DstPort f)) =
     ActionAllow then {flow_key f} else {})" "may_enter d entry plain \<longleftrightarrow> flow_key f \<in> admits d entry plain"
  using assms by (simp_all add: admits_def may_enter_def)

lemma inbound_start:
  assumes ok: "flows_ok (flowTable d)" and pd: "policyDecider d = Some pd" and P: "ParsePacket plain = Some (f, KindStart, None)"
  shows "check_ok d entry plain (inbound_check now d entry plain)"
proof -
  let ?dec = "pd_Decide d pd (ID (entries d entry)) (selfPeerID d) (flow_Proto f) (DstPort f)"
  note defs = inbound_check_def getPolicyDecider_def pd P admits_start [OF pd P]
  show ?thesis
  proof (cases "dec_Action ?dec")
    case ActionDeny
    then show ?thesis
      by (intro check_okI [where d' = "recordDrop now d (ID (entries d entry)) ?dec" and pass = False]) (simp_all add: defs ok Let_def)
  next
    case ActionAllow
    obtain ft x new where T: "track_flow now d f True FlowStateEstablished = Some (d\<lparr>flowTable := ft\<rparr>, x, new)" "flows_ok ft"
        "established ft \<subseteq> established (flowTable d) \<union> {flow_key f}"
      by (rule track_flow_ok [OF ok, of now f True FlowStateEstablished]) auto
    then show ?thesis
      by (intro check_okI [where d' = "d\<lparr>flowTable := ft\<rparr>" and pass = True]) (simp_all add: defs ActionAllow)
  qed
qed

lemma track_known:
  assumes ok: "flows_ok (flowTable d)"
  obtains ft x new where "track_flow now d f False FlowStateNew = Some (d\<lparr>flowTable := ft\<rparr>, x, new)" "flows_ok ft"
    "established ft \<subseteq> established (flowTable d)" "set_LastSeen now (d\<lparr>flowTable := ft\<rparr>) x = d\<lparr>flowTable := ft\<rparr>"
    "flow_state (d\<lparr>flowTable := ft\<rparr>) x = Some FlowStateEstablished \<longrightarrow> flow_key f \<in> established (flowTable d)"
proof (rule track_flow_ok [OF ok, of now f False FlowStateNew])
  fix ft x new
  assume T: "track_flow now d f False FlowStateNew = Some (d\<lparr>flowTable := ft\<rparr>, x, new)" "flows_ok ft"
    "False \<or> FlowStateNew \<noteq> FlowStateEstablished \<Longrightarrow>
       established ft \<subseteq> established (flowTable d) \<union> (if FlowStateNew = FlowStateEstablished then {flow_key f} else {})"
    "\<And>e. x = Some e \<Longrightarrow> LastSeen (cells ft e) = now"
    "\<And>e. \<lbrakk>\<not> False; FlowStateNew \<noteq> FlowStateEstablished; x = Some e; fe_State (cells ft e) = FlowStateEstablished\<rbrakk> \<Longrightarrow>
       flow_key f \<in> established (flowTable d)"
  have "set_LastSeen now (d\<lparr>flowTable := ft\<rparr>) x = d\<lparr>flowTable := ft\<rparr>" using T(4) by (intro set_LastSeen_same) auto
  moreover have "flow_key f \<in> established (flowTable d)" if "flow_state (d\<lparr>flowTable := ft\<rparr>) x = Some FlowStateEstablished"
    using that T(5) by (auto simp: flow_state_def)
  ultimately show thesis using T(1-3) by (intro that) auto
qed

lemma inbound_end:
  assumes ok: "flows_ok (flowTable d)" and pd: "policyDecider d = Some pd" and P: "ParsePacket plain = Some (f, KindEnd, None)"
  shows "check_ok d entry plain (inbound_check now d entry plain)"
proof -
  note defs = inbound_check_def getPolicyDecider_def pd P may_enter_def
  obtain ft x new where T: "track_flow now d f False FlowStateNew = Some (d\<lparr>flowTable := ft\<rparr>, x, new)" "flows_ok ft"
    "established ft \<subseteq> established (flowTable d)" "set_LastSeen now (d\<lparr>flowTable := ft\<rparr>) x = d\<lparr>flowTable := ft\<rparr>"
    "flow_state (d\<lparr>flowTable := ft\<rparr>) x = Some FlowStateEstablished \<longrightarrow> flow_key f \<in> established (flowTable d)"
    by (rule track_known [OF ok, of now f])
  note U = UpdateState_ok [OF T(2), of FlowStateClosing f now]
  show ?thesis
  proof (cases "\<not> new \<and> flow_state (d\<lparr>flowTable := ft\<rparr>) x = Some FlowStateEstablished")
    case True
    then show ?thesis using T U
      by (intro check_okI [where d' = "d\<lparr>flowTable := fst (UpdateState ft f FlowStateClosing now)\<rparr>" and pass = True])
        (auto simp: defs)
  next
    case False
    then show ?thesis using T
      by (intro check_okI [where d' = "recordDrop now (d\<lparr>flowTable := ft\<rparr>) (ID (entries d entry)) drop_untracked" and pass = False])
        (auto simp: defs)
  qed
qed

lemma inbound_other:
  assumes ok: "flows_ok (flowTable d)" and pd: "policyDecider d = Some pd" and P: "ParsePacket plain = Some (f, k, None)"
    and k: "k = KindOther \<or> k = KindFragment \<or> k = KindError"
  shows "check_ok d entry plain (inbound_check now d entry plain)"
proof -
  note defs = inbound_check_def getPolicyDecider_def pd P may_enter_def
  obtain ft x new where T: "track_flow now d f False FlowStateNew = Some (d\<lparr>flowTable := ft\<rparr>, x, new)" "flows_ok ft"
    "established ft \<subseteq> established (flowTable d)" "set_LastSeen now (d\<lparr>flowTable := ft\<rparr>) x = d\<lparr>flowTable := ft\<rparr>"
    "flow_state (d\<lparr>flowTable := ft\<rparr>) x = Some FlowStateEstablished \<longrightarrow> flow_key f \<in> established (flowTable d)"
    by (rule track_known [OF ok, of now f])
  show ?thesis
  proof (cases "new \<or> flow_state (d\<lparr>flowTable := ft\<rparr>) x \<noteq> Some FlowStateEstablished")
    case True
    then show ?thesis using T k
      by (intro check_okI [where d' = "recordDrop now (d\<lparr>flowTable := ft\<rparr>) (ID (entries d entry)) drop_untracked" and pass = False])
        (auto simp: defs)
  next
    case False
    then show ?thesis using T k
      by (intro check_okI [where d' = "d\<lparr>flowTable := ft\<rparr>" and pass = True]) (auto simp: defs)
  qed
qed

lemma inbound_check_ok:
  assumes ok: "flows_ok (flowTable d)"
  shows "check_ok d entry plain (inbound_check now d entry plain)"
proof (cases "policyDecider d")
  case None
  then show ?thesis
    by (auto simp: inbound_check_def getPolicyDecider_def check_ok_def only_tracking_def may_enter_def ok)
next
  case (Some pd)
  obtain f k err where P: "ParsePacket plain = Some (f, k, err)"
    using ParsePacket_returns [of plain] by (metis not_None_eq prod_cases3)
  show ?thesis
  proof (cases err)
    case err: (Some m)
    show ?thesis by (auto simp: inbound_check_def getPolicyDecider_def Some P err check_ok_def only_tracking_def ok)
  next
    case None
    then show ?thesis using P inbound_start [OF ok Some] inbound_end [OF ok Some] inbound_other [OF ok Some]
      by (cases k) blast+
  qed
qed

section \<open>The contract of the callbacks\<close>

text \<open>What the dispatcher relies on when it calls out: the callbacks do not touch the TUN device, the policy or the
  flows, and leave every peer's identity, address and routes alone.\<close>

definition quiet :: "('k, 'm) Dispatcher_scheme \<Rightarrow> ('k, 'm) Dispatcher_scheme \<Rightarrow> bool" where
  "quiet d d' \<longleftrightarrow> tun d' = tun d \<and> policyDecider d' = policyDecider d \<and> policies d' = policies d \<and>
     selfPeerID d' = selfPeerID d \<and> flowTable d' = flowTable d \<and> tun_written d' = tun_written d \<and>
     byVPN (peers d') = byVPN (peers d) \<and>
     (\<forall>e. ID (entries d' e) = ID (entries d e) \<and> VPNAddr (entries d' e) = VPNAddr (entries d e) \<and>
          SubnetRoutes (entries d' e) = SubnetRoutes (entries d e))"

lemma quiet_refl [simp, intro]: "quiet d d"
  by (simp add: quiet_def)

lemma quiet_trans: "quiet a b \<Longrightarrow> quiet b c \<Longrightarrow> quiet a c"
  by (simp add: quiet_def)

lemma quiet_updates [simp]:
  "quiet d (on_session d s x)" "quiet d (conn_WriteTo d pkt addr)"
  "ID x' = ID (entries d e) \<Longrightarrow> VPNAddr x' = VPNAddr (entries d e) \<Longrightarrow> SubnetRoutes x' = SubnetRoutes (entries d e) \<Longrightarrow>
     quiet d (on_entry d e x')"
  by (auto simp: quiet_def state_updates)

lemma entry_identity [simp]:
  "ID (fst (Enqueue e pkt)) = ID e" "VPNAddr (fst (Enqueue e pkt)) = VPNAddr e" "SubnetRoutes (fst (Enqueue e pkt)) = SubnetRoutes e"
  "ID (fst (PromotePendingSession e)) = ID e" "VPNAddr (fst (PromotePendingSession e)) = VPNAddr e"
  "SubnetRoutes (fst (PromotePendingSession e)) = SubnetRoutes e"
  "ID (fst (DrainQueue e)) = ID e" "VPNAddr (fst (DrainQueue e)) = VPNAddr e" "SubnetRoutes (fst (DrainQueue e)) = SubnetRoutes e"
  "ID (Touch e now) = ID e" "VPNAddr (Touch e now) = VPNAddr e" "SubnetRoutes (Touch e now) = SubnetRoutes e"
  by (simp_all add: Enqueue_def PromotePendingSession_def DrainQueue_def Touch_def Let_def)

lemma quiet_enqueue [simp]: "quiet d (enqueue_for d e pkt)"
  by (simp add: enqueue_for_def)

lemma quiet_decisions:
  assumes "quiet d d'"
  shows "sourceAllowed d' entry plain = sourceAllowed d entry plain" "admits d' entry plain = admits d entry plain"
    "may_enter d' entry plain = may_enter d entry plain"
proof -
  have E: "tun d' = tun d" "byVPN (peers d') = byVPN (peers d)" "policyDecider d' = policyDecider d" "policies d' = policies d"
      "selfPeerID d' = selfPeerID d" "flowTable d' = flowTable d"
    and F: "ID (entries d' entry) = ID (entries d entry)" "VPNAddr (entries d' entry) = VPNAddr (entries d entry)"
      "SubnetRoutes (entries d' entry) = SubnetRoutes (entries d entry)"
    using assms by (simp_all add: quiet_def)
  show "sourceAllowed d' entry plain = sourceAllowed d entry plain"
    unfolding sourceAllowed_def LookupByVPN_def E F ..
  show A: "admits d' entry plain = admits d entry plain"
    unfolding admits_def pd_Decide_def E F ..
  show "may_enter d' entry plain = may_enter d entry plain"
    unfolding may_enter_def A E F ..
qed

lemma flush_packets_quiet: "quiet d (flush_packets seal s ep pkts d)"
proof (induction pkts arbitrary: d)
  case (Cons pkt pkts)
  obtain s' r where E: "Encrypt seal (sessions d s) pkt = (s', r)" by fastforce
  have "quiet d (conn_WriteTo (on_session d s s') p a)" for p a
    by (rule quiet_trans [OF quiet_updates(1) quiet_updates(2)])
  then show ?case using E quiet_trans [OF _ Cons.IH] by (cases r) auto
qed simp

lemma FlushHoldQueue_quiet: "quiet d (FlushHoldQueue seal d e)"
proof -
  have "quiet d (on_entry d e (fst (DrainQueue (entries d e))))" by simp
  from quiet_trans [OF this flush_packets_quiet] show ?thesis
    by (simp add: FlushHoldQueue_def Let_def case_prod_beta split: option.splits)
qed

locale quiet_hooks =
  fixes H :: "('k, 'm) Dispatcher_scheme Hooks"
  assumes required_quiet: "OnHandshakeRequired H = Some f \<Longrightarrow> quiet d (f d e)"
    and rekey_quiet: "OnRekeyRequired H = Some f \<Longrightarrow> quiet d (f d e)"
    and established_quiet: "OnSessionEstablished H = Some f \<Longrightarrow> quiet d (f d e)"
    and handshake_quiet: "OnHandshakePacket H = Some g \<Longrightarrow> quiet d (g d pkt addr)"
    and probe_quiet: "OnNATProbePacket H = Some g \<Longrightarrow> quiet d (g d pkt addr)"
begin

lemma calls_quiet [simp]:
  "quiet d (call_entry (OnHandshakeRequired H) d e)" "quiet d (call_entry (OnRekeyRequired H) d e)"
  "quiet d (call_entry (OnSessionEstablished H) d e)" "quiet d (call_packet (OnHandshakePacket H) d pkt addr)"
  "quiet d (call_packet (OnNATProbePacket H) d pkt addr)"
  using required_quiet rekey_quiet established_quiet handshake_quiet probe_quiet
  by (auto simp: call_entry_def call_packet_def split: option.splits)

lemma decrypt_with_quiet: "decrypt_with unseal d s n p = (d', r) \<Longrightarrow> quiet d d'"
  by (auto simp: decrypt_with_def split: option.splits prod.splits)

lemma decrypt_quiet:
  assumes "decryptDataPacket unseal H d entry s n p = (d', r)"
  shows "quiet d d'"
proof -
  obtain d1 r1 where 1: "decrypt_with unseal d s n p = (d1, r1)" by fastforce
  obtain d2 r2 where 2: "decrypt_with unseal d1 (pendingSession (entries d1 entry)) n p = (d2, r2)" by fastforce
  note Q = decrypt_with_quiet [OF 1] quiet_trans [OF decrypt_with_quiet [OF 1] decrypt_with_quiet [OF 2]]
  have "quiet d2 (call_entry (OnSessionEstablished H) (on_entry d2 entry (fst (PromotePendingSession (entries d2 entry)))) entry)"
    by (rule quiet_trans [OF _ calls_quiet(3)]) simp
  then have P: "quiet d (call_entry (OnSessionEstablished H) (on_entry d2 entry (fst (PromotePendingSession (entries d2 entry)))) entry)"
    by (rule quiet_trans [OF Q(2)])
  show ?thesis
    using assms 1 2 Q P quiet_trans [OF Q(2) decrypt_with_quiet]
    by (auto simp: decryptDataPacket_def Let_def split: option.splits if_splits)
qed

lemma checkRekey_quiet: "quiet d (checkRekey H now es d)"
proof (induction es arbitrary: d)
  case (Cons e es)
  have "quiet d (case session (entries d e) of None \<Rightarrow> d
      | Some sess \<Rightarrow> if NeedsRekey (sessions d sess) now then call_entry (OnRekeyRequired H) d e else d)"
    by (auto split: option.splits)
  then show ?case using Cons.IH quiet_trans by fastforce
qed simp

end

text \<open>The packet a data payload carries, with the peer it came from, when it decrypts and its source is the peer's.\<close>

definition incoming ::
  "('k \<Rightarrow> u64 \<Rightarrow> bytes \<Rightarrow> bytes option) \<Rightarrow> ('k, 'm) Dispatcher_scheme Hooks \<Rightarrow> ('k, 'm) Dispatcher_scheme \<Rightarrow> u64 \<Rightarrow> bytes \<Rightarrow>
    net_addr \<Rightarrow> (eref \<times> bytes) option" where
  "incoming unseal H d nonce payload addr =
     (case addrToAddrPort addr of None \<Rightarrow> None
      | Some ep \<Rightarrow> (case LookupByEndpoint (peers d) ep of None \<Rightarrow> None
      | Some entry \<Rightarrow> (case snd (decryptDataPacket unseal H d entry (session (entries d entry)) nonce payload) of
            None \<Rightarrow> None
          | Some plain \<Rightarrow> if sourceAllowed d entry plain then Some (entry, plain) else None)))"

definition incoming_packet ::
  "('k \<Rightarrow> u64 \<Rightarrow> bytes \<Rightarrow> bytes option) \<Rightarrow> ('k, 'm) Dispatcher_scheme Hooks \<Rightarrow> ('k, 'm) Dispatcher_scheme \<Rightarrow> bytes \<Rightarrow>
    net_addr \<Rightarrow> (eref \<times> bytes) option" where
  "incoming_packet unseal H d pkt addr =
     (case byte_slice pkt 0 HeaderSize \<bind> parseHeader of
        Some (t, _, nonce) \<Rightarrow> if t = TypeData then incoming unseal H d nonce (drop HeaderSize pkt) addr else None
      | None \<Rightarrow> None)"

text \<open>What a handler does to the flows and the TUN device, given the packet that came in.\<close>

definition passes_only :: "('k, 'm) Dispatcher_scheme \<Rightarrow> (eref \<times> bytes) option \<Rightarrow> ('k, 'm) Dispatcher_scheme \<Rightarrow> bool" where
  "passes_only d inc d' \<longleftrightarrow> flows_ok (flowTable d') \<and>
     (case inc of
        None \<Rightarrow> established (flowTable d') \<subseteq> established (flowTable d) \<and> tun_written d' = tun_written d
      | Some (entry, plain) \<Rightarrow>
          established (flowTable d') \<subseteq> established (flowTable d) \<union> admits d entry plain \<and>
          (tun_written d' = tun_written d \<or>
           tun_written d' = tun_written d @ [plain] \<and> may_enter d entry plain \<and> sourceAllowed d entry plain))"

lemma quiet_passes: "quiet d d' \<Longrightarrow> flows_ok (flowTable d) \<Longrightarrow> passes_only d inc d'"
  by (auto simp: passes_only_def quiet_def split: option.splits prod.splits)

context quiet_hooks
begin

lemma handleData_passes:
  assumes ok: "flows_ok (flowTable d)"
  shows "\<exists>d'. handleData unseal H now d nonce payload addr = Some d' \<and> passes_only d (incoming unseal H d nonce payload addr) d'"
proof (cases "addrToAddrPort addr")
  case (Some ep)
  show ?thesis
  proof (cases "LookupByEndpoint (peers d) ep")
    case entry: (Some entry)
    obtain d1 r where D: "decryptDataPacket unseal H d entry (session (entries d entry)) nonce payload = (d1, r)" by fastforce
    note Q = decrypt_quiet [OF D] note Qd = quiet_decisions [OF Q]
    have ok1: "flows_ok (flowTable d1)" "flowTable d1 = flowTable d" "tun_written d1 = tun_written d" using Q ok by (auto simp: quiet_def)
    show ?thesis
    proof (cases r)
      case None
      then show ?thesis using D Some entry quiet_passes [OF Q ok] by (simp add: handleData_def)
    next
      case plain: (Some plain)
      show ?thesis
      proof (cases "sourceAllowed d entry plain")
        case False
        then show ?thesis using D Some entry plain quiet_passes [OF Q ok] by (simp add: handleData_def Qd)
      next
        case True
        obtain d2 pass where C: "inbound_check now d1 entry plain = Some (d2, pass)" "only_tracking d1 d2" "flows_ok (flowTable d2)"
            "established (flowTable d2) \<subseteq> established (flowTable d) \<union> admits d entry plain" "pass \<longrightarrow> may_enter d entry plain"
          using inbound_check_ok [OF ok1(1), of entry plain now] unfolding check_ok_def Qd ok1(2) by blast
        have w: "tun_written d2 = tun_written d" using C(2) ok1 by (simp add: only_tracking_def)
        have I: "incoming unseal H d nonce payload addr = Some (entry, plain)" using D Some entry plain True by (simp add: incoming_def)
        show ?thesis
          using D Some entry plain True C w
          by (cases pass) (auto simp: handleData_def Qd I passes_only_def state_updates)
      qed
    qed
  qed (use Some ok in \<open>simp add: handleData_def incoming_def quiet_passes\<close>)
qed (use ok in \<open>simp add: handleData_def incoming_def quiet_passes\<close>)

lemma handleUDPPacket_passes:
  assumes ok: "flows_ok (flowTable d)" and len: "HeaderSize \<le> length pkt"
  shows "\<exists>d'. handleUDPPacket unseal H now d pkt addr = Some d' \<and> passes_only d (incoming_packet unseal H d pkt addr) d'"
proof -
  have b: "byte_slice pkt 0 HeaderSize = Some (take HeaderSize pkt)" using len by simp
  obtain t i n where h: "parseHeader (take HeaderSize pkt) = Some (t, i, n)"
    using parseHeader_total [of "take HeaderSize pkt"] len by auto
  have touch: "quiet d (on_entry d e (Touch (entries d e) now))" for e by simp
  note Q = quiet_passes [OF _ ok]
  show ?thesis
    using handleData_passes [OF ok, of unseal now n "drop HeaderSize pkt" addr] b h len
    by (auto simp: handleUDPPacket_def incoming_packet_def packet_types intro!: Q touch split: option.splits)
qed

lemma send_to_peer_flows:
  assumes ok: "flows_ok (flowTable d)"
  shows "\<exists>d'. send_to_peer seal H now d e pkt f k = Some d' \<and> flows_ok (flowTable d') \<and>
    established (flowTable d') \<subseteq> established (flowTable d)"
proof -
  have Q: "flows_ok (flowTable d') \<and> established (flowTable d') \<subseteq> established (flowTable d)" if "quiet d d'" for d'
    using that ok by (simp add: quiet_def)
  have call: "quiet d (call_entry (OnHandshakeRequired H) (enqueue_for d e pkt) e)"
      "quiet d (call_entry (OnRekeyRequired H) (enqueue_for d e pkt) e)"
      "quiet d (call_entry (OnRekeyRequired H) (enqueue_for (on_session d s x) e pkt) e)" for s x
    using quiet_trans [OF quiet_enqueue calls_quiet(1)] quiet_trans [OF quiet_enqueue calls_quiet(2)]
      quiet_trans [OF quiet_updates(1) quiet_trans [OF quiet_enqueue calls_quiet(2)]] by auto
  have send: "\<exists>d2 r. track_flow now (on_session d s x) f True FlowStateNew = Some (d2, r) \<and> flows_ok (flowTable d2) \<and>
      established (flowTable d2) \<subseteq> established (flowTable d)" for s x
    by (rule track_flow_ok [of "on_session d s x" now f True FlowStateNew]) (use ok in \<open>auto simp: on_session_def\<close>)
  show ?thesis
  proof (cases "session (entries d e)")
    case None
    then show ?thesis using Q [OF call(1)] by (simp add: send_to_peer_def)
  next
    case (Some s)
    obtain s' r where E: "Encrypt seal (sessions d s) pkt = (s', r)" by fastforce
    obtain d2 x where T: "(if k = KindStart then track_flow now (on_session d s s') f True FlowStateNew
          else Some (on_session d s s', None, False)) = Some (d2, x)"
        "flows_ok (flowTable d2)" "established (flowTable d2) \<subseteq> established (flowTable d)"
      using send [of s s'] ok by (cases "k = KindStart") (auto simp: on_session_def)
    show ?thesis
      using Some E T Q [OF call(2)] Q [OF call(3)] Q [OF quiet_updates(1)]
      by (cases r) (auto simp: send_to_peer_def Let_def conn_WriteTo_def simp del: if_split split: session_error.splits)
  qed
qed

lemma handleTunPacket_flows:
  assumes ok: "flows_ok (flowTable d)"
  shows "\<exists>d'. handleTunPacket seal H now d pkt = Some d' \<and> flows_ok (flowTable d') \<and>
    established (flowTable d') \<subseteq> established (flowTable d)"
proof -
  obtain f k err where P: "ParsePacket pkt = Some (f, k, err)"
    using ParsePacket_returns [of pkt] by (metis not_None_eq prod_cases3)
  have rej: "flowTable (sendReject (recordDrop now d p dec) f pkt) = flowTable d" for p dec
    by (simp add: sendReject_def state_updates)
  show ?thesis
    using send_to_peer_flows [OF ok] ok P rej by (auto simp: handleTunPacket_def split: option.splits)
qed

end

section \<open>Runs of the data plane\<close>

text \<open>The events of the dispatcher's loops, at an instant, and everything the rest of the daemon may do in between:
  a step outside changes peers, sessions and policies as it likes, but the flow table and the TUN device are the
  dispatcher's own.\<close>

datatype plane_event = FromTun bytes | FromUDP bytes net_addr | RekeyTick "eref list" | ExpireTick "FlowKey list" | Outside

inductive plane_step ::
  "('k \<Rightarrow> u64 \<Rightarrow> bytes \<Rightarrow> bytes) \<Rightarrow> ('k \<Rightarrow> u64 \<Rightarrow> bytes \<Rightarrow> bytes option) \<Rightarrow> ('k, 'm) Dispatcher_scheme Hooks \<Rightarrow> gotime \<Rightarrow>
    ('k, 'm) Dispatcher_scheme \<Rightarrow> plane_event \<Rightarrow> ('k, 'm) Dispatcher_scheme \<Rightarrow> bool"
  for seal unseal H where
  step_tun: "tunLoop seal H now d buf = Some d' \<Longrightarrow> plane_step seal unseal H now d (FromTun buf) d'"
| step_udp: "udpLoop unseal H now d buf addr = Some d' \<Longrightarrow> plane_step seal unseal H now d (FromUDP buf addr) d'"
| step_rekey: "plane_step seal unseal H now d (RekeyTick es) (checkRekey H now es d)"
| step_expire: "plane_step seal unseal H now d (ExpireTick ks) (expireFlows now ks d)"
| step_outside: "flowTable d' = flowTable d \<Longrightarrow> tun_written d' = tun_written d \<Longrightarrow> plane_step seal unseal H now d Outside d'"

inductive_cases plane_stepE: "plane_step seal unseal H now d ev d'"

text \<open>The connections an event opens: those of a packet that starts one and that the policy allows in.\<close>

fun opens ::
  "('k \<Rightarrow> u64 \<Rightarrow> bytes \<Rightarrow> bytes option) \<Rightarrow> ('k, 'm) Dispatcher_scheme Hooks \<Rightarrow> ('k, 'm) Dispatcher_scheme \<Rightarrow> plane_event \<Rightarrow> FlowKey set" where
  "opens unseal H d (FromUDP buf addr) =
     (case incoming_packet unseal H d buf addr of None \<Rightarrow> {} | Some (entry, plain) \<Rightarrow> admits d entry plain)"
| "opens unseal H d _ = {}"

text \<open>A run, with the connections its events opened.\<close>

inductive plane_run ::
  "('k \<Rightarrow> u64 \<Rightarrow> bytes \<Rightarrow> bytes) \<Rightarrow> ('k \<Rightarrow> u64 \<Rightarrow> bytes \<Rightarrow> bytes option) \<Rightarrow> ('k, 'm) Dispatcher_scheme Hooks \<Rightarrow>
    ('k, 'm) Dispatcher_scheme \<Rightarrow> FlowKey set \<Rightarrow> ('k, 'm) Dispatcher_scheme \<Rightarrow> bool"
  for seal unseal H d0 where
  run_start: "plane_run seal unseal H d0 {} d0"
| run_event: "\<lbrakk>plane_run seal unseal H d0 K d; plane_step seal unseal H now d ev d'\<rbrakk>
     \<Longrightarrow> plane_run seal unseal H d0 (K \<union> opens unseal H d ev) d'"

context quiet_hooks
begin

lemma loops_return:
  assumes "flows_ok (flowTable d)"
  shows "tunLoop seal H now d buf \<noteq> None" "udpLoop unseal H now d buf addr \<noteq> None"
  using handleTunPacket_flows [OF assms, of seal now buf] handleUDPPacket_passes [OF assms, of buf unseal now addr]
  by (auto simp: tunLoop_def udpLoop_def)

lemma udpLoop_passes:
  assumes ok: "flows_ok (flowTable d)" and step: "udpLoop unseal H now d buf addr = Some d'"
  shows "passes_only d (incoming_packet unseal H d buf addr) d'"
proof (cases "HeaderSize \<le> length buf")
  case True
  then show ?thesis using handleUDPPacket_passes [OF ok True, of unseal now addr] step by (auto simp: udpLoop_def)
next
  case False
  then show ?thesis using step quiet_passes [OF quiet_refl ok] by (simp add: udpLoop_def)
qed

lemma plane_step_flows:
  assumes "plane_step seal unseal H now d ev d'" "flows_ok (flowTable d)"
  shows "flows_ok (flowTable d') \<and> established (flowTable d') \<subseteq> established (flowTable d) \<union> opens unseal H d ev"
  using assms
proof (cases rule: plane_step.cases)
  case (step_tun buf)
  then show ?thesis using handleTunPacket_flows [OF assms(2), of seal now buf] assms(2) by (auto simp: tunLoop_def split: if_splits)
next
  case (step_udp buf addr)
  then show ?thesis using udpLoop_passes [OF assms(2), of unseal now buf addr d']
    by (auto simp: passes_only_def split: option.splits)
next
  case (step_rekey es)
  then show ?thesis using checkRekey_quiet [of d now es] assms(2) by (auto simp: quiet_def)
next
  case (step_expire ks)
  then show ?thesis using expireFlows_ok [OF assms(2)] by auto
qed (use assms(2) in auto)

lemma plane_run_flows:
  assumes "plane_run seal unseal H d0 K d" "flows_ok (flowTable d0)"
  shows "flows_ok (flowTable d) \<and> established (flowTable d) \<subseteq> established (flowTable d0) \<union> K"
  using assms
proof (induction rule: plane_run.induct)
  case (run_event K d now ev d')
  then show ?case using plane_step_flows [OF run_event.hyps(2)] by blast
qed auto

text \<open>What reaches the TUN device from the network.\<close>

lemma delivered_packets:
  assumes "plane_run seal unseal H d0 K d" "flows_ok (flowTable d0)" "established (flowTable d0) = {}"
    and "udpLoop unseal H now d buf addr = Some d'" "tun_written d' = tun_written d @ ps" "p \<in> set ps"
  obtains entry where "incoming_packet unseal H d buf addr = Some (entry, p)" "sourceAllowed d entry p"
    "policyDecider d \<noteq> None \<longrightarrow> (\<exists>f k. ParsePacket p = Some (f, k, None) \<and>
       flow_key f \<in> (if k = KindStart then admits d entry p else K))"
proof -
  note F = plane_run_flows [OF assms(1,2)]
  from udpLoop_passes [OF _ assms(4)] F assms(5,6) obtain entry where
    I: "incoming_packet unseal H d buf addr = Some (entry, p)" "may_enter d entry p" "sourceAllowed d entry p"
    by (auto simp: passes_only_def split: option.splits)
  have "\<exists>f k. ParsePacket p = Some (f, k, None) \<and> flow_key f \<in> (if k = KindStart then admits d entry p else K)"
    if "policyDecider d \<noteq> None"
    using I(2) F that assms(3) by (auto simp: may_enter_def split: option.splits prod.splits if_splits)
  then show thesis by (intro that [OF I(1,3)] impI)
qed

end

end
