(* ===== verification/Crypto.thy ===== *)
theory Crypto
  imports Veld_Prelude "HOL-Library.Char_ord" "HOL-Library.List_Lexorder" "HOL-Library.Multiset"
begin

text \<open>
  The package \<open>internal/crypto\<close>: the identity of a node and its self test (\<open>keys.go\<close>), the messages the coordination
  protocol signs (\<open>register.go\<close>, \<open>call.go\<close>) and the two messages of the Noise IK handshake with what they carry
  (\<open>noise.go\<close>).

  The primitives are arguments. A record \<open>ed\<close> holds signing, verification, the public half of
  an Ed25519 key and the X25519 base point multiplication; a record \<open>N\<close> holds the Noise library, a handshake state
  being a value of type \<open>'h\<close> and a cipher state one of type \<open>'k\<close>. Random bytes a call reads are its arguments too.
  A signed 64-bit integer is an int in its range; \<open>wrap64\<close> is written where arithmetic can leave the range.
\<close>

section \<open>Primitives\<close>

record ed25519 =
  Ed_Sign :: "bytes \<Rightarrow> bytes \<Rightarrow> bytes"
  Ed_Verify :: "bytes \<Rightarrow> bytes \<Rightarrow> bytes \<Rightarrow> bool"
  Ed_Public :: "bytes \<Rightarrow> bytes"
  X_Base :: "bytes \<Rightarrow> bytes option"

record ('h, 'k) noise =
  NewHandshakeState :: "bytes option \<Rightarrow> bool \<Rightarrow> bytes \<Rightarrow> bytes \<Rightarrow> bytes option \<Rightarrow> 'h option"
  WriteMessage1 :: "'h \<Rightarrow> bytes \<Rightarrow> ('h \<times> bytes) option"
  ReadMessage1 :: "'h \<Rightarrow> bytes \<Rightarrow> ('h \<times> bytes) option"
  PeerStatic :: "'h \<Rightarrow> bytes"
  WriteMessage2 :: "'h \<Rightarrow> bytes \<Rightarrow> bytes \<Rightarrow> (bytes \<times> 'k \<times> 'k) option"
  ReadMessage2 :: "'h \<Rightarrow> bytes \<Rightarrow> (bytes \<times> 'k \<times> 'k) option"

definition wrap64 :: "int \<Rightarrow> int" where
  "wrap64 x = (x + 2 ^ 63) mod 2 ^ 64 - 2 ^ 63"

definition int64_bytes :: "int \<Rightarrow> bytes" where
  "int64_bytes x = be_bytes 8 (unat (word_of_int x :: u64))"

definition int64_of :: "u64 \<Rightarrow> int" where
  "int64_of w = wrap64 (uint w)"

definition str_bytes :: "string \<Rightarrow> bytes" where
  "str_bytes s = map of_char s"

definition copy_array :: "nat \<Rightarrow> bytes \<Rightarrow> bytes" where
  "copy_array n b = put_bytes (replicate n 0) 0 b"

section \<open>Identities\<close>

record Identity =
  Ed25519Private :: bytes
  Ed25519Public :: bytes
  X25519Private :: bytes
  X25519Public :: bytes
  X25519Sig :: bytes

definition PrivateKeySize :: nat where "PrivateKeySize = 64"

definition selfTest :: "ed25519 \<Rightarrow> Identity \<Rightarrow> string option" where
  "selfTest ed i =
     (if length (Ed25519Private i) \<noteq> PrivateKeySize then Some ''Ed25519 private key size mismatch''
      else if Ed25519Public i \<noteq> Ed_Public ed (Ed25519Private i) then Some ''Ed25519 public key does not match private key''
      else let testMsg = str_bytes ''veld-keystore-self-test''
      in if \<not> Ed_Verify ed (Ed25519Public i) testMsg (Ed_Sign ed (Ed25519Private i) testMsg)
         then Some ''Ed25519 sign/verify self-test failed''
      else if list_all (\<lambda>b. b = 0) (X25519Private i) then Some ''X25519 private key is all zeros''
      else case X_Base ed (X25519Private i) of
             None \<Rightarrow> Some ''failed to derive X25519 public key''
           | Some derivedPub \<Rightarrow>
      if copy_array 32 derivedPub \<noteq> X25519Public i then Some ''X25519 public key does not match private key derivation''
      else if \<not> Ed_Verify ed (Ed25519Public i) (X25519Public i) (X25519Sig i)
      then Some ''X25519Sig is not a valid Ed25519 signature over X25519Public''
      else None)"

definition clamp :: "bytes \<Rightarrow> bytes" where
  "clamp x = (let x = x[0 := (x ! 0) AND 248]; x = x[31 := (x ! 31) AND 127] in x[31 := (x ! 31) OR 64])"

definition Generate :: "ed25519 \<Rightarrow> bytes \<Rightarrow> bytes \<Rightarrow> string + Identity" where
  "Generate ed priv rnd =
     (let x25519Priv = clamp rnd
      in case X_Base ed x25519Priv of
           None \<Rightarrow> Inl ''failed to derive X25519 public key''
         | Some x25519Pub \<Rightarrow>
             (let x25519PubArray = copy_array 32 x25519Pub;
                  sigArray = copy_array 64 (Ed_Sign ed priv x25519PubArray);
                  i = \<lparr>Ed25519Private = priv, Ed25519Public = Ed_Public ed priv, X25519Private = x25519Priv,
                       X25519Public = x25519PubArray, X25519Sig = sigArray\<rparr>
              in case selfTest ed i of None \<Rightarrow> Inr i | Some e \<Rightarrow> Inl (''identity self-test failed: '' @ e)))"

section \<open>Handshake signatures\<close>

definition peer_message :: "bytes \<Rightarrow> bytes \<Rightarrow> int \<Rightarrow> bytes" where
  "peer_message ours theirs ts =
     put_bytes (put_bytes (put_bytes (replicate (32 + 32 + 8) 0) 0 ours) 32 theirs) 64 (int64_bytes ts)"

definition SignForPeer :: "ed25519 \<Rightarrow> Identity \<Rightarrow> bytes \<Rightarrow> int \<Rightarrow> bytes" where
  "SignForPeer ed i theirX25519Public timestampNano =
     copy_array 64 (Ed_Sign ed (Ed25519Private i) (peer_message (X25519Public i) theirX25519Public timestampNano))"

definition MaxTimestampSkew :: duration where "MaxTimestampSkew = 30 * second"

definition NormalizeTimestamp :: "int \<Rightarrow> int" where
  "NormalizeTimestamp raw = (if raw > 1000000000000 then raw else wrap64 (raw * 1000000000))"

definition VerifyPeerSig :: "ed25519 \<Rightarrow> gotime \<Rightarrow> bytes \<Rightarrow> bytes \<Rightarrow> bytes \<Rightarrow> bytes \<Rightarrow> int \<Rightarrow> string option" where
  "VerifyPeerSig ed now peerEd25519Public peerX25519Public ourX25519Public sig timestampRaw =
     (if \<not> Ed_Verify ed peerEd25519Public (peer_message peerX25519Public ourX25519Public timestampRaw) sig
      then Some ''invalid peer signature''
      else (let diff = wrap64 (now - NormalizeTimestamp timestampRaw)
            in if diff < - MaxTimestampSkew \<or> diff > MaxTimestampSkew then Some ''timestamp out of window'' else None))"

section \<open>Signed coordination messages\<close>

definition AppendUint32 :: "bytes \<Rightarrow> u32 \<Rightarrow> bytes" where
  "AppendUint32 buf v = buf @ be_bytes 4 (unat v)"

definition AppendUint64 :: "bytes \<Rightarrow> u64 \<Rightarrow> bytes" where
  "AppendUint64 buf v = buf @ be_bytes 8 (unat v)"

definition appendPrefixedString :: "bytes \<Rightarrow> string \<Rightarrow> bytes" where
  "appendPrefixedString buf s = AppendUint32 buf (of_nat (length s)) @ str_bytes s"

definition RegisterSignatureDomain :: string where
  "RegisterSignatureDomain = ''veld-coord-register-v2'' @ [CHR 0x00]"

definition RegisterTimestampWindow :: int where "RegisterTimestampWindow = 120"

record RegisterClaims =
  rc_NetworkID :: string
  rc_Name :: string
  rc_Ed25519Public :: string
  rc_X25519Public :: string
  rc_Endpoint :: string
  rc_SubnetRoutes :: "string list"
  rc_TimestampUnix :: int

definition RegisterSignedMessage :: "RegisterClaims \<Rightarrow> bytes" where
  "RegisterSignedMessage claims =
     (let routes = sort (rc_SubnetRoutes claims);
          buf = str_bytes RegisterSignatureDomain;
          buf = appendPrefixedString buf (rc_NetworkID claims);
          buf = appendPrefixedString buf (rc_Name claims);
          buf = appendPrefixedString buf (rc_Ed25519Public claims);
          buf = appendPrefixedString buf (rc_X25519Public claims);
          buf = appendPrefixedString buf (rc_Endpoint claims);
          buf = AppendUint32 buf (of_nat (length routes));
          buf = foldl appendPrefixedString buf routes
      in AppendUint64 buf (word_of_int (rc_TimestampUnix claims)))"

definition SignRegister :: "ed25519 \<Rightarrow> bytes \<Rightarrow> RegisterClaims \<Rightarrow> bytes" where
  "SignRegister ed priv claims = Ed_Sign ed priv (RegisterSignedMessage claims)"

definition VerifyRegisterSignature :: "ed25519 \<Rightarrow> bytes \<Rightarrow> bytes \<Rightarrow> RegisterClaims \<Rightarrow> int \<Rightarrow> string option" where
  "VerifyRegisterSignature ed pub sig claims now =
     (if length sig = 0 then Some ''missing register signature''
      else (let drift = wrap64 (now - rc_TimestampUnix claims)
            in if drift < - RegisterTimestampWindow \<or> drift > RegisterTimestampWindow then Some ''register timestamp outside window''
               else if \<not> Ed_Verify ed pub (RegisterSignedMessage claims) sig then Some ''invalid register signature''
               else None))"

definition CallSignatureDomain :: string where
  "CallSignatureDomain = ''veld-coord-call-v1'' @ [CHR 0x00]"

definition CallTimestampWindow :: int where "CallTimestampWindow = RegisterTimestampWindow"

definition CallLeave :: string where "CallLeave = ''Leave''"
definition CallWatch :: string where "CallWatch = ''Watch''"
definition CallSendSignal :: string where "CallSendSignal = ''SendSignal''"

record CallClaims =
  cc_Method :: string
  cc_PeerID :: string
  cc_Args :: "string list"
  cc_TimestampUnix :: int

definition LeaveClaims :: "string \<Rightarrow> int \<Rightarrow> CallClaims" where
  "LeaveClaims peerID ts = \<lparr>cc_Method = CallLeave, cc_PeerID = peerID, cc_Args = [], cc_TimestampUnix = ts\<rparr>"

definition WatchClaims :: "string \<Rightarrow> string \<Rightarrow> int \<Rightarrow> CallClaims" where
  "WatchClaims peerID networkID ts =
     \<lparr>cc_Method = CallWatch, cc_PeerID = peerID, cc_Args = [networkID], cc_TimestampUnix = ts\<rparr>"

text \<open>\<open>hexsum\<close> is the hex text of the SHA-256 of the payload.\<close>

definition SendSignalClaims :: "(bytes \<Rightarrow> string) \<Rightarrow> string \<Rightarrow> string \<Rightarrow> bytes \<Rightarrow> int \<Rightarrow> CallClaims" where
  "SendSignalClaims hexsum fromPeerID toPeerID payload ts =
     \<lparr>cc_Method = CallSendSignal, cc_PeerID = fromPeerID, cc_Args = [toPeerID, hexsum payload], cc_TimestampUnix = ts\<rparr>"

definition CallSignedMessage :: "CallClaims \<Rightarrow> bytes" where
  "CallSignedMessage claims =
     (let buf = str_bytes CallSignatureDomain;
          buf = appendPrefixedString buf (cc_Method claims);
          buf = appendPrefixedString buf (cc_PeerID claims);
          buf = AppendUint32 buf (of_nat (length (cc_Args claims)));
          buf = foldl appendPrefixedString buf (cc_Args claims)
      in AppendUint64 buf (word_of_int (cc_TimestampUnix claims)))"

definition SignCall :: "ed25519 \<Rightarrow> bytes \<Rightarrow> CallClaims \<Rightarrow> bytes" where
  "SignCall ed priv claims = Ed_Sign ed priv (CallSignedMessage claims)"

definition VerifyCallSignature :: "ed25519 \<Rightarrow> bytes \<Rightarrow> bytes \<Rightarrow> CallClaims \<Rightarrow> int \<Rightarrow> string option" where
  "VerifyCallSignature ed pub sig claims now =
     (if length sig = 0 then Some ''missing call signature''
      else (let drift = wrap64 (now - cc_TimestampUnix claims)
            in if drift < - CallTimestampWindow \<or> drift > CallTimestampWindow then Some ''call timestamp outside window''
               else if \<not> Ed_Verify ed pub (CallSignedMessage claims) sig then Some ''invalid call signature''
               else None))"

section \<open>The Noise IK handshake\<close>

datatype handshake_error = ErrHandshakeDrop | ErrOther string

record 'k HandshakeResult =
  SendCS :: 'k
  RecvCS :: 'k
  SessionID :: bytes
  PeerEd25519Public :: bytes
  NetworkID :: bytes

record InitiatorHS =
  i_localID :: Identity
  i_peerX25519 :: bytes
  i_networkID :: bytes
  ephSeed :: bytes
  payload1 :: "bytes option"

definition NewInitiatorHS :: "bytes \<Rightarrow> Identity \<Rightarrow> bytes \<Rightarrow> bytes \<Rightarrow> InitiatorHS" where
  "NewInitiatorHS seed localID peerX25519 networkID =
     \<lparr>i_localID = localID, i_peerX25519 = peerX25519, i_networkID = networkID, ephSeed = seed, payload1 = None\<rparr>"

definition hs_state :: "('h, 'k) noise \<Rightarrow> InitiatorHS \<Rightarrow> 'h option" where
  "hs_state N h = NewHandshakeState N (Some (ephSeed h)) True (X25519Private (i_localID h)) (X25519Public (i_localID h))
     (Some (i_peerX25519 h))"

definition BuildMessage1 ::
  "ed25519 \<Rightarrow> ('h, 'k) noise \<Rightarrow> InitiatorHS \<Rightarrow> int \<Rightarrow> handshake_error + (InitiatorHS \<times> bytes)" where
  "BuildMessage1 ed N h nowNano =
     (let sig = SignForPeer ed (i_localID h) (i_peerX25519 h) nowNano;
          payload = replicate 120 0;
          payload = put_bytes payload 0 (take 32 (Ed25519Public (i_localID h)));
          payload = put_bytes payload 32 sig;
          payload = put_bytes payload 96 (i_networkID h);
          payload = PutUint64 payload 112 (word_of_int nowNano)
      in case hs_state N h of
           None \<Rightarrow> Inl (ErrOther ''handshake state'')
         | Some hs \<Rightarrow>
             (case WriteMessage1 N hs payload of
                None \<Rightarrow> Inl (ErrOther ''write message'')
              | Some (_, msg) \<Rightarrow> Inr (h\<lparr>payload1 := Some payload\<rparr>, msg)))"

definition ProcessMessage2 ::
  "ed25519 \<Rightarrow> ('h, 'k) noise \<Rightarrow> gotime \<Rightarrow> InitiatorHS \<Rightarrow> bytes \<Rightarrow> handshake_error + 'k HandshakeResult" where
  "ProcessMessage2 ed N now h msg =
     (case payload1 h of None \<Rightarrow> Inl ErrHandshakeDrop
      | Some p1 \<Rightarrow>
     (case hs_state N h of None \<Rightarrow> Inl ErrHandshakeDrop
      | Some hs \<Rightarrow>
     (case WriteMessage1 N hs p1 of None \<Rightarrow> Inl ErrHandshakeDrop
      | Some (hs', _) \<Rightarrow>
     (case ReadMessage2 N hs' msg of None \<Rightarrow> Inl ErrHandshakeDrop
      | Some (payload, cs1, cs2) \<Rightarrow>
          if length payload \<noteq> 112 then Inl ErrHandshakeDrop
          else
            (let peerEd25519Pub = take 32 payload; sig = take 64 (drop 32 payload); sessionID = take 8 (drop 96 payload);
                 ts = int64_of (of_nat (be_nat (take 8 (drop 104 payload))))
             in case VerifyPeerSig ed now peerEd25519Pub (i_peerX25519 h) (X25519Public (i_localID h)) sig ts of
                  Some _ \<Rightarrow> Inl ErrHandshakeDrop
                | None \<Rightarrow> Inr \<lparr>SendCS = cs1, RecvCS = cs2, SessionID = sessionID, PeerEd25519Public = peerEd25519Pub,
                                NetworkID = i_networkID h\<rparr>)))))"

type_synonym PeerLookup = "bytes \<Rightarrow> bytes option"

record 'h ResponderHS =
  r_hs :: 'h
  r_localID :: Identity
  r_peerLookup :: PeerLookup
  r_peerX25519 :: bytes
  r_peerEd25519Public :: bytes
  r_networkID :: bytes

definition NewResponderHS :: "('h, 'k) noise \<Rightarrow> Identity \<Rightarrow> PeerLookup \<Rightarrow> 'h ResponderHS option" where
  "NewResponderHS N localID peerLookup =
     map_option (\<lambda>hs. \<lparr>r_hs = hs, r_localID = localID, r_peerLookup = peerLookup, r_peerX25519 = replicate 32 0,
                      r_peerEd25519Public = [], r_networkID = replicate 16 0\<rparr>)
       (NewHandshakeState N None False (X25519Private localID) (X25519Public localID) None)"

definition ProcessMessage1 ::
  "ed25519 \<Rightarrow> ('h, 'k) noise \<Rightarrow> gotime \<Rightarrow> 'h ResponderHS \<Rightarrow> bytes \<Rightarrow> handshake_error + ('h ResponderHS \<times> int)" where
  "ProcessMessage1 ed N now h msg =
     (case ReadMessage1 N (r_hs h) msg of None \<Rightarrow> Inl ErrHandshakeDrop
      | Some (hs, payload) \<Rightarrow>
          if length payload \<noteq> 120 then Inl ErrHandshakeDrop
          else
            (let peerEd25519Pub = take 32 payload; sig = take 64 (drop 32 payload); networkID = take 16 (drop 96 payload);
                 ts = int64_of (of_nat (be_nat (take 8 (drop 112 payload)))); peerStaticBytes = PeerStatic N hs
             in if length peerStaticBytes \<noteq> 32 then Inl ErrHandshakeDrop
                else if r_peerLookup h peerEd25519Pub \<noteq> Some peerStaticBytes then Inl ErrHandshakeDrop
                else case VerifyPeerSig ed now peerEd25519Pub peerStaticBytes (X25519Public (r_localID h)) sig ts of
                       Some _ \<Rightarrow> Inl ErrHandshakeDrop
                     | None \<Rightarrow> Inr (h\<lparr>r_hs := hs, r_peerX25519 := peerStaticBytes, r_peerEd25519Public := peerEd25519Pub,
                                      r_networkID := networkID\<rparr>, ts)))"

definition BuildMessage2 ::
  "ed25519 \<Rightarrow> ('h, 'k) noise \<Rightarrow> 'h ResponderHS \<Rightarrow> bytes \<Rightarrow> bytes \<Rightarrow> int \<Rightarrow> handshake_error + (bytes \<times> 'k HandshakeResult)" where
  "BuildMessage2 ed N h rnd sessionID nowNano =
     (let sig = SignForPeer ed (r_localID h) (r_peerX25519 h) nowNano;
          payload = replicate 112 0;
          payload = put_bytes payload 0 (take 32 (Ed25519Public (r_localID h)));
          payload = put_bytes payload 32 sig;
          payload = put_bytes payload 96 sessionID;
          payload = PutUint64 payload 104 (word_of_int nowNano)
      in case WriteMessage2 N (r_hs h) rnd payload of
           None \<Rightarrow> Inl (ErrOther ''write message'')
         | Some (msg, cs1, cs2) \<Rightarrow>
             Inr (msg, \<lparr>SendCS = cs2, RecvCS = cs1, SessionID = sessionID, PeerEd25519Public = r_peerEd25519Public h,
                       NetworkID = r_networkID h\<rparr>))"

section \<open>Integers and encodings\<close>

definition int64 :: "int \<Rightarrow> bool" where
  "int64 x \<longleftrightarrow> - (2 ^ 63) \<le> x \<and> x < 2 ^ 63"

lemma shifted_mod: "(x + h) mod m - h = x + (- ((x + h) div m)) * m" for x h m :: int
  by (simp add: minus_div_mult_eq_mod [symmetric])

lemma wrap64_id: "int64 x \<Longrightarrow> wrap64 x = x"
proof -
  assume "int64 x"
  then have "0 \<le> x + 2 ^ 63" "x + 2 ^ 63 < 2 ^ 64" by (simp_all add: int64_def)
  then show ?thesis unfolding wrap64_def by (subst mod_pos_pos_trivial) auto
qed

lemma wrap64_cong: "\<exists>k. wrap64 x = x + k * 2 ^ 64"
  unfolding wrap64_def shifted_mod by blast

lemma int64_bytes_roundtrip: "int64 x \<Longrightarrow> int64_of (of_nat (be_nat (int64_bytes x))) = x"
proof -
  assume x: "int64 x"
  have "unat (word_of_int x :: u64) < 256 ^ 8" using unat_bounds(4) [of "word_of_int x"] by simp
  then have "be_nat (int64_bytes x) = unat (word_of_int x :: u64)" by (simp add: int64_bytes_def be_nat_be_bytes)
  then have "int64_of (of_nat (be_nat (int64_bytes x))) = wrap64 (x mod 2 ^ 64)"
    by (simp add: int64_of_def unsigned_of_int take_bit_eq_mod)
  also have "\<dots> = wrap64 x" unfolding wrap64_def by (simp only: mod_add_left_eq)
  finally show ?thesis using wrap64_id [OF x] by simp
qed

lemma str_bytes_inject: "str_bytes s = str_bytes t \<longleftrightarrow> s = t"
proof -
  have u: "unat (of_char c :: byte) = of_char c" for c
  proof -
    have "unat (of_char c :: byte) = unat (of_nat (of_char c) :: byte)" by (simp only: of_nat_of_char)
    also have "\<dots> = of_char c" unfolding unsigned_of_nat by (subst take_bit_nat_eq_self) simp_all
    finally show ?thesis .
  qed
  have "inj (of_char :: char \<Rightarrow> byte)"
  proof (rule injI)
    fix c d :: char assume "of_char c = (of_char d :: byte)"
    then have "unat (of_char c :: byte) = unat (of_char d :: byte)" by (rule arg_cong)
    then show "c = d" unfolding u by (simp only: of_char_eq_iff)
  qed
  then show ?thesis by (auto simp: str_bytes_def inj_map_eq_map)
qed

lemma length_str_bytes [simp]: "length (str_bytes s) = length s"
  by (simp add: str_bytes_def)

text \<open>Length-prefixed strings can be read back, whatever follows them.\<close>

definition prefixed :: "string \<Rightarrow> bytes" where
  "prefixed s = appendPrefixedString [] s"

lemma prefixed_layout: "appendPrefixedString buf s = buf @ prefixed s"
  "prefixed s = be_bytes 4 (unat (of_nat (length s) :: u32)) @ str_bytes s"
  by (simp_all add: prefixed_def appendPrefixedString_def AppendUint32_def)

lemma prefixed_list: "foldl appendPrefixedString buf ss = buf @ concat (map prefixed ss)"
  by (induction ss arbitrary: buf) (simp_all add: prefixed_layout(1))

lemma be_bytes_word_inject:
  fixes v w :: "'a::len word"
  assumes "2 ^ LENGTH('a) \<le> (256::nat) ^ n"
  shows "be_bytes n (unat v) = be_bytes n (unat w) \<longleftrightarrow> v = w"
proof -
  have "be_uint n (be_bytes n (unat u)) = Some u" for u :: "'a word"
    using be_uint_be_bytes [OF assms, of u "[]"] by (simp only: append_Nil2)
  then show ?thesis by (metis option.inject)
qed

definition short :: "'a list \<Rightarrow> bool" where
  "short s \<longleftrightarrow> length s < 2 ^ 32"

lemma short_word: "short s \<Longrightarrow> short t \<Longrightarrow> (of_nat (length s) :: u32) = of_nat (length t) \<longleftrightarrow> length s = length t"
proof -
  have u: "unat (of_nat (length r) :: u32) = length r" if "short r" for r :: "'c list"
    using that by (simp add: short_def unsigned_of_nat take_bit_nat_eq_self)
  assume "short s" "short t"
  then show ?thesis using u [of s] u [of t] by metis
qed

lemma prefixed_inject:
  assumes "short s" "short t" "prefixed s @ x = prefixed t @ y"
  shows "s = t \<and> x = y"
proof -
  have E: "be_bytes 4 (unat (of_nat (length s) :: u32)) @ str_bytes s @ x = be_bytes 4 (unat (of_nat (length t) :: u32)) @ str_bytes t @ y"
    using assms(3) by (simp add: prefixed_layout(2))
  then have "be_bytes 4 (unat (of_nat (length s) :: u32)) = be_bytes 4 (unat (of_nat (length t) :: u32))" "str_bytes s @ x = str_bytes t @ y"
    by (simp_all add: append_eq_append_conv)
  moreover from this(1) have "length s = length t" using short_word [OF assms(1,2)] by (simp add: be_bytes_word_inject)
  ultimately show ?thesis by (simp add: append_eq_append_conv str_bytes_inject)
qed

lemma prefixed_list_inject:
  assumes "length ss = length ts" "list_all short ss" "list_all short ts"
    "concat (map prefixed ss) @ x = concat (map prefixed ts) @ y"
  shows "ss = ts \<and> x = y"
  using assms
proof (induction ss ts rule: list_induct2)
  case (Cons s ss t ts)
  then show ?case using prefixed_inject [of s t "concat (map prefixed ss) @ x" "concat (map prefixed ts) @ y"] by auto
qed simp

section \<open>What a signature covers\<close>

definition register_ok :: "RegisterClaims \<Rightarrow> bool" where
  "register_ok c \<longleftrightarrow> short (rc_NetworkID c) \<and> short (rc_Name c) \<and> short (rc_Ed25519Public c) \<and> short (rc_X25519Public c) \<and>
     short (rc_Endpoint c) \<and> short (rc_SubnetRoutes c) \<and> list_all short (rc_SubnetRoutes c) \<and> int64 (rc_TimestampUnix c)"

definition call_ok :: "CallClaims \<Rightarrow> bool" where
  "call_ok c \<longleftrightarrow> short (cc_Method c) \<and> short (cc_PeerID c) \<and> short (cc_Args c) \<and> list_all short (cc_Args c) \<and>
     int64 (cc_TimestampUnix c)"

lemma RegisterSignedMessage_layout:
  "RegisterSignedMessage c = str_bytes RegisterSignatureDomain @ prefixed (rc_NetworkID c) @ prefixed (rc_Name c) @
     prefixed (rc_Ed25519Public c) @ prefixed (rc_X25519Public c) @ prefixed (rc_Endpoint c) @
     be_bytes 4 (unat (of_nat (length (rc_SubnetRoutes c)) :: u32)) @ concat (map prefixed (sort (rc_SubnetRoutes c))) @
     int64_bytes (rc_TimestampUnix c)"
  by (simp add: RegisterSignedMessage_def Let_def prefixed_layout(1) prefixed_list AppendUint32_def AppendUint64_def int64_bytes_def)

lemma CallSignedMessage_layout:
  "CallSignedMessage c = str_bytes CallSignatureDomain @ prefixed (cc_Method c) @ prefixed (cc_PeerID c) @
     be_bytes 4 (unat (of_nat (length (cc_Args c)) :: u32)) @ concat (map prefixed (cc_Args c)) @ int64_bytes (cc_TimestampUnix c)"
  by (simp add: CallSignedMessage_def Let_def prefixed_layout(1) prefixed_list AppendUint32_def AppendUint64_def int64_bytes_def)

lemma counted_list_inject:
  assumes "short ss" "short ts" "list_all short ss" "list_all short ts"
    "be_bytes 4 (unat (of_nat (length ss) :: u32)) @ concat (map prefixed ss) @ x =
     be_bytes 4 (unat (of_nat (length ts) :: u32)) @ concat (map prefixed ts) @ y"
  shows "ss = ts \<and> x = y"
proof -
  from assms(5) have E: "be_bytes 4 (unat (of_nat (length ss) :: u32)) = be_bytes 4 (unat (of_nat (length ts) :: u32))"
      "concat (map prefixed ss) @ x = concat (map prefixed ts) @ y"
    by (simp_all add: append_eq_append_conv)
  from E(1) have "(of_nat (length ss) :: u32) = of_nat (length ts)" by (simp add: be_bytes_word_inject)
  then have "length ss = length ts" by (simp only: short_word [OF assms(1,2)])
  then show ?thesis by (rule prefixed_list_inject [OF _ assms(3,4) E(2)])
qed

lemma int64_bytes_inject:
  assumes "int64 x" "int64 y" "int64_bytes x = int64_bytes y"
  shows "x = y"
proof -
  have "x = int64_of (of_nat (be_nat (int64_bytes x)))" by (rule int64_bytes_roundtrip [OF assms(1), symmetric])
  also have "int64_bytes x = int64_bytes y" by (rule assms(3))
  also have "int64_of (of_nat (be_nat (int64_bytes y))) = y" by (rule int64_bytes_roundtrip [OF assms(2)])
  finally show ?thesis .
qed

lemma RegisterSignedMessage_inject:
  assumes "register_ok c" "register_ok c'" "RegisterSignedMessage c = RegisterSignedMessage c'"
  shows "rc_NetworkID c = rc_NetworkID c' \<and> rc_Name c = rc_Name c' \<and> rc_Ed25519Public c = rc_Ed25519Public c' \<and>
    rc_X25519Public c = rc_X25519Public c' \<and> rc_Endpoint c = rc_Endpoint c' \<and>
    sort (rc_SubnetRoutes c) = sort (rc_SubnetRoutes c') \<and> rc_TimestampUnix c = rc_TimestampUnix c'"
proof -
  let ?r = "\<lambda>c. be_bytes 4 (unat (of_nat (length (sort (rc_SubnetRoutes c))) :: u32)) @ concat (map prefixed (sort (rc_SubnetRoutes c))) @
     int64_bytes (rc_TimestampUnix c)"
  have ok: "short (rc_NetworkID d)" "short (rc_Name d)" "short (rc_Ed25519Public d)" "short (rc_X25519Public d)" "short (rc_Endpoint d)"
      "short (sort (rc_SubnetRoutes d))" "list_all short (sort (rc_SubnetRoutes d))" "int64 (rc_TimestampUnix d)" if "register_ok d" for d
    using that by (simp_all add: register_ok_def short_def list_all_iff)
  note o = ok [OF assms(1)] and o' = ok [OF assms(2)]
  have 0: "prefixed (rc_NetworkID c) @ prefixed (rc_Name c) @ prefixed (rc_Ed25519Public c) @ prefixed (rc_X25519Public c) @
      prefixed (rc_Endpoint c) @ ?r c = prefixed (rc_NetworkID c') @ prefixed (rc_Name c') @ prefixed (rc_Ed25519Public c') @
      prefixed (rc_X25519Public c') @ prefixed (rc_Endpoint c') @ ?r c'"
    using assms(3) by (simp add: RegisterSignedMessage_layout)
  note 1 = prefixed_inject [OF o(1) o'(1) 0] note 2 = prefixed_inject [OF o(2) o'(2) 1 [THEN conjunct2]]
  note 3 = prefixed_inject [OF o(3) o'(3) 2 [THEN conjunct2]] note 4 = prefixed_inject [OF o(4) o'(4) 3 [THEN conjunct2]]
  note 5 = prefixed_inject [OF o(5) o'(5) 4 [THEN conjunct2]]
  note 6 = counted_list_inject [OF o(6) o'(6) o(7) o'(7) 5 [THEN conjunct2]]
  have "rc_TimestampUnix c = rc_TimestampUnix c'" by (rule int64_bytes_inject [OF o(8) o'(8) 6 [THEN conjunct2]])
  with 1 2 3 4 5 6 show ?thesis by blast
qed

lemma CallSignedMessage_inject:
  assumes "call_ok c" "call_ok c'" "CallSignedMessage c = CallSignedMessage c'"
  shows "c = c'"
proof -
  let ?r = "\<lambda>c. be_bytes 4 (unat (of_nat (length (cc_Args c)) :: u32)) @ concat (map prefixed (cc_Args c)) @ int64_bytes (cc_TimestampUnix c)"
  have ok: "short (cc_Method d)" "short (cc_PeerID d)" "short (cc_Args d)" "list_all short (cc_Args d)" "int64 (cc_TimestampUnix d)"
    if "call_ok d" for d using that by (simp_all add: call_ok_def)
  note o = ok [OF assms(1)] and o' = ok [OF assms(2)]
  have 0: "prefixed (cc_Method c) @ prefixed (cc_PeerID c) @ ?r c = prefixed (cc_Method c') @ prefixed (cc_PeerID c') @ ?r c'"
    using assms(3) by (simp add: CallSignedMessage_layout)
  note 1 = prefixed_inject [OF o(1) o'(1) 0] note 2 = prefixed_inject [OF o(2) o'(2) 1 [THEN conjunct2]]
  note 3 = counted_list_inject [OF o(3) o'(3) o(4) o'(4) 2 [THEN conjunct2]]
  have "cc_TimestampUnix c = cc_TimestampUnix c'" by (rule int64_bytes_inject [OF o(5) o'(5) 3 [THEN conjunct2]])
  with 1 2 3 show ?thesis by (cases c; cases c') simp
qed

lemma domains_differ: "RegisterSignedMessage c \<noteq> CallSignedMessage c'"
proof
  assume "RegisterSignedMessage c = CallSignedMessage c'"
  then have "take 12 (RegisterSignedMessage c) = take 12 (CallSignedMessage c')" by simp
  moreover have "take 12 (RegisterSignedMessage c) = str_bytes (take 12 RegisterSignatureDomain)"
    by (simp add: RegisterSignedMessage_layout RegisterSignatureDomain_def str_bytes_def take_map [symmetric])
  moreover have "take 12 (CallSignedMessage c') = str_bytes (take 12 CallSignatureDomain)"
    by (simp add: CallSignedMessage_layout CallSignatureDomain_def str_bytes_def take_map [symmetric])
  ultimately have "take 12 RegisterSignatureDomain = take 12 CallSignatureDomain" by (simp only: str_bytes_inject)
  then show False by (simp add: RegisterSignatureDomain_def CallSignatureDomain_def)
qed

section \<open>An honest handshake\<close>

text \<open>What the code relies on of the primitives: signatures of a key verify under its public half, and the sizes of
  keys and signatures. For the Noise library: a message written by one side is read by the other, message 1 shows
  the initiator's static key, and message 2 gives both sides the same pair of cipher states.\<close>

definition ed_laws :: "ed25519 \<Rightarrow> bool" where
  "ed_laws ed \<longleftrightarrow>
     (\<forall>priv m. length priv = PrivateKeySize \<longrightarrow>
        Ed_Verify ed (Ed_Public ed priv) m (Ed_Sign ed priv m) \<and> length (Ed_Sign ed priv m) = 64 \<and> length (Ed_Public ed priv) = 32) \<and>
     (\<forall>x. length x = 32 \<longrightarrow> (\<exists>p. X_Base ed x = Some p \<and> length p = 32))"

definition noise_laws :: "ed25519 \<Rightarrow> ('h, 'k) noise \<Rightarrow> bool" where
  "noise_laws ed N \<longleftrightarrow>
     (\<forall>seed ipriv ipub rpub. \<exists>hi. NewHandshakeState N (Some seed) True ipriv ipub (Some rpub) = Some hi) \<and>
     (\<forall>rpriv rpub. \<exists>hr. NewHandshakeState N None False rpriv rpub None = Some hr) \<and>
     (\<forall>h p. WriteMessage1 N h p \<noteq> None) \<and> (\<forall>h r p. WriteMessage2 N h r p \<noteq> None) \<and>
     (\<forall>seed ipriv ipub rpriv rpub hi hr p1 hi' m1.
        X_Base ed ipriv = Some ipub \<and> X_Base ed rpriv = Some rpub \<and>
        NewHandshakeState N (Some seed) True ipriv ipub (Some rpub) = Some hi \<and>
        NewHandshakeState N None False rpriv rpub None = Some hr \<and> WriteMessage1 N hi p1 = Some (hi', m1) \<longrightarrow>
        (\<exists>hr'. ReadMessage1 N hr m1 = Some (hr', p1) \<and> PeerStatic N hr' = ipub \<and>
           (\<forall>r p2 m2 c1 c2. WriteMessage2 N hr' r p2 = Some (m2, c1, c2) \<longrightarrow> ReadMessage2 N hi' m2 = Some (p2, c1, c2))))"

definition identity_ok :: "ed25519 \<Rightarrow> Identity \<Rightarrow> bool" where
  "identity_ok ed i \<longleftrightarrow> selfTest ed i = None \<and> length (X25519Private i) = 32"

lemma identity_okD:
  assumes "ed_laws ed" "identity_ok ed i"
  shows "length (Ed25519Private i) = PrivateKeySize" "Ed25519Public i = Ed_Public ed (Ed25519Private i)"
    "X_Base ed (X25519Private i) = Some (X25519Public i)" "length (X25519Public i) = 32" "length (Ed25519Public i) = 32"
proof -
  have S: "selfTest ed i = None" "length (X25519Private i) = 32" using assms(2) by (auto simp: identity_ok_def)
  show P: "length (Ed25519Private i) = PrivateKeySize" "Ed25519Public i = Ed_Public ed (Ed25519Private i)"
    using S(1) by (auto simp: selfTest_def Let_def split: if_splits)
  obtain p where p: "X_Base ed (X25519Private i) = Some p" "length p = 32" using assms(1) S(2) by (auto simp: ed_laws_def)
  have "X25519Public i = p"
    using S(1) p by (auto simp: selfTest_def Let_def copy_array_def put_bytes_def split: if_splits)
  then show "X_Base ed (X25519Private i) = Some (X25519Public i)" "length (X25519Public i) = 32" using p by auto
  show "length (Ed25519Public i) = 32" using assms(1) P by (auto simp: ed_laws_def)
qed

lemma copy_array_id: "length b = n \<Longrightarrow> copy_array n b = b"
  by (simp add: copy_array_def put_bytes_def)

lemma clamp_nonzero: "length x = 32 \<Longrightarrow> length (clamp x) = 32 \<and> \<not> list_all (\<lambda>b. b = 0) (clamp x)"
proof -
  assume l: "length x = 32"
  have "clamp x ! 31 = (x ! 31 AND 127) OR 64" using l by (simp add: clamp_def Let_def)
  moreover have "bit ((x ! 31 AND 127) OR 64) 6" by (simp add: bit_simps)
  then have "(x ! 31 AND 127) OR 64 \<noteq> 0" by (metis bit_0_eq bot_apply bot_bool_def)
  ultimately show ?thesis using l by (auto simp: clamp_def Let_def list_all_length intro!: exI [of _ 31])
qed

lemma SignForPeer_verifies:
  assumes "ed_laws ed" "identity_ok ed i"
  shows "Ed_Verify ed (Ed25519Public i) (peer_message (X25519Public i) theirs ts) (SignForPeer ed i theirs ts)"
    "length (SignForPeer ed i theirs ts) = 64"
  using assms(1) identity_okD [OF assms] by (auto simp: SignForPeer_def copy_array_id ed_laws_def)

lemma fresh_timestamp:
  assumes "1000000000000 < ts" "ts < 2 ^ 62" "0 \<le> now" "now < 2 ^ 62" "\<bar>now - ts\<bar> \<le> MaxTimestampSkew"
  shows "VerifyPeerSig ed now pub x y sig ts = (if Ed_Verify ed pub (peer_message x y ts) sig then None else Some ''invalid peer signature'')"
proof -
  have "int64 (now - ts)" using assms by (auto simp: int64_def)
  then show ?thesis using assms by (auto simp: VerifyPeerSig_def NormalizeTimestamp_def wrap64_id Let_def)
qed

lemma payload_layout:
  assumes "length a = 32" "length b = 64" "length c = n"
  shows "PutUint64 (put_bytes (put_bytes (put_bytes (replicate (104 + n) 0) 0 a) 32 b) 96 c) (96 + n) w =
    a @ b @ c @ be_bytes 8 (unat w)"
proof -
  let ?z = "\<lambda>n. replicate n (0 :: byte)"
  have B: "?z (104 + n) = [] @ ?z 32 @ (?z 64 @ ?z n @ ?z 8)" by (simp flip: replicate_add)
  have 1: "put_bytes ([] @ ?z 32 @ (?z 64 @ ?z n @ ?z 8)) 0 a = a @ ?z 64 @ (?z n @ ?z 8)"
    using assms by (subst put_bytes_at) auto
  have 2: "put_bytes (a @ ?z 64 @ (?z n @ ?z 8)) 32 b = (a @ b) @ ?z n @ ?z 8"
    using assms by (subst put_bytes_at) auto
  have 3: "put_bytes ((a @ b) @ ?z n @ ?z 8) 96 c = (a @ b @ c) @ ?z 8 @ []"
    using assms by (subst put_bytes_at) auto
  show ?thesis unfolding B 1 2 3 PutUint64_def using assms by (subst put_bytes_at) auto
qed

lemma payload_fields:
  assumes "length a = 32" "length b = 64" "length c = n" "int64 t"
  defines "p \<equiv> a @ b @ c @ int64_bytes t"
  shows "length p = 104 + n" "take 32 p = a" "take 64 (drop 32 p) = b" "take n (drop 96 p) = c"
    "int64_of (of_nat (be_nat (take 8 (drop (96 + n) p)))) = t"
proof -
  have l: "length (int64_bytes t) = 8" by (simp add: int64_bytes_def)
  show "length p = 104 + n" "take 32 p = a" "take 64 (drop 32 p) = b" "take n (drop 96 p) = c"
    using assms(1-3) l by (simp_all add: p_def)
  have "take 8 (drop (96 + n) p) = int64_bytes t" using assms(1-3) l by (simp add: p_def)
  then show "int64_of (of_nat (be_nat (take 8 (drop (96 + n) p)))) = t" by (simp only: int64_bytes_roundtrip [OF assms(4)])
qed

definition near :: "int \<Rightarrow> int \<Rightarrow> bool" where
  "near now ts \<longleftrightarrow> 1000000000000 < ts \<and> ts < 2 ^ 62 \<and> 0 \<le> now \<and> now < 2 ^ 62 \<and> \<bar>now - ts\<bar> \<le> MaxTimestampSkew"

lemma near_int64: "near now ts \<Longrightarrow> int64 ts"
  by (auto simp: near_def int64_def)

lemma BuildMessage1_sends:
  assumes "ed_laws ed" "identity_ok ed ini" "length net = 16"
    and "NewHandshakeState N (Some seed) True (X25519Private ini) (X25519Public ini) (Some rpub) = Some hi"
    and "p1 = Ed25519Public ini @ SignForPeer ed ini rpub t @ net @ int64_bytes t" "WriteMessage1 N hi p1 = Some (hi', m1)"
  shows "BuildMessage1 ed N (NewInitiatorHS seed ini rpub net) t =
    Inr ((NewInitiatorHS seed ini rpub net)\<lparr>payload1 := Some p1\<rparr>, m1)"
proof -
  have len: "length (Ed25519Public ini) = 32" "length (SignForPeer ed ini rpub t) = 64"
    using identity_okD [OF assms(1,2)] SignForPeer_verifies [OF assms(1,2)] by auto
  show ?thesis
    using assms(3-) payload_layout [OF len assms(3), of "word_of_int t"] len
    by (simp add: BuildMessage1_def NewInitiatorHS_def hs_state_def Let_def int64_bytes_def)
qed

lemma ProcessMessage1_accepts:
  assumes "ed_laws ed" "identity_ok ed ini" "identity_ok ed res" "length net = 16" "near now t"
    and "ReadMessage1 N (r_hs h) m1 = Some (hr, Ed25519Public ini @ SignForPeer ed ini (X25519Public res) t @ net @ int64_bytes t)"
    and "PeerStatic N hr = X25519Public ini" "r_peerLookup h (Ed25519Public ini) = Some (X25519Public ini)" "r_localID h = res"
  shows "ProcessMessage1 ed N now h m1 =
    Inr (h\<lparr>r_hs := hr, r_peerX25519 := X25519Public ini, r_peerEd25519Public := Ed25519Public ini, r_networkID := net\<rparr>, t)"
proof -
  note I = identity_okD [OF assms(1,2)] and S = SignForPeer_verifies [OF assms(1,2)]
  note F = payload_fields [OF I(5) S(2) assms(4) near_int64 [OF assms(5)]]
  have "VerifyPeerSig ed now (Ed25519Public ini) (X25519Public ini) (X25519Public res) (SignForPeer ed ini (X25519Public res) t) t = None"
    using assms(5) S(1) by (subst fresh_timestamp) (auto simp: near_def)
  then show ?thesis
    using assms(6-9) I F [of "X25519Public res" t] by (simp add: ProcessMessage1_def Let_def)
qed

lemma BuildMessage2_sends:
  assumes "ed_laws ed" "identity_ok ed res" "length sid = 8" "r_localID h = res"
    and "p2 = Ed25519Public res @ SignForPeer ed res (r_peerX25519 h) t @ sid @ int64_bytes t"
    and "WriteMessage2 N (r_hs h) rnd p2 = Some (m2, c1, c2)"
  shows "BuildMessage2 ed N h rnd sid t = Inr (m2, \<lparr>SendCS = c2, RecvCS = c1, SessionID = sid,
    PeerEd25519Public = r_peerEd25519Public h, NetworkID = r_networkID h\<rparr>)"
proof -
  have len: "length (Ed25519Public res) = 32" "length (SignForPeer ed res (r_peerX25519 h) t) = 64"
    using identity_okD [OF assms(1,2)] SignForPeer_verifies [OF assms(1,2)] by auto
  show ?thesis
    using assms(3-) payload_layout [OF len assms(3), of "word_of_int t"] len
    by (simp add: BuildMessage2_def Let_def int64_bytes_def)
qed

lemma ProcessMessage2_accepts:
  assumes "ed_laws ed" "identity_ok ed res" "length sid = 8" "near now t"
    and "payload1 h = Some p1" "hs_state N h = Some hi" "WriteMessage1 N hi p1 = Some (hi', m1)" "i_peerX25519 h = X25519Public res"
    and "ReadMessage2 N hi' m2 =
      Some (Ed25519Public res @ SignForPeer ed res (X25519Public (i_localID h)) t @ sid @ int64_bytes t, c1, c2)"
  shows "ProcessMessage2 ed N now h m2 = Inr \<lparr>SendCS = c1, RecvCS = c2, SessionID = sid,
    PeerEd25519Public = Ed25519Public res, NetworkID = i_networkID h\<rparr>"
proof -
  note I = identity_okD [OF assms(1,2)] and S = SignForPeer_verifies [OF assms(1,2)]
  note F = payload_fields [OF I(5) S(2) assms(3) near_int64 [OF assms(4)]]
  have "VerifyPeerSig ed now (Ed25519Public res) (X25519Public res) (X25519Public (i_localID h))
      (SignForPeer ed res (X25519Public (i_localID h)) t) t = None"
    using assms(4) S(1) by (subst fresh_timestamp) (auto simp: near_def)
  then show ?thesis
    using assms(5-9) I F [of "X25519Public (i_localID h)" t] by (simp add: ProcessMessage2_def Let_def)
qed

lemma noise_lawsD:
  assumes "noise_laws ed N"
  shows "\<exists>hi. NewHandshakeState N (Some seed) True ipriv ipub (Some rpub) = Some hi"
    "\<exists>hr. NewHandshakeState N None False rpriv rpub None = Some hr" "WriteMessage1 N h p \<noteq> None" "WriteMessage2 N h r p \<noteq> None"
    "\<lbrakk>X_Base ed ipriv = Some ipub; X_Base ed rpriv = Some rpub;
      NewHandshakeState N (Some seed) True ipriv ipub (Some rpub) = Some hi;
      NewHandshakeState N None False rpriv rpub None = Some hr; WriteMessage1 N hi p1 = Some (hi', m1)\<rbrakk> \<Longrightarrow>
     \<exists>hr'. ReadMessage1 N hr m1 = Some (hr', p1) \<and> PeerStatic N hr' = ipub \<and>
        (\<forall>r p2 m2 c1 c2. WriteMessage2 N hr' r p2 = Some (m2, c1, c2) \<longrightarrow> ReadMessage2 N hi' m2 = Some (p2, c1, c2))"
proof -
  note A = assms [unfolded noise_laws_def, THEN conjunct1] assms [unfolded noise_laws_def, THEN conjunct2]
  show "\<exists>hi. NewHandshakeState N (Some seed) True ipriv ipub (Some rpub) = Some hi" by (rule A(1) [rule_format])
  show "\<exists>hr. NewHandshakeState N None False rpriv rpub None = Some hr" by (rule A(2) [THEN conjunct1, rule_format])
  show "WriteMessage1 N h p \<noteq> None" by (rule A(2) [THEN conjunct2, THEN conjunct1, rule_format])
  show "WriteMessage2 N h r p \<noteq> None" by (rule A(2) [THEN conjunct2, THEN conjunct2, THEN conjunct1, rule_format])
qed (use assms [unfolded noise_laws_def, THEN conjunct2, THEN conjunct2, THEN conjunct2, THEN conjunct2] in metis)

lemma ik_handshake:
  assumes L: "ed_laws ed" "noise_laws ed N" and I: "identity_ok ed ini" "identity_ok ed res"
    and look: "lookup (Ed25519Public ini) = Some (X25519Public ini)" and len: "length net = 16" "length sid = 8"
    and t: "near t2 t1" "near t4 t3"
  obtains h1 m1 r0 r1 m2 c1 c2 where
    "BuildMessage1 ed N (NewInitiatorHS seed ini (X25519Public res) net) t1 = Inr (h1, m1)"
    "NewResponderHS N res lookup = Some r0" "ProcessMessage1 ed N t2 r0 m1 = Inr (r1, t1)"
    "BuildMessage2 ed N r1 rnd sid t3 = Inr (m2, \<lparr>SendCS = c2, RecvCS = c1, SessionID = sid,
       PeerEd25519Public = Ed25519Public ini, NetworkID = net\<rparr>)"
    "ProcessMessage2 ed N t4 h1 m2 = Inr \<lparr>SendCS = c1, RecvCS = c2, SessionID = sid,
       PeerEd25519Public = Ed25519Public res, NetworkID = net\<rparr>"
proof -
  note X = identity_okD(3) [OF L(1) I(1)] identity_okD(3) [OF L(1) I(2)]
  let ?h0 = "NewInitiatorHS seed ini (X25519Public res) net"
  let ?p1 = "Ed25519Public ini @ SignForPeer ed ini (X25519Public res) t1 @ net @ int64_bytes t1"
  let ?p2 = "Ed25519Public res @ SignForPeer ed res (X25519Public ini) t3 @ sid @ int64_bytes t3"
  obtain hi where hi: "NewHandshakeState N (Some seed) True (X25519Private ini) (X25519Public ini) (Some (X25519Public res)) = Some hi"
    using noise_lawsD(1) [OF L(2)] by blast
  obtain hr where hr: "NewHandshakeState N None False (X25519Private res) (X25519Public res) None = Some hr"
    using noise_lawsD(2) [OF L(2)] by blast
  obtain hi' m1 where w1: "WriteMessage1 N hi ?p1 = Some (hi', m1)" using noise_lawsD(3) [OF L(2), of hi ?p1] by (metis not_None_eq surj_pair)
  obtain hr' where r1: "ReadMessage1 N hr m1 = Some (hr', ?p1)" "PeerStatic N hr' = X25519Public ini"
      and r2: "\<And>r p2 m2 c1 c2. WriteMessage2 N hr' r p2 = Some (m2, c1, c2) \<Longrightarrow> ReadMessage2 N hi' m2 = Some (p2, c1, c2)"
    using noise_lawsD(5) [OF L(2) X hi hr w1] by blast
  obtain m2 c1 c2 where w2: "WriteMessage2 N hr' rnd ?p2 = Some (m2, c1, c2)"
    using noise_lawsD(4) [OF L(2), of hr' rnd ?p2] by (metis not_None_eq surj_pair)
  define r0 where "r0 = \<lparr>r_hs = hr, r_localID = res, r_peerLookup = lookup, r_peerX25519 = replicate 32 0,
    r_peerEd25519Public = [], r_networkID = replicate 16 0\<rparr>"
  have 1: "BuildMessage1 ed N ?h0 t1 = Inr (?h0\<lparr>payload1 := Some ?p1\<rparr>, m1)"
    by (rule BuildMessage1_sends [OF L(1) I(1) len(1) hi refl w1])
  have 2: "NewResponderHS N res lookup = Some r0" using hr by (simp add: NewResponderHS_def r0_def)
  have 3: "ProcessMessage1 ed N t2 r0 m1 = Inr (r0\<lparr>r_hs := hr', r_peerX25519 := X25519Public ini,
      r_peerEd25519Public := Ed25519Public ini, r_networkID := net\<rparr>, t1)"
    using r1 look by (intro ProcessMessage1_accepts [OF L(1) I len(1) t(1)]) (simp_all add: r0_def)
  have 4: "BuildMessage2 ed N (r0\<lparr>r_hs := hr', r_peerX25519 := X25519Public ini, r_peerEd25519Public := Ed25519Public ini,
      r_networkID := net\<rparr>) rnd sid t3 = Inr (m2, \<lparr>SendCS = c2, RecvCS = c1, SessionID = sid,
      PeerEd25519Public = Ed25519Public ini, NetworkID = net\<rparr>)"
    using w2 by (subst BuildMessage2_sends [OF L(1) I(2) len(2) _ refl]) (simp_all add: r0_def)
  have 5: "ProcessMessage2 ed N t4 (?h0\<lparr>payload1 := Some ?p1\<rparr>) m2 = Inr \<lparr>SendCS = c1, RecvCS = c2, SessionID = sid,
       PeerEd25519Public = Ed25519Public res, NetworkID = net\<rparr>"
    using hi w1 r2 [OF w2]
    by (subst ProcessMessage2_accepts [where ?p1.0 = ?p1 and hi = hi, OF L(1) I(2) len(2) t(2)])
      (simp_all add: NewInitiatorHS_def hs_state_def)
  show thesis by (rule that [OF 1 2 3 4 5])
qed

section \<open>Properties\<close>

text \<open>C20. A Register signature covers the whole request: two requests with the same signed message agree in network, name,
  keys, endpoint, timestamp and set of routes, so a signature cannot be carried over to another request.\<close>

theorem register_signature_covers:
  assumes "register_ok c" "register_ok c'"
  shows "RegisterSignedMessage c = RegisterSignedMessage c' \<longleftrightarrow>
    c' = c\<lparr>rc_SubnetRoutes := rc_SubnetRoutes c'\<rparr> \<and> mset (rc_SubnetRoutes c') = mset (rc_SubnetRoutes c)"
proof
  assume "RegisterSignedMessage c = RegisterSignedMessage c'"
  note R = RegisterSignedMessage_inject [OF assms this]
  then have "c' = c\<lparr>rc_SubnetRoutes := rc_SubnetRoutes c'\<rparr>" by (cases c; cases c') simp
  moreover have "sort (rc_SubnetRoutes c') = sort (rc_SubnetRoutes c)" using R by simp
  then have "mset (rc_SubnetRoutes c') = mset (rc_SubnetRoutes c)" by (metis mset_sort)
  ultimately show "c' = c\<lparr>rc_SubnetRoutes := rc_SubnetRoutes c'\<rparr> \<and> mset (rc_SubnetRoutes c') = mset (rc_SubnetRoutes c)" ..
next
  assume A: "c' = c\<lparr>rc_SubnetRoutes := rc_SubnetRoutes c'\<rparr> \<and> mset (rc_SubnetRoutes c') = mset (rc_SubnetRoutes c)"
  then have S: "sort (rc_SubnetRoutes c) = sort (rc_SubnetRoutes c')" by (intro properties_for_sort) auto
  then have L: "length (rc_SubnetRoutes c) = length (rc_SubnetRoutes c')" using A by (metis mset_eq_length)
  from A have "rc_NetworkID c' = rc_NetworkID c" "rc_Name c' = rc_Name c" "rc_Ed25519Public c' = rc_Ed25519Public c"
    "rc_X25519Public c' = rc_X25519Public c" "rc_Endpoint c' = rc_Endpoint c" "rc_TimestampUnix c' = rc_TimestampUnix c"
    by (metis RegisterClaims.select_convs RegisterClaims.surjective RegisterClaims.update_convs)+
  then show "RegisterSignedMessage c = RegisterSignedMessage c'"
    by (simp add: RegisterSignedMessage_layout S L)
qed

definition example_register :: "string list \<Rightarrow> RegisterClaims" where
  "example_register routes = \<lparr>rc_NetworkID = ''home'', rc_Name = ''ada'', rc_Ed25519Public = ''QQ=='', rc_X25519Public = ''Qg=='',
     rc_Endpoint = ''198.51.100.1:51820'', rc_SubnetRoutes = routes, rc_TimestampUnix = 1700000000\<rparr>"

text \<open>C20, at two requests that list the same routes in another order.\<close>

theorem register_signature_covers_witness:
  "RegisterSignedMessage (example_register [''10.0.0.0/8'', ''192.168.0.0/16'']) =
   RegisterSignedMessage (example_register [''192.168.0.0/16'', ''10.0.0.0/8''])"
  by (subst register_signature_covers)
    (simp_all add: example_register_def register_ok_def short_def int64_def)

text \<open>C21. A call signature covers the whole call and nothing else: the signed message determines method, caller,
  arguments and timestamp, and is never the message of a registration.\<close>

theorem call_signature_covers:
  assumes "call_ok a" "call_ok a'"
  shows "(CallSignedMessage a = CallSignedMessage a' \<longleftrightarrow> a = a') \<and> CallSignedMessage a \<noteq> RegisterSignedMessage c"
  using CallSignedMessage_inject [OF assms] domains_differ [of c a] by auto

text \<open>C21, at a Leave and a Watch of the same peer at the same second.\<close>

theorem call_signature_covers_witness:
  "CallSignedMessage (LeaveClaims ''ab'' 1700000000) \<noteq> CallSignedMessage (WatchClaims ''ab'' ''home'' 1700000000) \<and>
   CallSignedMessage (LeaveClaims ''ab'' 1700000000) \<noteq> RegisterSignedMessage (example_register [])"
  using call_signature_covers [of "LeaveClaims ''ab'' 1700000000" "WatchClaims ''ab'' ''home'' 1700000000" "example_register []"]
  by (simp add: LeaveClaims_def WatchClaims_def CallLeave_def CallWatch_def call_ok_def short_def int64_def)


text \<open>A concrete instance of the primitives: signatures and keys one can compute with.\<close>

definition example_ed :: ed25519 where
  "example_ed = \<lparr>Ed_Sign = (\<lambda>priv m. take 32 priv @ take 32 (m @ replicate 32 0)),
     Ed_Verify = (\<lambda>pub m s. s = pub @ take 32 (m @ replicate 32 0)), Ed_Public = take 32,
     X_Base = (\<lambda>x. if length x = 32 then Some x else None)\<rparr>"

definition example_noise :: "(bytes \<times> bytes, bytes) noise" where
  "example_noise = \<lparr>NewHandshakeState = (\<lambda>_ _ _ pub peer. Some (pub, case peer of None \<Rightarrow> [] | Some p \<Rightarrow> p)),
     WriteMessage1 = (\<lambda>(a, b) p. Some ((a, b), a @ p)), ReadMessage1 = (\<lambda>(a, b) m. Some ((a, take 32 m), drop 32 m)),
     PeerStatic = snd, WriteMessage2 = (\<lambda>(a, b) r p. Some (p, b @ a, a @ b)),
     ReadMessage2 = (\<lambda>(a, b) m. Some (m, a @ b, b @ a))\<rparr>"

definition example_identity :: "byte \<Rightarrow> Identity" where
  "example_identity k = \<lparr>Ed25519Private = replicate 64 k, Ed25519Public = replicate 32 k, X25519Private = replicate 32 (k + 1),
     X25519Public = replicate 32 (k + 1), X25519Sig = replicate 32 k @ replicate 32 (k + 1)\<rparr>"

lemma example_laws: "ed_laws example_ed" "noise_laws example_ed example_noise"
  by (auto simp: ed_laws_def noise_laws_def example_ed_def example_noise_def PrivateKeySize_def split: if_splits)

lemma example_identity_ok: "k + 1 \<noteq> 0 \<Longrightarrow> identity_ok example_ed (example_identity k)"
  by (simp add: identity_ok_def selfTest_def example_ed_def example_identity_def PrivateKeySize_def copy_array_def put_bytes_def
      Let_def list_all_iff)


text \<open>Identity generation works: for every Ed25519 key and every 32 random bytes the generated identity passes the
  self test, its X25519 private key is clamped and its public halves belong to the private ones.\<close>

theorem generated_identity_valid:
  assumes "ed_laws ed" "length priv = PrivateKeySize" "length rnd = 32"
  shows "\<exists>i. Generate ed priv rnd = Inr i \<and> identity_ok ed i \<and> Ed25519Private i = priv \<and> X25519Private i = clamp rnd \<and>
    X_Base ed (X25519Private i) = Some (X25519Public i)"
proof -
  note C = clamp_nonzero [OF assms(3)]
  obtain p where p: "X_Base ed (clamp rnd) = Some p" "length p = 32" using assms(1) C by (auto simp: ed_laws_def)
  have E: "Ed_Verify ed (Ed_Public ed priv) m (Ed_Sign ed priv m)" "length (Ed_Sign ed priv m) = 64" for m
    using assms(1,2) by (auto simp: ed_laws_def)
  show ?thesis
    using assms(2) C p E
    by (simp add: Generate_def selfTest_def identity_ok_def Let_def copy_array_id)
qed

text \<open>The property above, with the primitives above.\<close>

theorem generated_identity_valid_witness:
  "\<exists>i. Generate example_ed (replicate 64 9) (replicate 32 255) = Inr i \<and> identity_ok example_ed i \<and>
    Ed25519Private i = replicate 64 9 \<and> X25519Private i = clamp (replicate 32 255) \<and>
    X_Base example_ed (X25519Private i) = Some (X25519Public i)"
  using generated_identity_valid [OF example_laws(1), of "replicate 64 9" "replicate 32 255"] by (simp add: PrivateKeySize_def)

end
