(* ===== verification/Tofu.thy ===== *)
theory Tofu
  imports Encoding
begin

text \<open>
  Trust on first use, \<open>internal/tofu/store.go\<close>: the store pins every VPN address to the first identity key seen
  there and keeps the addresses a key has left reserved for it.

  The two maps are partial functions. \<open>sha\<close> is SHA-256. The file is the value it decodes to; saving writes it
  whole or, when writing fails (\<open>wr\<close> false), leaves it as it was and returns an error. The order in which saving
  lists the pins is not fixed: it is the argument \<open>ks\<close>.
\<close>

section \<open>The store\<close>

datatype tofu_error = ErrFingerprintMismatch | ErrSave | ErrRead | ErrNotExist

record pinValue =
  pv_Fingerprint :: bytes
  pv_Ed25519Pub :: string
  pv_VPNAddr :: string
  pv_PrevVPNAddrs :: "string list"

record pinEntry =
  pe_VPNAddr :: string
  pe_Ed25519Pub :: string
  pe_Fingerprint :: string
  pe_PrevVPNAddrs :: "string list"

record Store =
  pins :: "string \<rightharpoonup> pinValue"
  vpnToPub :: "string \<rightharpoonup> string"
  disk :: "pinEntry list option"

definition maxPrevVPNAddrs :: nat where "maxPrevVPNAddrs = 16"

definition pubKeyString :: "bytes \<Rightarrow> string" where
  "pubKeyString pub = hex_EncodeToString pub"

definition pin_entry :: "pinValue \<Rightarrow> pinEntry" where
  "pin_entry v = \<lparr>pe_VPNAddr = pv_VPNAddr v, pe_Ed25519Pub = pv_Ed25519Pub v,
     pe_Fingerprint = hex_EncodeToString (pv_Fingerprint v), pe_PrevVPNAddrs = pv_PrevVPNAddrs v\<rparr>"

definition save :: "bool \<Rightarrow> string list \<Rightarrow> Store \<Rightarrow> Store \<times> tofu_error option" where
  "save wr ks s =
     (if wr then (s\<lparr>disk := Some (map (\<lambda>k. pin_entry (the (pins s k))) ks)\<rparr>, None) else (s, Some ErrSave))"

text \<open>The addresses a moving pin keeps, and those it releases.\<close>

definition kept_addrs :: "pinValue \<Rightarrow> string \<Rightarrow> string list" where
  "kept_addrs stored vpnAddr =
     pv_VPNAddr stored # filter (\<lambda>a. a \<noteq> vpnAddr \<and> a \<noteq> pv_VPNAddr stored) (pv_PrevVPNAddrs stored)"

definition move_pin :: "Store \<Rightarrow> string \<Rightarrow> pinValue \<Rightarrow> string \<Rightarrow> Store" where
  "move_pin s pubStr stored vpnAddr =
     (let prev = kept_addrs stored vpnAddr;
          v2p = (if length prev > maxPrevVPNAddrs
                 then fold (\<lambda>a m. m(a := None)) (drop maxPrevVPNAddrs prev) (vpnToPub s) else vpnToPub s);
          prev = (if length prev > maxPrevVPNAddrs then take maxPrevVPNAddrs prev else prev)
      in s\<lparr>vpnToPub := v2p(vpnAddr \<mapsto> pubStr),
           pins := (pins s)(pubStr \<mapsto> stored\<lparr>pv_PrevVPNAddrs := prev, pv_VPNAddr := vpnAddr\<rparr>)\<rparr>)"

definition Check ::
  "(bytes \<Rightarrow> bytes) \<Rightarrow> bool \<Rightarrow> string list \<Rightarrow> Store \<Rightarrow> string \<Rightarrow> bytes \<Rightarrow> Store \<times> tofu_error option" where
  "Check sha wr ks s vpnAddr pub =
     (let fp = sha pub; pubStr = pubKeyString pub
      in case pins s pubStr of
           Some stored \<Rightarrow>
             if pv_Fingerprint stored \<noteq> fp then (s, Some ErrFingerprintMismatch)
             else if pv_VPNAddr stored \<noteq> vpnAddr then
               (if vpnToPub s vpnAddr \<noteq> None \<and> vpnToPub s vpnAddr \<noteq> Some pubStr then (s, Some ErrFingerprintMismatch)
                else save wr ks (move_pin s pubStr stored vpnAddr))
             else (s, None)
         | None \<Rightarrow>
             if vpnToPub s vpnAddr \<noteq> None \<and> vpnToPub s vpnAddr \<noteq> Some pubStr then (s, Some ErrFingerprintMismatch)
             else save wr ks
                    (s\<lparr>pins := (pins s)(pubStr \<mapsto> \<lparr>pv_Fingerprint = fp, pv_Ed25519Pub = pubStr, pv_VPNAddr = vpnAddr,
                                                 pv_PrevVPNAddrs = []\<rparr>),
                       vpnToPub := (vpnToPub s)(vpnAddr \<mapsto> pubStr)\<rparr>))"

definition unpin :: "Store \<Rightarrow> pinValue \<Rightarrow> Store" where
  "unpin s v =
     s\<lparr>vpnToPub := fold (\<lambda>a m. if m a = Some (pv_Ed25519Pub v) then m(a := None) else m)
                     (pv_VPNAddr v # pv_PrevVPNAddrs v) (vpnToPub s),
       pins := (pins s)(pv_Ed25519Pub v := None)\<rparr>"

definition Forget :: "bool \<Rightarrow> string list \<Rightarrow> Store \<Rightarrow> bytes \<Rightarrow> Store \<times> tofu_error option" where
  "Forget wr ks s pub =
     (case pins s (pubKeyString pub) of None \<Rightarrow> save wr ks s | Some v \<Rightarrow> save wr ks (unpin s v))"

definition ForgetByVPNAddr :: "bool \<Rightarrow> string list \<Rightarrow> Store \<Rightarrow> string \<Rightarrow> Store \<times> tofu_error option" where
  "ForgetByVPNAddr wr ks s vpnAddr =
     save wr ks
       (case vpnToPub s vpnAddr of
          None \<Rightarrow> s
        | Some pubStr \<Rightarrow>
            (case pins s pubStr of
               Some v \<Rightarrow> unpin s v
             | None \<Rightarrow> s\<lparr>vpnToPub := (vpnToPub s)(vpnAddr := None)\<rparr>))"

definition List_pins :: "Store \<Rightarrow> string list \<Rightarrow> (string \<times> string) list" where
  "List_pins s ks = map (\<lambda>k. let v = the (pins s k) in (pv_VPNAddr v, hex_EncodeToString (pv_Fingerprint v))) ks"

section \<open>Loading\<close>

definition load_pin :: "pinEntry \<Rightarrow> Store \<Rightarrow> Store" where
  "load_pin p s =
     (if pe_Ed25519Pub p = [] \<or> pe_Fingerprint p = [] then s
      else case hex_DecodeString (pe_Fingerprint p) of
             None \<Rightarrow> s
           | Some b \<Rightarrow>
               if length b \<noteq> 32 then s
               else
                 (let pubStr = pe_Ed25519Pub p
                  in s\<lparr>pins := (pins s)(pubStr \<mapsto> \<lparr>pv_Fingerprint = b, pv_Ed25519Pub = pubStr, pv_VPNAddr = pe_VPNAddr p,
                                                  pv_PrevVPNAddrs = pe_PrevVPNAddrs p\<rparr>),
                       vpnToPub := fold (\<lambda>a m. if m a = None then m(a \<mapsto> pubStr) else m) (pe_PrevVPNAddrs p)
                                     ((vpnToPub s)(pe_VPNAddr p \<mapsto> pubStr))\<rparr>))"

definition empty_store :: "pinEntry list option \<Rightarrow> Store" where
  "empty_store f = \<lparr>pins = Map.empty, vpnToPub = Map.empty, disk = f\<rparr>"

text \<open>What reading the file gives: no file, a read error, or its text, with the results of decoding it in the current
  and in the first format (for that one, the number of its pins).\<close>

datatype tofu_file = NoFile | ReadError | FileData "pinEntry list option" "nat option"

definition usable_pins :: "pinEntry list \<Rightarrow> bool" where
  "usable_pins ps \<longleftrightarrow> list_ex (\<lambda>p. pe_Ed25519Pub p \<noteq> [] \<and> pe_Fingerprint p \<noteq> []) ps"

definition load_file :: "bool \<Rightarrow> tofu_file \<Rightarrow> Store \<Rightarrow> Store \<times> tofu_error option" where
  "load_file wr f s =
     (case f of
        NoFile \<Rightarrow> (s, Some ErrNotExist)
      | ReadError \<Rightarrow> (s, Some ErrRead)
      | FileData v3 v1 \<Rightarrow>
          if (case v3 of None \<Rightarrow> False | Some ps \<Rightarrow> usable_pins ps) then (fold load_pin (the v3) s, None)
          else if (case v1 of None \<Rightarrow> False | Some n \<Rightarrow> n > 0) then save wr [] s
          else (s, None))"

definition New_Store :: "bool \<Rightarrow> tofu_file \<Rightarrow> Store option" where
  "New_Store wr f =
     (case load_file wr f (empty_store (case f of FileData v3 v1 \<Rightarrow> v3 | _ \<Rightarrow> None)) of
        (s, err) \<Rightarrow> if err \<noteq> None \<and> err \<noteq> Some ErrNotExist then None else Some s)"

section \<open>The maps agree\<close>

definition addrs :: "pinValue \<Rightarrow> string list" where
  "addrs v = pv_VPNAddr v # pv_PrevVPNAddrs v"

definition tofu_inv :: "Store \<Rightarrow> bool" where
  "tofu_inv s \<longleftrightarrow>
     (\<forall>k v. pins s k = Some v \<longrightarrow> pv_Ed25519Pub v = k \<and> distinct (addrs v) \<and> length (pv_PrevVPNAddrs v) \<le> maxPrevVPNAddrs) \<and>
     (\<forall>a k. vpnToPub s a = Some k \<longleftrightarrow> (\<exists>v. pins s k = Some v \<and> a \<in> set (addrs v)))"

lemma tofu_invD:
  assumes "tofu_inv s" "pins s k = Some v"
  shows "pv_Ed25519Pub v = k" "distinct (addrs v)" "length (pv_PrevVPNAddrs v) \<le> maxPrevVPNAddrs"
    "\<And>a. a \<in> set (addrs v) \<Longrightarrow> vpnToPub s a = Some k"
  using assms unfolding tofu_inv_def by blast+

lemma tofu_inv_owner:
  assumes "tofu_inv s" "vpnToPub s a = Some k"
  obtains v where "pins s k = Some v" "a \<in> set (addrs v)"
  using assms unfolding tofu_inv_def by blast

lemma save_maps [simp]: "pins (fst (save wr ks s)) = pins s" "vpnToPub (fst (save wr ks s)) = vpnToPub s"
  by (simp_all add: save_def)

lemma tofu_inv_save [simp]: "tofu_inv (fst (save wr ks s)) = tofu_inv s"
  by (simp add: tofu_inv_def)

lemma fold_delete: "fold (\<lambda>a m. m(a := None)) xs m = (\<lambda>a. if a \<in> set xs then None else m a)"
  by (induction xs arbitrary: m) auto

lemma fold_delete_own:
  "fold (\<lambda>a m. if m a = Some k then m(a := None) else m) xs m = (\<lambda>a. if a \<in> set xs \<and> m a = Some k then None else m a)"
  by (induction xs arbitrary: m) auto

lemma fold_reserve:
  "fold (\<lambda>a m. if m a = None then m(a \<mapsto> k) else m) xs m = (\<lambda>a. if a \<in> set xs \<and> m a = None then Some k else m a)"
  by (induction xs arbitrary: m) (auto simp: fun_eq_iff)

lemma set_kept_addrs:
  "set (kept_addrs v a) = set (addrs v) - {a} \<union> {pv_VPNAddr v}"
  by (auto simp: kept_addrs_def addrs_def)

lemma move_pin_maps:
  assumes inv: "tofu_inv s" and k: "pins s k = Some v"
    and free: "vpnToPub s a = None \<or> vpnToPub s a = Some k" and moved: "pv_VPNAddr v \<noteq> a"
  defines "kept \<equiv> take maxPrevVPNAddrs (kept_addrs v a)"
  shows "pins (move_pin s k v a) = (pins s)(k \<mapsto> v\<lparr>pv_PrevVPNAddrs := kept, pv_VPNAddr := a\<rparr>)"
    "vpnToPub (move_pin s k v a) = (\<lambda>b. if b = a \<or> b \<in> set kept then Some k
       else if vpnToPub s b = Some k then None else vpnToPub s b)"
    "distinct (a # kept)" "length kept \<le> maxPrevVPNAddrs"
proof -
  note I = tofu_invD [OF inv k]
  have D: "distinct (kept_addrs v a)" using I(2) by (auto simp: kept_addrs_def addrs_def)
  have na: "a \<notin> set (kept_addrs v a)" using moved by (auto simp: kept_addrs_def)
  show "pins (move_pin s k v a) = (pins s)(k \<mapsto> v\<lparr>pv_PrevVPNAddrs := kept, pv_VPNAddr := a\<rparr>)"
    by (simp add: move_pin_def Let_def kept_def)
  show "distinct (a # kept)" using D na by (auto simp: kept_def dest: in_set_takeD)
  show "length kept \<le> maxPrevVPNAddrs" by (simp add: kept_def)
  have own: "vpnToPub s b = Some k \<longleftrightarrow> b \<in> set (addrs v)" for b
    using inv k unfolding tofu_inv_def by (metis option.inject)
  have split: "set (kept_addrs v a) = set kept \<union> set (drop maxPrevVPNAddrs (kept_addrs v a))"
    unfolding kept_def by (metis append_take_drop_id set_append)
  have dis: "set kept \<inter> set (drop maxPrevVPNAddrs (kept_addrs v a)) = {}"
    unfolding kept_def by (rule set_take_disj_set_drop_if_distinct [OF D]) simp
  have M: "vpnToPub (move_pin s k v a) = (\<lambda>b. if b = a then Some k
      else if b \<in> set (drop maxPrevVPNAddrs (kept_addrs v a)) then None else vpnToPub s b)"
    by (auto simp: move_pin_def Let_def fold_delete fun_eq_iff)
  show "vpnToPub (move_pin s k v a) = (\<lambda>b. if b = a \<or> b \<in> set kept then Some k
       else if vpnToPub s b = Some k then None else vpnToPub s b)"
  proof
    fix b
    have "b \<in> set (kept_addrs v a) \<longleftrightarrow> b \<in> set (addrs v)" if "b \<noteq> a"
      using that set_kept_addrs [of v a] by (auto simp: addrs_def)
    then show "vpnToPub (move_pin s k v a) b = (if b = a \<or> b \<in> set kept then Some k
       else if vpnToPub s b = Some k then None else vpnToPub s b)"
      using own [of b] split dis unfolding M by auto
  qed
qed

lemma tofu_inv_repin:
  assumes inv: "tofu_inv s" and v: "pv_Ed25519Pub v = k" "distinct (addrs v)" "length (pv_PrevVPNAddrs v) \<le> maxPrevVPNAddrs"
    and own: "\<And>a. a \<in> set (addrs v) \<Longrightarrow> vpnToPub s a = None \<or> vpnToPub s a = Some k"
    and t: "pins t = (pins s)(k \<mapsto> v)"
      "vpnToPub t = (\<lambda>a. if a \<in> set (addrs v) then Some k else if vpnToPub s a = Some k then None else vpnToPub s a)"
  shows "tofu_inv t"
proof -
  have "vpnToPub t a = Some j \<longleftrightarrow> (\<exists>w. pins t j = Some w \<and> a \<in> set (addrs w))" for a j
  proof (cases "j = k")
    case True
    then show ?thesis using t by auto
  next
    case False
    then have "vpnToPub t a = Some j \<longleftrightarrow> vpnToPub s a = Some j" using t(2) own [of a] by auto
    also have "\<dots> \<longleftrightarrow> (\<exists>w. pins s j = Some w \<and> a \<in> set (addrs w))" using inv unfolding tofu_inv_def by blast
    finally show ?thesis using t(1) False by simp
  qed
  then show ?thesis using inv v t(1) unfolding tofu_inv_def by auto
qed

lemma move_pin_inv:
  assumes "tofu_inv s" "pins s k = Some v" "vpnToPub s a = None \<or> vpnToPub s a = Some k" "pv_VPNAddr v \<noteq> a"
  shows "tofu_inv (move_pin s k v a)"
proof -
  note M = move_pin_maps [OF assms] note I = tofu_invD [OF assms(1,2)]
  have K: "b \<in> set (take maxPrevVPNAddrs (kept_addrs v a)) \<Longrightarrow> vpnToPub s b = Some k" for b
    using set_kept_addrs [of v a] I(4) by (auto simp: addrs_def dest!: in_set_takeD)
  show ?thesis
    by (rule tofu_inv_repin [OF assms(1) _ _ _ _ M(1)])
      (use M(2-4) I(1) assms(3) K in \<open>auto simp: addrs_def\<close>)
qed

lemma Check_inv: "tofu_inv s \<Longrightarrow> tofu_inv (fst (Check sha wr ks s a pub))"
proof -
  assume inv: "tofu_inv s"
  let ?k = "pubKeyString pub"
  show ?thesis
  proof (cases "pins s ?k")
    case None
    have "vpnToPub s b \<noteq> Some ?k" for b using tofu_inv_owner [OF inv, of b ?k] None by fastforce
    then have "tofu_inv (s\<lparr>pins := (pins s)(?k \<mapsto> \<lparr>pv_Fingerprint = sha pub, pv_Ed25519Pub = ?k, pv_VPNAddr = a, pv_PrevVPNAddrs = []\<rparr>),
        vpnToPub := (vpnToPub s)(a \<mapsto> ?k)\<rparr>)" if "vpnToPub s a = None"
      using that by (intro tofu_inv_repin [OF inv, where k = ?k and v = "\<lparr>pv_Fingerprint = sha pub, pv_Ed25519Pub = ?k,
          pv_VPNAddr = a, pv_PrevVPNAddrs = []\<rparr>"]) (auto simp: addrs_def)
    then show ?thesis using None inv \<open>vpnToPub s a \<noteq> Some ?k\<close> by (auto simp: Check_def Let_def)
  next
    case (Some v)
    then show ?thesis using inv move_pin_inv [OF inv Some, of a] by (auto simp: Check_def Let_def)
  qed
qed

lemma unpin_maps:
  assumes "tofu_inv s" "pins s k = Some v"
  shows "pins (unpin s v) = (pins s)(k := None)" "vpnToPub (unpin s v) = (\<lambda>a. if vpnToPub s a = Some k then None else vpnToPub s a)"
proof -
  note I = tofu_invD [OF assms]
  show "pins (unpin s v) = (pins s)(k := None)" using I(1) by (simp add: unpin_def)
  have own: "vpnToPub s a = Some k \<longleftrightarrow> a \<in> set (addrs v)" for a
    using assms unfolding tofu_inv_def by (metis option.inject)
  then show "vpnToPub (unpin s v) = (\<lambda>a. if vpnToPub s a = Some k then None else vpnToPub s a)"
    using I(1) by (auto simp: unpin_def fold_delete_own addrs_def fun_eq_iff simp del: fold_simps)
qed

lemma unpin_inv:
  assumes "tofu_inv s" "pins s k = Some v"
  shows "tofu_inv (unpin s v)"
proof -
  note U = unpin_maps [OF assms]
  have "vpnToPub (unpin s v) a = Some j \<longleftrightarrow> (\<exists>w. pins (unpin s v) j = Some w \<and> a \<in> set (addrs w))" for a j
  proof -
    have "vpnToPub s a = Some j \<longleftrightarrow> (\<exists>w. pins s j = Some w \<and> a \<in> set (addrs w))" using assms(1) unfolding tofu_inv_def by blast
    then show ?thesis unfolding U by auto
  qed
  then show ?thesis using assms(1) U(1) unfolding tofu_inv_def by auto
qed

section \<open>Sequences of calls\<close>

datatype tofu_op = TCheck string bytes | TForget bytes | TForgetAddr string

text \<open>A call, with the outcome of writing the file and the order of the pins.\<close>

fun tofu_exec :: "(bytes \<Rightarrow> bytes) \<Rightarrow> bool \<times> string list \<times> tofu_op \<Rightarrow> Store \<Rightarrow> Store \<times> tofu_error option" where
  "tofu_exec sha (wr, ks, TCheck a pub) s = Check sha wr ks s a pub"
| "tofu_exec sha (wr, ks, TForget pub) s = Forget wr ks s pub"
| "tofu_exec sha (wr, ks, TForgetAddr a) s = ForgetByVPNAddr wr ks s a"

text \<open>The key a call is about.\<close>

fun op_key :: "Store \<Rightarrow> tofu_op \<Rightarrow> string option" where
  "op_key s (TCheck a pub) = Some (pubKeyString pub)"
| "op_key s (TForget pub) = Some (pubKeyString pub)"
| "op_key s (TForgetAddr a) = vpnToPub s a"

fun tofu_run :: "(bytes \<Rightarrow> bytes) \<Rightarrow> (bool \<times> string list \<times> tofu_op) list \<Rightarrow> Store \<Rightarrow> Store" where
  "tofu_run sha [] s = s"
| "tofu_run sha (c # cs) s = tofu_run sha cs (fst (tofu_exec sha c s))"

fun leaves_key :: "(bytes \<Rightarrow> bytes) \<Rightarrow> string \<Rightarrow> (bool \<times> string list \<times> tofu_op) list \<Rightarrow> Store \<Rightarrow> bool" where
  "leaves_key sha k [] s \<longleftrightarrow> True"
| "leaves_key sha k (c # cs) s \<longleftrightarrow> op_key s (snd (snd c)) \<noteq> Some k \<and> leaves_key sha k cs (fst (tofu_exec sha c s))"

lemma tofu_exec_inv: "tofu_inv s \<Longrightarrow> tofu_inv (fst (tofu_exec sha c s))"
proof (cases "(sha, c, s)" rule: tofu_exec.cases)
  case (3 sha' wr ks a s')
  assume inv: "tofu_inv s"
  show ?thesis
  proof (cases "vpnToPub s a")
    case (Some k)
    obtain v where "pins s k = Some v" using tofu_inv_owner [OF inv Some] by blast
    then show ?thesis using 3 Some unpin_inv [OF inv] by (simp add: ForgetByVPNAddr_def)
  qed (use 3 inv in \<open>simp add: ForgetByVPNAddr_def\<close>)
qed (auto simp: Check_inv Forget_def unpin_inv split: option.splits)

lemma move_pin_others:
  assumes "tofu_inv s" "pins s p = Some v" "vpnToPub s b = None \<or> vpnToPub s b = Some p" "pv_VPNAddr v \<noteq> b" "p \<noteq> k"
  shows "pins (move_pin s p v b) k = pins s k" "vpnToPub s a = Some k \<Longrightarrow> vpnToPub (move_pin s p v b) a = Some k"
proof -
  note M = move_pin_maps [OF assms(1-4)]
  show "pins (move_pin s p v b) k = pins s k" using M(1) assms(5) by simp
  have "vpnToPub s x = Some p" if "x \<in> set (take maxPrevVPNAddrs (kept_addrs v b))" for x
    using that set_kept_addrs [of v b] tofu_invD(4) [OF assms(1,2)] by (auto simp: addrs_def dest!: in_set_takeD)
  then show "vpnToPub (move_pin s p v b) a = Some k" if "vpnToPub s a = Some k"
    using that assms(3,5) M(2) by auto
qed

lemma Check_others:
  assumes inv: "tofu_inv s" and k: "pubKeyString pub \<noteq> k"
  shows "pins (fst (Check sha wr ks s b pub)) k = pins s k \<and>
    (vpnToPub s a = Some k \<longrightarrow> vpnToPub (fst (Check sha wr ks s b pub)) a = Some k)"
proof (cases "pins s (pubKeyString pub)")
  case None
  then show ?thesis using k by (auto simp: Check_def Let_def)
next
  case (Some v)
  show ?thesis
    using Some k move_pin_others [OF inv Some _ _ k, of b] by (auto simp: Check_def Let_def)
qed

lemma tofu_exec_others:
  assumes inv: "tofu_inv s" and k: "op_key s (snd (snd c)) \<noteq> Some k"
  shows "pins (fst (tofu_exec sha c s)) k = pins s k" "vpnToPub s a = Some k \<Longrightarrow> vpnToPub (fst (tofu_exec sha c s)) a = Some k"
proof -
  obtain wr ks op where c: "c = (wr, ks, op)" by (cases c) auto
  have "pins (fst (tofu_exec sha c s)) k = pins s k \<and> (vpnToPub s a = Some k \<longrightarrow> vpnToPub (fst (tofu_exec sha c s)) a = Some k)"
  proof (cases op)
    case (TCheck b pub)
    then have "pubKeyString pub \<noteq> k" using k c by simp
    then show ?thesis using TCheck c Check_others [OF inv, of pub k] by simp
  next
    case (TForget pub)
    then show ?thesis using c k unpin_maps [OF inv, of "pubKeyString pub"] by (auto simp: Forget_def split: option.splits)
  next
    case (TForgetAddr b)
    then show ?thesis using c k unpin_maps [OF inv] by (auto simp: ForgetByVPNAddr_def split: option.splits)
  qed
  then show "pins (fst (tofu_exec sha c s)) k = pins s k" "vpnToPub s a = Some k \<Longrightarrow> vpnToPub (fst (tofu_exec sha c s)) a = Some k"
    by auto
qed

lemma tofu_run_inv: "tofu_inv s \<Longrightarrow> tofu_inv (tofu_run sha cs s)"
  by (induction cs arbitrary: s) (auto intro: tofu_exec_inv)

lemma tofu_run_others:
  assumes "tofu_inv s" "leaves_key sha k cs s"
  shows "pins (tofu_run sha cs s) k = pins s k" "vpnToPub s a = Some k \<Longrightarrow> vpnToPub (tofu_run sha cs s) a = Some k"
  using assms by (induction cs arbitrary: s) (auto simp: tofu_exec_inv tofu_exec_others)

lemma Check_owned:
  assumes "tofu_inv s" "vpnToPub s a = Some k" "pubKeyString pub \<noteq> k"
  shows "Check sha wr ks s a pub = (s, Some ErrFingerprintMismatch)"
proof (cases "pins s (pubKeyString pub)")
  case (Some v)
  have "pv_VPNAddr v \<noteq> a" using tofu_invD(4) [OF assms(1) Some, of "pv_VPNAddr v"] assms(2,3) by (auto simp: addrs_def)
  then show ?thesis using assms Some by (simp add: Check_def Let_def)
qed (use assms in \<open>simp add: Check_def Let_def\<close>)

section \<open>The file\<close>

lemma load_pin_saved:
  assumes inv: "tofu_inv s" and k: "pins s k = Some v" "k \<noteq> []" "length (pv_Fingerprint v) = 32" "k \<notin> P"
    and t: "pins t = pins s |` P" "vpnToPub t = (\<lambda>a. case vpnToPub s a of Some j \<Rightarrow> if j \<in> P then Some j else None | None \<Rightarrow> None)"
  shows "pins (load_pin (pin_entry v) t) = pins s |` insert k P"
    "vpnToPub (load_pin (pin_entry v) t) = (\<lambda>a. case vpnToPub s a of Some j \<Rightarrow> if j \<in> insert k P then Some j else None | None \<Rightarrow> None)"
    "disk (load_pin (pin_entry v) t) = disk t"
proof -
  note I = tofu_invD [OF inv k(1)]
  have hex: "hex_EncodeToString (pv_Fingerprint v) \<noteq> []" using k(3) length_hex_encode [of "pv_Fingerprint v"] by force
  have own: "vpnToPub s a = Some k \<longleftrightarrow> a \<in> set (addrs v)" for a
    using inv k(1) unfolding tofu_inv_def by (metis option.inject)
  have same: "\<lparr>pv_Fingerprint = pv_Fingerprint v, pv_Ed25519Pub = k, pv_VPNAddr = pv_VPNAddr v, pv_PrevVPNAddrs = pv_PrevVPNAddrs v\<rparr> = v"
    using I(1) by (cases v) simp
  have L: "load_pin (pin_entry v) t = t\<lparr>pins := (pins t)(k \<mapsto> \<lparr>pv_Fingerprint = pv_Fingerprint v, pv_Ed25519Pub = k,
        pv_VPNAddr = pv_VPNAddr v, pv_PrevVPNAddrs = pv_PrevVPNAddrs v\<rparr>),
      vpnToPub := (\<lambda>a. if a \<in> set (pv_PrevVPNAddrs v) \<and> ((vpnToPub t)(pv_VPNAddr v \<mapsto> k)) a = None then Some k
                       else ((vpnToPub t)(pv_VPNAddr v \<mapsto> k)) a)\<rparr>"
    using k I(1) hex by (simp add: load_pin_def pin_entry_def fold_reserve Let_def)
  note L = L [unfolded same]
  show "pins (load_pin (pin_entry v) t) = pins s |` insert k P"
    unfolding L using t(1) k by (auto simp: restrict_map_def fun_eq_iff)
  show "disk (load_pin (pin_entry v) t) = disk t" unfolding L by simp
  show "vpnToPub (load_pin (pin_entry v) t) = (\<lambda>a. case vpnToPub s a of Some j \<Rightarrow> if j \<in> insert k P then Some j else None | None \<Rightarrow> None)"
  proof (rule ext)
    fix a
    have "vpnToPub t a = (case vpnToPub s a of Some j \<Rightarrow> if j \<in> P then Some j else None | None \<Rightarrow> None)" by (simp add: t(2))
    then show "vpnToPub (load_pin (pin_entry v) t) a = (case vpnToPub s a of Some j \<Rightarrow> if j \<in> insert k P then Some j else None | None \<Rightarrow> None)"
      unfolding L using k(4) own [of a] by (cases "vpnToPub s a") (auto simp: addrs_def)
  qed
qed

lemma fold_load_saved:
  assumes inv: "tofu_inv s" and ok: "\<And>k v. pins s k = Some v \<Longrightarrow> k \<noteq> [] \<and> length (pv_Fingerprint v) = 32"
  shows "distinct ks \<Longrightarrow> set ks \<subseteq> dom (pins s) - P \<Longrightarrow> pins t = pins s |` P \<Longrightarrow>
    vpnToPub t = (\<lambda>a. case vpnToPub s a of Some j \<Rightarrow> if j \<in> P then Some j else None | None \<Rightarrow> None) \<Longrightarrow>
    (let u = fold load_pin (map (\<lambda>k. pin_entry (the (pins s k))) ks) t
     in pins u = pins s |` (P \<union> set ks) \<and>
        vpnToPub u = (\<lambda>a. case vpnToPub s a of Some j \<Rightarrow> if j \<in> P \<union> set ks then Some j else None | None \<Rightarrow> None) \<and> disk u = disk t)"
proof (induction ks arbitrary: P t)
  case (Cons k ks)
  obtain v where v: "pins s k = Some v" using Cons.prems(2) by auto
  note L = load_pin_saved [OF inv v _ _ _ Cons.prems(3,4)]
  have "k \<noteq> []" "length (pv_Fingerprint v) = 32" "k \<notin> P" using ok [OF v] Cons.prems(2) by auto
  note L = L [OF this]
  have "distinct ks" "set ks \<subseteq> dom (pins s) - insert k P" using Cons.prems(1,2) by auto
  moreover have "insert k P \<union> set ks = P \<union> set (k # ks)" by auto
  ultimately show ?case using Cons.IH [OF _ _ L(1,2)] v L(3) by (simp only: list.map fold_simps comp_apply option.sel Let_def)
qed (simp only: list.map list.set fold_simps id_apply Un_empty_right Let_def simp_thms)

lemma vpnToPub_pinned: "tofu_inv s \<Longrightarrow> vpnToPub s a = Some k \<Longrightarrow> k \<in> dom (pins s)"
  unfolding tofu_inv_def by blast

section \<open>Properties\<close>

text \<open>C8. A pin holds: once a VPN address belongs to a key, no sequence of checks and removals about other keys,
  whether the file can be written or not, takes it away, and a handshake of another key at that address is refused
  without a change to the store.\<close>

theorem tofu_address_not_taken_over:
  assumes "tofu_inv s" "vpnToPub s a = Some k" "leaves_key sha k cs s" "pubKeyString pub \<noteq> k"
  shows "vpnToPub (tofu_run sha cs s) a = Some k \<and> pins (tofu_run sha cs s) k = pins s k \<and>
    Check sha wr ks (tofu_run sha cs s) a pub = (tofu_run sha cs s, Some ErrFingerprintMismatch)"
  using tofu_run_others [OF assms(1,3)] Check_owned [OF tofu_run_inv [OF assms(1)] _ assms(4)] assms(2) by simp

lemma empty_store_inv: "tofu_inv (empty_store f)"
  by (simp add: tofu_inv_def empty_store_def)

definition example_calls :: "(bool \<times> string list \<times> tofu_op) list" where
  "example_calls = [(True, [''01''], TCheck ''10.1.0.1'' [1]), (False, [''01'', ''02''], TCheck ''10.1.0.2'' [2]),
     (True, [''01'', ''02''], TCheck ''10.1.0.3'' [1])]"

definition example_store :: Store where
  "example_store = tofu_run (\<lambda>b. b) example_calls (empty_store None)"

lemma example_store_inv: "tofu_inv example_store"
  unfolding example_store_def by (rule tofu_run_inv [OF empty_store_inv])

lemma example_store_addrs: "vpnToPub example_store ''10.1.0.1'' = Some ''01''" "vpnToPub example_store ''10.1.0.2'' = Some ''02''"
  by (simp_all add: example_store_def example_calls_def Check_def pubKeyString_def hex_char_def char_of_def bit_0 empty_store_def
      save_def move_pin_def kept_addrs_def maxPrevVPNAddrs_def Let_def)

text \<open>C8, at a key that moved: its former address stays its own.\<close>

theorem tofu_address_not_taken_over_witness:
  "Check (\<lambda>b. b) True [] (tofu_run (\<lambda>b. b) [(True, [], TCheck ''10.1.0.9'' [2])] example_store) ''10.1.0.1'' [2] =
     (tofu_run (\<lambda>b. b) [(True, [], TCheck ''10.1.0.9'' [2])] example_store, Some ErrFingerprintMismatch)"
  using tofu_address_not_taken_over [OF example_store_inv example_store_addrs(1), where pub = "[2]" and wr = True and ks = "[]"
      and sha = "\<lambda>b. b" and cs = "[(True, [], TCheck ''10.1.0.9'' [2])]"]
  by (simp add: pubKeyString_def hex_char_def char_of_def bit_0)

text \<open>C32. The pins survive a restart: loading the file a save has written, in whatever order it lists the pins,
  gives back the pins and the address map.\<close>

theorem tofu_save_load:
  assumes "tofu_inv s" "pins s \<noteq> Map.empty" "set ks = dom (pins s)" "distinct ks"
    and "\<And>k v. pins s k = Some v \<Longrightarrow> k \<noteq> [] \<and> length (pv_Fingerprint v) = 32"
    and "save True ks s = (s', None)"
  shows "New_Store wr (FileData (disk s') v1) = Some s'"
proof -
  let ?ps = "map (\<lambda>k. pin_entry (the (pins s k))) ks"
  have s': "s' = s\<lparr>disk := Some ?ps\<rparr>" using assms(6) by (simp add: save_def)
  obtain k v where kv: "pins s k = Some v" "k \<in> set ks" using assms(2,3) by (metis domIff not_Some_eq ext)
  have "pe_Ed25519Pub (pin_entry v) \<noteq> []" "pe_Fingerprint (pin_entry v) \<noteq> []"
    using assms(5) [OF kv(1)] tofu_invD(1) [OF assms(1) kv(1)] length_hex_encode [of "pv_Fingerprint v"]
    by (auto simp: pin_entry_def simp del: length_hex_encode)
  then have U: "usable_pins ?ps" using kv by (auto simp: usable_pins_def list_ex_iff intro!: bexI [of _ k])
  define u where "u = fold load_pin ?ps (empty_store (Some ?ps))"
  have "pins u = pins s |` set ks \<and> vpnToPub u = (\<lambda>a. case vpnToPub s a of Some j \<Rightarrow> if j \<in> set ks then Some j else None | None \<Rightarrow> None) \<and>
      disk u = Some ?ps"
    using fold_load_saved [OF assms(1) assms(5) assms(4), where P = "{}" and t = "empty_store (Some ?ps)"] assms(3)
    by (simp add: Let_def empty_store_def u_def fun_eq_iff split: option.splits)
  moreover have "pins s |` set ks = pins s" using assms(3) by (simp add: restrict_map_def fun_eq_iff domIff)
  moreover have "(\<lambda>a. case vpnToPub s a of Some j \<Rightarrow> if j \<in> set ks then Some j else None | None \<Rightarrow> None) = vpnToPub s"
    using vpnToPub_pinned [OF assms(1)] assms(3) by (auto simp: fun_eq_iff split: option.splits)
  ultimately have "u = s'" unfolding s' by (cases u; cases s) simp
  then show ?thesis using U by (simp add: New_Store_def load_file_def s' u_def)
qed

definition pinned_store :: Store where
  "pinned_store = fst (Check (\<lambda>_. replicate 32 7) False [''01''] (empty_store None) ''10.1.0.1'' [1])"

lemma pinned_store_pins: "pins pinned_store =
    [''01'' \<mapsto> \<lparr>pv_Fingerprint = replicate 32 7, pv_Ed25519Pub = ''01'', pv_VPNAddr = ''10.1.0.1'', pv_PrevVPNAddrs = []\<rparr>]"
  by (simp add: pinned_store_def Check_def pubKeyString_def hex_char_def char_of_def bit_0 empty_store_def save_def
      move_pin_def kept_addrs_def Let_def)

lemma pinned_store_inv: "tofu_inv pinned_store"
  unfolding pinned_store_def by (rule Check_inv [OF empty_store_inv])

text \<open>C32, at a store with one pin.\<close>

theorem tofu_save_load_witness:
  "New_Store True (FileData (disk (fst (save True [''01''] pinned_store))) None) = Some (fst (save True [''01''] pinned_store))"
  by (rule tofu_save_load [OF pinned_store_inv, where ks = "[''01'']"])
    (auto simp: pinned_store_pins save_def split: if_splits)

end
