(* ===== verification/Netip_Text.thy ===== *)
theory Netip_Text
  imports Netip AclPolicy
begin

text \<open>
  The text of an IP address as \<open>netip.Addr.String\<close> prints it: dotted decimal, or the groups of an IPv6 address in
  hexadecimal with the first longest run of two or more zero groups left out.
\<close>

fun hex_nat :: "nat \<Rightarrow> string" where
  "hex_nat n = (if n < 16 then [hex_char n] else hex_nat (n div 16) @ [hex_char (n mod 16)])"

declare hex_nat.simps [simp del]

fun join :: "string \<Rightarrow> string list \<Rightarrow> string" where
  "join sep [] = []"
| "join sep [s] = s"
| "join sep (s # t # ss) = s @ sep @ join sep (t # ss)"

definition v4_text :: "u32 \<Rightarrow> string" where
  "v4_text a = join ''.'' (map (\<lambda>b. dec_str (unat b)) (be_bytes 4 (unat a)))"

definition v6_groups :: "128 word \<Rightarrow> nat list" where
  "v6_groups a = map (\<lambda>i. unat a div 2 ^ (112 - 16 * i) mod 2 ^ 16) [0..<8]"

definition zero_run :: "nat list \<Rightarrow> nat \<Rightarrow> nat" where
  "zero_run gs i = length (takeWhile (\<lambda>g. g = 0) (drop i gs))"

definition longest_zero_run :: "nat list \<Rightarrow> nat \<times> nat" where
  "longest_zero_run gs =
     fold (\<lambda>i (s, n). let l = zero_run gs i in if l \<ge> 2 \<and> l > n then (i, l) else (s, n)) [0..<8] (8, 0)"

definition v6_text :: "128 word \<Rightarrow> string" where
  "v6_text a =
     (let gs = v6_groups a; hex = map hex_nat gs
      in case longest_zero_run gs of (s, n) \<Rightarrow>
           if n = 0 then join '':'' hex else join '':'' (take s hex) @ ''::'' @ join '':'' (drop (s + n) hex))"

fun Addr_String :: "Addr \<Rightarrow> string" where
  "Addr_String (Addr0 _) = ''invalid IP''"
| "Addr_String (Addr4 a) = v4_text a"
| "Addr_String (Addr6 a z) =
     (if drop_bit 32 a = 0xffff then ''::ffff:'' @ v4_text (ucast a) else v6_text a) @ (if z = [] then [] else ''%'' @ z)"

end
