(* ===== verification/Handshake.thy ===== *)
theory Handshake
  imports Dataplane Crypto Netip_Text "HOL-Library.AList"
begin

text \<open>
  The handshake manager, \<open>internal/handshake/manager.go\<close>: it starts and answers Noise IK handshakes, keeps the
  attempts that wait for a response, and rejects initiations it has seen before.

  The manager shares the peer table, the sessions and the socket with the dispatcher, so its state extends the
  dispatcher's. Attempts are cells of a heap: the code compares their addresses. \<open>clk\<close> is the clock, and
  \<open>entropy\<close> with the count \<open>drawn\<close> the random source. The map of timestamps is an association list, and the file it
  is saved to is the list its JSON decodes to; \<open>disk_ok\<close> says whether a write succeeds.
\<close>

section \<open>State\<close>

type_synonym href = nat

record pendingHS =
  hs :: InitiatorHS
  phs_peerID :: peer_id
  phs_createdAt :: gotime
  retries :: nat

record 'k Node = "'k Dispatcher" +
  clk :: gotime
  entropy :: "nat \<Rightarrow> byte"
  drawn :: nat
  localID :: Identity
  networkID :: bytes
  initTimestamps :: "(peer_id \<times> int) list"
  replayPath :: string
  replay_file :: "(string \<times> int) list"
  disk_ok :: bool
  pending :: "peer_id \<rightharpoonup> href"
  attempts :: "href \<Rightarrow> pendingHS"
  next_href :: href
  next_sref :: sref

text \<open>The callbacks of the manager: the check of a fingerprint returns whether it passes.\<close>

record 'd ManagerHooks =
  SessionEstablished :: "('d \<Rightarrow> eref \<Rightarrow> 'd) option"
  TOFUCheck :: "('d \<Rightarrow> string \<Rightarrow> bytes \<Rightarrow> 'd \<times> bool) option"
  OnTOFUMismatch :: "('d \<Rightarrow> string \<Rightarrow> bytes \<Rightarrow> 'd) option"

definition handshakeRetryTimeout :: duration where "handshakeRetryTimeout = 5 * second"

definition maxHandshakeRetries :: nat where "maxHandshakeRetries = 3"

definition headerSize :: nat where "headerSize = 16"

definition draw :: "nat \<Rightarrow> ('k, 'm) Node_scheme \<Rightarrow> bytes \<times> ('k, 'm) Node_scheme" where
  "draw n d = (map (\<lambda>i. entropy d (drawn d + i)) [0..<n], d\<lparr>drawn := drawn d + n\<rparr>)"

definition buildPacket :: "u32 \<Rightarrow> bytes \<Rightarrow> bytes" where
  "buildPacket pktType msg =
     put_bytes (PutUint32 (replicate (headerSize + length msg) 0) 0 pktType) headerSize msg"

definition new_session :: "('k, 'm) Node_scheme \<Rightarrow> 'k HandshakeResult \<Rightarrow> ('k, 'm) Node_scheme \<times> sref" where
  "new_session d r =
     ((on_session d (next_sref d) (New_Session (SessionID r) (SendCS r) (RecvCS r) (clk d)))\<lparr>next_sref := next_sref d + 1\<rparr>,
      next_sref d)"

section \<open>Starting a handshake\<close>

text \<open>The part of \<open>Initiate\<close> after the checks; \<open>phs\<close> is the attempt that is retried, if any.\<close>

definition start_handshake ::
  "ed25519 \<Rightarrow> ('h, 'k) noise \<Rightarrow> ('k, 'm) Node_scheme \<Rightarrow> eref \<Rightarrow> href option \<Rightarrow> ('k, 'm) Node_scheme" where
  "start_handshake ed N d entry phs =
     (let (seed, d) = draw 32 d; peerID = ID (entries d entry)
      in case BuildMessage1 ed N (NewInitiatorHS seed (localID d) (X25519Pub (entries d entry)) (networkID d)) (clk d) of
           Inl _ \<Rightarrow>
             (case phs of
                None \<Rightarrow> d
              | Some p \<Rightarrow> d\<lparr>attempts := (attempts d)(p := (attempts d p)\<lparr>retries := retries (attempts d p) - 1\<rparr>)\<rparr>)
         | Inr (h, msg1) \<Rightarrow>
             (let n = (case phs of None \<Rightarrow> 0 | Some p \<Rightarrow> retries (attempts d p));
                  d = d\<lparr>attempts := (attempts d)(next_href d := \<lparr>hs = h, phs_peerID = peerID, phs_createdAt = clk d, retries = n\<rparr>),
                        pending := (pending d)(peerID \<mapsto> next_href d), next_href := next_href d + 1\<rparr>;
                  d = on_entry d entry (SetState (entries d entry) StateHandshaking);
                  ep = endpoint (entries d entry)
              in if \<not> AddrPort_IsValid ep then d\<lparr>pending := (pending d)(peerID := None)\<rparr>
                 else conn_WriteTo d (buildPacket TypeHandshakeInit msg1) (UDPAddrFromAddrPort ep)))"

definition Initiate :: "ed25519 \<Rightarrow> ('h, 'k) noise \<Rightarrow> ('k, 'm) Node_scheme \<Rightarrow> eref \<Rightarrow> ('k, 'm) Node_scheme" where
  "Initiate ed N d entry =
     (case pending d (ID (entries d entry)) of
        None \<Rightarrow> start_handshake ed N d entry None
      | Some p \<Rightarrow>
          (let phs = attempts d p
           in if clk d - phs_createdAt phs < handshakeRetryTimeout then d
              else if retries phs \<ge> maxHandshakeRetries then d\<lparr>pending := (pending d)(ID (entries d entry) := None)\<rparr>
              else start_handshake ed N
                     (d\<lparr>attempts := (attempts d)(p := phs\<lparr>retries := retries phs + 1, phs_createdAt := clk d\<rparr>)\<rparr>) entry (Some p)))"

definition OnPeerRemoved :: "('k, 'm) Node_scheme \<Rightarrow> peer_id \<Rightarrow> ('k, 'm) Node_scheme" where
  "OnPeerRemoved d peerID = d\<lparr>pending := (pending d)(peerID := None)\<rparr>"

section \<open>The timestamps of initiations\<close>

definition cutoff :: "('k, 'm) Node_scheme \<Rightarrow> int" where
  "cutoff d = clk d - MaxTimestampSkew"

fun load_timestamps :: "int \<Rightarrow> (string \<times> int) list \<Rightarrow> (peer_id \<times> int) list \<Rightarrow> (peer_id \<times> int) list" where
  "load_timestamps c [] m = m"
| "load_timestamps c ((k, ts) # ps) m =
     load_timestamps c ps
       (case hex_DecodeString k of
          None \<Rightarrow> m
        | Some b \<Rightarrow>
            if length b \<noteq> 32 \<or> ts < c then m
            else if ts > (case map_of m b of None \<Rightarrow> 0 | Some t \<Rightarrow> t) then AList.update b ts m else m)"

text \<open>What reading the file gives: no file, another error, or the map it decodes to, empty when it is damaged.\<close>

datatype replay_read = NoReplayFile | ReplayReadError | ReplayData "(string \<times> int) list"

definition UseReplayState :: "('k, 'm) Node_scheme \<Rightarrow> string \<Rightarrow> replay_read \<Rightarrow> ('k, 'm) Node_scheme option" where
  "UseReplayState d path f = (case f of
      ReplayReadError \<Rightarrow> None
    | NoReplayFile \<Rightarrow> Some (d\<lparr>replayPath := path\<rparr>)
    | ReplayData ps \<Rightarrow>
        Some (d\<lparr>initTimestamps := load_timestamps (cutoff d) ps (initTimestamps d), replayPath := path\<rparr>))"

definition pruneTimestampsLocked :: "('k, 'm) Node_scheme \<Rightarrow> ('k, 'm) Node_scheme \<times> (string \<times> int) list" where
  "pruneTimestampsLocked d =
     (let kept = filter (\<lambda>(pid, ts). \<not> ts < cutoff d) (initTimestamps d)
      in (d\<lparr>initTimestamps := kept\<rparr>, map (\<lambda>(pid, ts). (hex_EncodeToString pid, ts)) kept))"

definition saveReplayState :: "('k, 'm) Node_scheme \<Rightarrow> (string \<times> int) list \<Rightarrow> ('k, 'm) Node_scheme" where
  "saveReplayState d ps = (if disk_ok d then d\<lparr>replay_file := ps\<rparr> else d)"

definition record_init :: "('k, 'm) Node_scheme \<Rightarrow> peer_id \<Rightarrow> int \<Rightarrow> ('k, 'm) Node_scheme" where
  "record_init d peerID ts =
     (let d = d\<lparr>initTimestamps := AList.update peerID ts (initTimestamps d)\<rparr>
      in if replayPath d \<noteq> [] then (case pruneTimestampsLocked d of (d, snapshot) \<Rightarrow> saveReplayState d snapshot) else d)"

section \<open>Answering\<close>

definition tofu_check ::
  "('k, 'm) Node_scheme ManagerHooks \<Rightarrow> (bytes \<Rightarrow> bytes) \<Rightarrow> ('k, 'm) Node_scheme \<Rightarrow> eref \<Rightarrow> bytes \<Rightarrow>
    ('k, 'm) Node_scheme \<times> bool" where
  "tofu_check M sha d entry pub = (case TOFUCheck M of
      None \<Rightarrow> (d, True)
    | Some f \<Rightarrow>
        (case f d (Addr_String (VPNAddr (entries d entry))) pub of
           (d, True) \<Rightarrow> (d, True)
         | (d, False) \<Rightarrow>
             (case OnTOFUMismatch M of
                None \<Rightarrow> (d, False)
              | Some report \<Rightarrow> (report d (Addr_String (VPNAddr (entries d entry))) (sha pub), False))))"

text \<open>The end of \<open>handleInit\<close>, for an initiation that is accepted.\<close>

definition answer_init ::
  "('k, 'm) Node_scheme \<Rightarrow> eref \<Rightarrow> peer_id \<Rightarrow> 'k HandshakeResult \<Rightarrow> bytes \<Rightarrow> net_addr \<Rightarrow> ('k, 'm) Node_scheme" where
  "answer_init d entry peerID result msg2 addr =
     (let d = (case addrToAddrPort addr of
                 None \<Rightarrow> d
               | Some ep \<Rightarrow> (case ClaimEndpoint (entries d) (peers d) peerID ep of (h, t, _) \<Rightarrow> d\<lparr>entries := h, peers := t\<rparr>));
          (d, s) = new_session d result;
          d = on_entry d entry (SetPendingSession (entries d entry) (Some s))
      in conn_WriteTo d (buildPacket TypeHandshakeResp msg2) addr)"

text \<open>The start of \<open>handleInit\<close>: whether an initiation is accepted, with the peer, its timestamp and the answer.\<close>

definition accept_init ::
  "ed25519 \<Rightarrow> ('h, 'k) noise \<Rightarrow> ('k, 'm) Node_scheme \<Rightarrow> bytes \<Rightarrow>
    ('k, 'm) Node_scheme \<times> (eref \<times> peer_id \<times> int \<times> bytes \<times> 'k HandshakeResult) option" where
  "accept_init ed N d noiseMsg =
     (case NewResponderHS N (localID d) (PeerLookupFn (entries d) (peers d)) of None \<Rightarrow> (d, None)
      | Some respHS \<Rightarrow>
     (case ProcessMessage1 ed N (clk d) respHS noiseMsg of Inl _ \<Rightarrow> (d, None)
      | Inr (respHS, tsRaw) \<Rightarrow>
          let ts = NormalizeTimestamp tsRaw; (sid, d) = draw 8 d; (rnd, d) = draw 32 d
          in
     (case BuildMessage2 ed N respHS rnd sid (clk d) of Inl _ \<Rightarrow> (d, None)
      | Inr (msg2, result) \<Rightarrow>
          if NetworkID result \<noteq> networkID d then (d, None)
          else let peerID = copy_array 32 (PeerEd25519Public result)
          in
     (case LookupByID (peers d) peerID of None \<Rightarrow> (d, None)
      | Some entry \<Rightarrow>
          if ts = 0 then (d, None)
          else if (case map_of (initTimestamps d) peerID of None \<Rightarrow> False | Some lastTS \<Rightarrow> ts \<le> lastTS) then (d, None)
          else (d, Some (entry, peerID, ts, msg2, result))))))"

definition handleInit ::
  "ed25519 \<Rightarrow> ('h, 'k) noise \<Rightarrow> (bytes \<Rightarrow> bytes) \<Rightarrow> ('k, 'm) Node_scheme ManagerHooks \<Rightarrow> ('k, 'm) Node_scheme \<Rightarrow> bytes \<Rightarrow>
    net_addr \<Rightarrow> ('k, 'm) Node_scheme" where
  "handleInit ed N sha M d noiseMsg addr =
     (case accept_init ed N d noiseMsg of
        (d, None) \<Rightarrow> d
      | (d, Some (entry, peerID, ts, msg2, result)) \<Rightarrow>
     (case tofu_check M sha (record_init d peerID ts) entry (PeerEd25519Public result) of
        (d, False) \<Rightarrow> d
      | (d, True) \<Rightarrow> answer_init d entry peerID result msg2 addr))"

text \<open>\<open>handleResp\<close> looks up the attempt, checks the response and, after the fingerprint check, completes the attempt
  if it is still the current one.\<close>

definition read_resp ::
  "ed25519 \<Rightarrow> ('h, 'k) noise \<Rightarrow> ('k, 'm) Node_scheme \<Rightarrow> bytes \<Rightarrow> net_addr \<Rightarrow> (eref \<times> href \<times> 'k HandshakeResult) option" where
  "read_resp ed N d noiseMsg addr = do {
     ep \<leftarrow> addrToAddrPort addr;
     entry \<leftarrow> LookupByEndpoint (peers d) ep;
     p \<leftarrow> pending d (ID (entries d entry));
     (case ProcessMessage2 ed N (clk d) (hs (attempts d p)) noiseMsg of
        Inl _ \<Rightarrow> None
      | Inr result \<Rightarrow>
          if copy_array 32 (PeerEd25519Public result) \<noteq> ID (entries d entry) then None else Some (entry, p, result))
   }"

definition complete_resp ::
  "('k, 'm) Node_scheme ManagerHooks \<Rightarrow> ('k, 'm) Node_scheme \<Rightarrow> eref \<Rightarrow> href \<Rightarrow> 'k HandshakeResult \<Rightarrow> ('k, 'm) Node_scheme" where
  "complete_resp M d entry p result =
     (if pending d (ID (entries d entry)) \<noteq> Some p then d
      else
        (let d = d\<lparr>pending := (pending d)(ID (entries d entry) := None)\<rparr>;
             (d, s) = new_session d result;
             d = on_entry d entry (SetSession (entries d entry) (Some s))
         in call_entry (SessionEstablished M) d entry))"

definition handleResp ::
  "ed25519 \<Rightarrow> ('h, 'k) noise \<Rightarrow> (bytes \<Rightarrow> bytes) \<Rightarrow> ('k, 'm) Node_scheme ManagerHooks \<Rightarrow> ('k, 'm) Node_scheme \<Rightarrow> bytes \<Rightarrow>
    net_addr \<Rightarrow> ('k, 'm) Node_scheme" where
  "handleResp ed N sha M d noiseMsg addr =
     (case read_resp ed N d noiseMsg addr of None \<Rightarrow> d
      | Some (entry, p, result) \<Rightarrow>
     (case tofu_check M sha d entry (PeerEd25519Public result) of
        (d, False) \<Rightarrow> d
      | (d, True) \<Rightarrow> complete_resp M d entry p result))"

definition HandlePacket ::
  "ed25519 \<Rightarrow> ('h, 'k) noise \<Rightarrow> (bytes \<Rightarrow> bytes) \<Rightarrow> ('k, 'm) Node_scheme ManagerHooks \<Rightarrow> ('k, 'm) Node_scheme \<Rightarrow> bytes \<Rightarrow>
    net_addr \<Rightarrow> ('k, 'm) Node_scheme" where
  "HandlePacket ed N sha M d pkt addr =
     (if length pkt < headerSize then d
      else
        (let pktType = of_nat (be_nat (take 4 pkt)) :: u32; noiseMsg = drop headerSize pkt
         in if pktType = TypeHandshakeInit then handleInit ed N sha M d noiseMsg addr
            else if pktType = TypeHandshakeResp then handleResp ed N sha M d noiseMsg addr
            else d))"

definition HandleDataPacket ::
  "('k \<Rightarrow> u64 \<Rightarrow> bytes \<Rightarrow> bytes option) \<Rightarrow> ('k, 'm) Node_scheme ManagerHooks \<Rightarrow> ('k, 'm) Node_scheme \<Rightarrow> eref \<Rightarrow> u64 \<Rightarrow> bytes \<Rightarrow>
    ('k, 'm) Node_scheme \<times> bytes option" where
  "HandleDataPacket unseal M d entry nonce ciphertext =
     (case decrypt_with unseal d (pendingSession (entries d entry)) nonce ciphertext of
        (d, None) \<Rightarrow> (d, None)
      | (d, Some plain) \<Rightarrow>
          (case PromotePendingSession (entries d entry) of
             (x, True) \<Rightarrow> (call_entry (SessionEstablished M) (on_entry d entry x) entry, Some plain)
           | (x, False) \<Rightarrow> (d, Some plain)))"

section \<open>What the manager leaves alone\<close>

lemma setEndpoint_identity:
  assumes "setEndpoint h t pid ep cl = (h', t', b)"
  shows "byVPN t' = byVPN t" "ID (h' e) = ID (h e)" "VPNAddr (h' e) = VPNAddr (h e)" "SubnetRoutes (h' e) = SubnetRoutes (h e)"
    "byID t' = byID t" "X25519Pub (h' e) = X25519Pub (h e)"
  using assms by (auto simp: setEndpoint_def SetEndpoint_def Let_def split: option.splits if_splits)

text \<open>The fields of the manager a callback has no business with.\<close>

definition mgr_same :: "('k, 'm) Node_scheme \<Rightarrow> ('k, 'm) Node_scheme \<Rightarrow> bool" where
  "mgr_same d d' \<longleftrightarrow> clk d' = clk d \<and> localID d' = localID d \<and> networkID d' = networkID d \<and>
     initTimestamps d' = initTimestamps d \<and> replayPath d' = replayPath d \<and> replay_file d' = replay_file d \<and>
     pending d' = pending d \<and> attempts d' = attempts d \<and> next_href d' = next_href d"

lemma mgr_same_refl [simp, intro]: "mgr_same d d"
  by (simp add: mgr_same_def)

lemma mgr_same_trans: "mgr_same a b \<Longrightarrow> mgr_same b c \<Longrightarrow> mgr_same a c"
  by (simp add: mgr_same_def)

lemma mgr_same_updates [simp]:
  "mgr_same d (on_session d s x)" "mgr_same d (conn_WriteTo d pkt addr)" "mgr_same d (on_entry d e y)"
  by (simp_all add: mgr_same_def state_updates)

lemma flush_packets_mgr: "mgr_same d (flush_packets seal s ep pkts d)"
proof (induction pkts arbitrary: d)
  case (Cons pkt pkts)
  obtain s' r where E: "Encrypt seal (sessions d s) pkt = (s', r)" by fastforce
  have "mgr_same d (conn_WriteTo (on_session d s s') p a)" for p a
    by (rule mgr_same_trans [OF mgr_same_updates(1) mgr_same_updates(2)])
  then show ?case using E mgr_same_trans [OF _ Cons.IH] by (cases r) auto
qed simp

lemma FlushHoldQueue_mgr: "mgr_same d (FlushHoldQueue seal d e)"
proof -
  have "mgr_same d (on_entry d e (fst (DrainQueue (entries d e))))" by simp
  from mgr_same_trans [OF this flush_packets_mgr] show ?thesis
    by (simp add: FlushHoldQueue_def Let_def case_prod_beta split: option.splits)
qed

text \<open>The contract of the manager's callbacks: they leave the manager alone, and do what the callbacks of the
  dispatcher may do.\<close>

locale manager_hooks =
  fixes M :: "('k, 'm) Node_scheme ManagerHooks"
  assumes established_keeps: "SessionEstablished M = Some f \<Longrightarrow> quiet d (f d e) \<and> mgr_same d (f d e)"
    and check_keeps: "TOFUCheck M = Some c \<Longrightarrow> quiet d (fst (c d a pub)) \<and> mgr_same d (fst (c d a pub))"
    and mismatch_keeps: "OnTOFUMismatch M = Some r \<Longrightarrow> quiet d (r d a fp) \<and> mgr_same d (r d a fp)"
begin

lemma established_call: "quiet d (call_entry (SessionEstablished M) d e)" "mgr_same d (call_entry (SessionEstablished M) d e)"
  using established_keeps by (auto simp: call_entry_def split: option.splits)

lemma tofu_check_keeps:
  assumes "tofu_check M sha d e pub = (d', ok)"
  shows "quiet d d'" "mgr_same d d'"
proof -
  have "quiet d d' \<and> mgr_same d d'"
  proof (cases "TOFUCheck M")
    case (Some c)
    obtain d1 b where c: "c d (Addr_String (VPNAddr (entries d e))) pub = (d1, b)" by fastforce
    have 1: "quiet d d1" "mgr_same d d1" using check_keeps [OF Some, of d _ pub] c by (metis fst_conv)+
    show ?thesis
      using assms Some c 1 mismatch_keeps quiet_trans [OF 1(1)] mgr_same_trans [OF 1(2)]
      by (auto simp: tofu_check_def split: bool.splits option.splits)
  qed (use assms in \<open>simp add: tofu_check_def\<close>)
  then show "quiet d d'" "mgr_same d d'" by simp_all
qed

end

lemma draw_quiet: "draw n d = (b, d') \<Longrightarrow> quiet d d'"
  by (auto simp: draw_def quiet_def)

lemma Initiate_quiet: "quiet d (Initiate ed N d e)"
proof -
  have S: "quiet d (start_handshake ed N d' e p)" if "quiet d d'" for d' p
    using that by (auto simp: start_handshake_def quiet_def draw_def Let_def state_updates SetState_def split: sum.splits option.splits)
  have "quiet d (d\<lparr>attempts := f\<rparr>)" "quiet d (d\<lparr>pending := g\<rparr>)" for f g by (simp_all add: quiet_def)
  then show ?thesis using S [OF quiet_refl] S by (simp add: Initiate_def Let_def split: option.splits)
qed

lemma accept_init_state: "fst (accept_init ed N d msg) = d \<or> fst (accept_init ed N d msg) = d\<lparr>drawn := drawn d + 40\<rparr>"
  by (auto simp: accept_init_def draw_def Let_def split: option.splits sum.splits)

lemma record_init_quiet: "quiet d (record_init d pid ts)"
  by (simp add: record_init_def pruneTimestampsLocked_def saveReplayState_def quiet_def Let_def)

lemma new_session_quiet: "new_session d r = (d', s) \<Longrightarrow> quiet d d'"
  by (auto simp: new_session_def quiet_def state_updates)

lemma answer_init_quiet: "quiet d (answer_init d e pid r msg addr)"
proof -
  define d1 where "d1 = (case addrToAddrPort addr of None \<Rightarrow> d
    | Some ep \<Rightarrow> (case ClaimEndpoint (entries d) (peers d) pid ep of (h, t, _) \<Rightarrow> d\<lparr>entries := h, peers := t\<rparr>))"
  have 1: "quiet d d1"
    by (auto simp: d1_def quiet_def ClaimEndpoint_def setEndpoint_identity split: option.splits prod.splits)
  obtain d2 s where n: "new_session d1 r = (d2, s)" by fastforce
  define d3 where "d3 = on_entry d2 e (SetPendingSession (entries d2 e) (Some s))"
  have 3: "quiet d2 d3" unfolding d3_def by (rule quiet_updates(3)) (simp_all add: SetPendingSession_def)
  show ?thesis
    using quiet_trans [OF quiet_trans [OF quiet_trans [OF 1 new_session_quiet [OF n]] 3] quiet_updates(2)]
    by (simp add: answer_init_def Let_def n d3_def flip: d1_def)
qed

context manager_hooks
begin

lemma handleInit_quiet: "quiet d (handleInit ed N sha M d msg addr)"
proof -
  obtain d1 r where A: "accept_init ed N d msg = (d1, r)" by fastforce
  have 1: "quiet d d1" using accept_init_state [of ed N d msg] A by (auto simp: quiet_def)
  show ?thesis
  proof (cases r)
    case (Some t)
    obtain entry pid ts msg2 res where t: "t = (entry, pid, ts, msg2, res)" by (cases t)
    obtain d2 b where C: "tofu_check M sha (record_init d1 pid ts) entry (PeerEd25519Public res) = (d2, b)" by fastforce
    have "quiet d d2" by (rule quiet_trans [OF quiet_trans [OF 1 record_init_quiet] tofu_check_keeps(1) [OF C]])
    then show ?thesis using A Some t C quiet_trans [OF _ answer_init_quiet] by (cases b) (auto simp: handleInit_def)
  qed (use A 1 in \<open>simp add: handleInit_def\<close>)
qed

lemma complete_resp_quiet: "quiet d (complete_resp M d e p r)"
proof -
  define d1 where "d1 = d\<lparr>pending := (pending d)(ID (entries d e) := None)\<rparr>"
  obtain d2 s where n: "new_session d1 r = (d2, s)" by fastforce
  define d3 where "d3 = on_entry d2 e (SetSession (entries d2 e) (Some s))"
  have 3: "quiet d2 d3" unfolding d3_def by (rule quiet_updates(3)) (simp_all add: SetSession_def Let_def)
  have 1: "quiet d d1" by (simp add: quiet_def d1_def)
  show ?thesis
    using quiet_trans [OF quiet_trans [OF quiet_trans [OF 1 new_session_quiet [OF n]] 3] established_call(1)]
    by (simp add: complete_resp_def Let_def n d3_def flip: d1_def)
qed

lemma handleResp_quiet: "quiet d (handleResp ed N sha M d msg addr)"
proof (cases "read_resp ed N d msg addr")
  case (Some t)
  obtain entry q r where t: "t = (entry, q, r)" by (cases t)
  obtain d1 b where C: "tofu_check M sha d entry (PeerEd25519Public r) = (d1, b)" by fastforce
  show ?thesis using Some t C tofu_check_keeps(1) [OF C] quiet_trans [OF _ complete_resp_quiet] by (cases b) (auto simp: handleResp_def)
qed (simp add: handleResp_def)

lemma HandlePacket_quiet: "quiet d (HandlePacket ed N sha M d pkt addr)"
  by (simp add: HandlePacket_def Let_def handleInit_quiet handleResp_quiet)

end

section \<open>Replayed initiations\<close>

text \<open>An initiation of a peer that the timestamps rule out, in memory and in the file.\<close>

definition blocked :: "int \<Rightarrow> ('a \<times> int) list \<Rightarrow> 'a \<Rightarrow> int \<Rightarrow> bool" where
  "blocked c m k ts \<longleftrightarrow> ts < c \<or> (\<exists>l. map_of m k = Some l \<and> ts \<le> l)"

lemma blocked_mono: "blocked c m k ts \<Longrightarrow> c \<le> c' \<Longrightarrow> blocked c' m k ts"
  by (auto simp: blocked_def)

lemma blocked_filter: "blocked c m k ts \<Longrightarrow> blocked c (filter (\<lambda>(k, ts). \<not> ts < c) m) k ts"
  by (induction m) (auto simp: blocked_def)

lemma blocked_hex: "blocked c (map (\<lambda>(k, ts). (hex_EncodeToString k, ts)) m) (hex_EncodeToString k) ts = blocked c m k ts"
  by (induction m) (auto simp: blocked_def hex_encode_inject)

lemma load_timestamps_mono: "map_of m k = Some l \<Longrightarrow> \<exists>l'. map_of (load_timestamps c ps m) k = Some l' \<and> l \<le> l'"
proof (induction c ps m arbitrary: l rule: load_timestamps.induct)
  case (2 c j ts ps m)
  define m' where "m' = (case hex_DecodeString j of None \<Rightarrow> m
    | Some b \<Rightarrow> if length b \<noteq> 32 \<or> ts < c then m
        else if ts > (case map_of m b of None \<Rightarrow> 0 | Some t \<Rightarrow> t) then AList.update b ts m else m)"
  have "\<exists>l1. map_of m' k = Some l1 \<and> l \<le> l1" using 2(2) by (auto simp: m'_def update_conv split: option.splits)
  then obtain l1 where l1: "map_of m' k = Some l1" "l \<le> l1" by blast
  from 2(1) [of l1] l1 show ?case by (auto simp: m'_def)
qed simp

lemma load_timestamps_blocked:
  assumes "length k = 32" "0 < c"
  shows "blocked c ps (hex_EncodeToString k) ts \<Longrightarrow> blocked c (load_timestamps c ps m) k ts"
proof (induction ps arbitrary: m)
  case (Cons p ps)
  obtain j l where p: "p = (j, l)" by (cases p)
  define m' where "m' = (case hex_DecodeString j of None \<Rightarrow> m
    | Some b \<Rightarrow> if length b \<noteq> 32 \<or> l < c then m
        else if l > (case map_of m b of None \<Rightarrow> 0 | Some t \<Rightarrow> t) then AList.update b l m else m)"
  have L: "load_timestamps c (p # ps) m = load_timestamps c ps m'" by (simp add: p m'_def)
  show ?case
  proof (cases "j = hex_EncodeToString k")
    case False
    then show ?thesis using Cons by (auto simp: L p blocked_def)
  next
    case True
    then have "ts < c \<or> ts \<le> l" using Cons.prems by (auto simp: p blocked_def)
    moreover have "\<exists>l1. map_of m' k = Some l1 \<and> l \<le> l1" if "\<not> l < c"
      using that True assms by (auto simp: m'_def hex_decode_encode update_conv split: option.splits)
    ultimately show ?thesis using load_timestamps_mono [of m' k _ c ps] unfolding L blocked_def by fastforce
  qed
qed (simp add: blocked_def)

definition guarded :: "bool \<Rightarrow> ('k, 'm) Node_scheme \<Rightarrow> peer_id \<Rightarrow> int \<Rightarrow> bool" where
  "guarded R d pid ts \<longleftrightarrow> blocked (cutoff d) (initTimestamps d) pid ts \<and>
     (R \<longrightarrow> replayPath d \<noteq> [] \<and> blocked (cutoff d) (replay_file d) (hex_EncodeToString pid) ts)"

text \<open>What the rest of the program may do to the manager's timestamps: nothing, while the clock runs on.\<close>

definition untouched :: "('k, 'm) Node_scheme \<Rightarrow> ('k, 'm) Node_scheme \<Rightarrow> bool" where
  "untouched d d' \<longleftrightarrow> clk d \<le> clk d' \<and> localID d' = localID d \<and> initTimestamps d' = initTimestamps d \<and>
     replayPath d' = replayPath d \<and> replay_file d' = replay_file d"

lemma untouched_trans: "untouched a b \<Longrightarrow> untouched b c \<Longrightarrow> untouched a c"
  by (simp add: untouched_def)

lemma mgr_same_untouched: "mgr_same d d' \<Longrightarrow> untouched d d'"
  by (simp add: mgr_same_def untouched_def)

lemma untouched_guarded: "untouched d d' \<Longrightarrow> guarded R d pid ts \<Longrightarrow> guarded R d' pid ts"
  by (auto simp: untouched_def guarded_def cutoff_def elim!: blocked_mono)

lemma Initiate_untouched: "untouched d (Initiate ed N d e)"
  by (auto simp: Initiate_def start_handshake_def untouched_def draw_def Let_def state_updates split: option.splits sum.splits)

lemma answer_init_untouched: "untouched d (answer_init d e pid r msg addr)"
  by (simp add: answer_init_def untouched_def new_session_def Let_def state_updates case_prod_beta split: option.splits)

lemma accept_init_untouched: "accept_init ed N d msg = (d', r) \<Longrightarrow> untouched d d'"
  using accept_init_state [of ed N d msg] by (auto simp: untouched_def)

lemma accept_init_newer:
  assumes "accept_init ed N d msg = (d', Some (entry, pid, ts, msg2, r))" "map_of (initTimestamps d) pid = Some l"
  shows "l < ts"
  using assms by (auto simp: accept_init_def draw_def Let_def split: option.splits sum.splits prod.splits if_splits)

lemma blocked_update:
  "blocked c m k ts \<Longrightarrow> (\<And>l. map_of m k' = Some l \<Longrightarrow> l < ts') \<Longrightarrow> blocked c (AList.update k' ts' m) k ts"
  by (cases "k = k'") (force simp: blocked_def update_conv)+

lemma record_init_fields: "clk (record_init d pid ts) = clk d" "localID (record_init d pid ts) = localID d"
  "replayPath (record_init d pid ts) = replayPath d"
  by (simp_all add: record_init_def pruneTimestampsLocked_def saveReplayState_def Let_def)

lemma record_init_guarded:
  assumes "guarded R d pid ts" "\<And>l. map_of (initTimestamps d) pid' = Some l \<Longrightarrow> l < ts'"
  shows "guarded R (record_init d pid' ts') pid ts"
proof -
  have U: "blocked (cutoff d) (AList.update pid' ts' (initTimestamps d)) pid ts"
    by (rule blocked_update [OF _ assms(2)]) (use assms(1) in \<open>simp_all add: guarded_def\<close>)
  note F = blocked_filter [OF U]
  show ?thesis
    using assms(1) U F
    by (auto simp: guarded_def record_init_def pruneTimestampsLocked_def saveReplayState_def cutoff_def Let_def blocked_hex)
qed

context manager_hooks
begin

lemma handleInit_guarded:
  assumes "guarded R d pid ts"
  shows "guarded R (handleInit ed N sha M d msg addr) pid ts"
proof -
  obtain d1 r where A: "accept_init ed N d msg = (d1, r)" by fastforce
  note U = accept_init_untouched [OF A]
  have 1: "guarded R d1 pid ts" by (rule untouched_guarded [OF U assms])
  show ?thesis
  proof (cases r)
    case (Some t)
    obtain entry pid' ts' msg2 res where t: "t = (entry, pid', ts', msg2, res)" by (cases t)
    have new: "l < ts'" if "map_of (initTimestamps d1) pid' = Some l" for l
      using accept_init_newer [of ed N d msg d1 entry pid' ts'] A Some t that U by (simp add: untouched_def)
    obtain d2 b where C: "tofu_check M sha (record_init d1 pid' ts') entry (PeerEd25519Public res) = (d2, b)" by fastforce
    have 2: "guarded R d2 pid ts"
      using untouched_guarded [OF mgr_same_untouched [OF tofu_check_keeps(2) [OF C]] record_init_guarded [OF 1 new]] .
    show ?thesis
      using A Some t C 2 untouched_guarded [OF answer_init_untouched 2] by (cases b) (simp_all add: handleInit_def)
  qed (use A 1 in \<open>simp add: handleInit_def\<close>)
qed

lemma complete_resp_untouched: "untouched d (complete_resp M d e p r)"
proof -
  define d1 where "d1 = d\<lparr>pending := (pending d)(ID (entries d e) := None)\<rparr>"
  obtain d2 s where n: "new_session d1 r = (d2, s)" by fastforce
  define d3 where "d3 = on_entry d2 e (SetSession (entries d2 e) (Some s))"
  have "untouched d d3" using n by (auto simp: d1_def d3_def new_session_def untouched_def state_updates)
  then show ?thesis
    using untouched_trans [OF _ mgr_same_untouched [OF established_call(2)]]
    by (simp add: complete_resp_def Let_def n d3_def untouched_def flip: d1_def)
qed

lemma handleResp_untouched: "untouched d (handleResp ed N sha M d msg addr)"
proof (cases "read_resp ed N d msg addr")
  case (Some t)
  obtain entry q r where t: "t = (entry, q, r)" by (cases t)
  obtain d1 b where C: "tofu_check M sha d entry (PeerEd25519Public r) = (d1, b)" by fastforce
  note 1 = mgr_same_untouched [OF tofu_check_keeps(2) [OF C]]
  show ?thesis using Some t C 1 untouched_trans [OF 1 complete_resp_untouched] by (cases b) (simp_all add: handleResp_def)
qed (simp add: handleResp_def untouched_def)

lemma HandlePacket_guarded: "guarded R d pid ts \<Longrightarrow> guarded R (HandlePacket ed N sha M d pkt addr) pid ts"
  by (simp add: HandlePacket_def Let_def handleInit_guarded untouched_guarded [OF handleResp_untouched])

end

text \<open>The key and the timestamp an initiation claims, which only the node's own keys decide.\<close>

definition init_claim :: "('h, 'k) noise \<Rightarrow> Identity \<Rightarrow> bytes \<Rightarrow> (peer_id \<times> bytes \<times> bytes \<times> bytes \<times> int) option" where
  "init_claim N i msg = do {
     h \<leftarrow> NewHandshakeState N None False (X25519Private i) (X25519Public i) None;
     (h', payload) \<leftarrow> ReadMessage1 N h msg;
     Some (take 32 payload, PeerStatic N h', take 64 (drop 32 payload), take 16 (drop 96 payload),
           int64_of (of_nat (be_nat (take 8 (drop 112 payload)))))
   }"

lemma copy_array_id32: "length b = 32 \<Longrightarrow> copy_array 32 b = b"
  by (simp add: copy_array_def put_bytes_def)

lemma ProcessMessage1_claim:
  assumes "NewResponderHS N i lk = Some h" "ProcessMessage1 ed N now h msg = Inr (h', raw)"
  obtains x sig where "init_claim N i msg = Some (r_peerEd25519Public h', x, sig, r_networkID h', raw)" "length (r_peerEd25519Public h') = 32"
    "lk (r_peerEd25519Public h') = Some x" "VerifyPeerSig ed now (r_peerEd25519Public h') x (X25519Public i) sig raw = None"
proof -
  from assms(1) obtain h0 where h0: "NewHandshakeState N None False (X25519Private i) (X25519Public i) None = Some h0"
    "r_hs h = h0" "r_localID h = i" "r_peerLookup h = lk" by (auto simp: NewResponderHS_def)
  obtain h1 payload where R: "ReadMessage1 N h0 msg = Some (h1, payload)"
    using assms(2) h0 by (cases "ReadMessage1 N h0 msg") (auto simp: ProcessMessage1_def)
  have P: "length payload = 120" "lk (take 32 payload) = Some (PeerStatic N h1)"
    "VerifyPeerSig ed now (take 32 payload) (PeerStatic N h1) (X25519Public i) (take 64 (drop 32 payload))
       (int64_of (of_nat (be_nat (take 8 (drop 112 payload))))) = None"
    "h' = h\<lparr>r_hs := h1, r_peerX25519 := PeerStatic N h1, r_peerEd25519Public := take 32 payload, r_networkID := take 16 (drop 96 payload)\<rparr>"
    "raw = int64_of (of_nat (be_nat (take 8 (drop 112 payload))))"
    using assms(2) h0 R by (auto simp: ProcessMessage1_def Let_def split: if_splits option.splits)
  show thesis
    by (rule that [of "PeerStatic N h1" "take 64 (drop 32 payload)"]) (use P R h0 in \<open>simp_all add: init_claim_def\<close>)
qed

lemma accept_init_claim:
  assumes "accept_init ed N d msg = (d', Some (entry, pid, ts, msg2, r))"
  obtains x sig raw where "init_claim N (localID d) msg = Some (pid, x, sig, networkID d, raw)" "ts = NormalizeTimestamp raw"
    "length pid = 32" "LookupByID (peers d) pid = Some entry" "X25519Pub (entries d entry) = x"
    "VerifyPeerSig ed (clk d) pid x (X25519Public (localID d)) sig raw = None" "PeerEd25519Public r = pid"
proof -
  obtain h h' raw where H: "NewResponderHS N (localID d) (PeerLookupFn (entries d) (peers d)) = Some h"
      "ProcessMessage1 ed N (clk d) h msg = Inr (h', raw)"
    using assms by (auto simp: accept_init_def split: option.splits sum.splits)
  from ProcessMessage1_claim [OF H] obtain x sig where
    C: "init_claim N (localID d) msg = Some (r_peerEd25519Public h', x, sig, r_networkID h', raw)" "length (r_peerEd25519Public h') = 32"
      "PeerLookupFn (entries d) (peers d) (r_peerEd25519Public h') = Some x"
      "VerifyPeerSig ed (clk d) (r_peerEd25519Public h') x (X25519Public (localID d)) sig raw = None" .
  have "PeerEd25519Public r = r_peerEd25519Public h'" "r_networkID h' = networkID d" "ts = NormalizeTimestamp raw"
      "pid = copy_array 32 (r_peerEd25519Public h')" "LookupByID (peers d) pid = Some entry"
    using assms H by (auto simp: accept_init_def BuildMessage2_def draw_def Let_def split: option.splits prod.splits if_splits)
  with C show thesis
    by (intro that [of x sig raw]) (auto simp: copy_array_id32 PeerLookupFn_def lookups split: option.splits)
qed

lemma old_timestamp_refused:
  assumes "NormalizeTimestamp raw < now - MaxTimestampSkew" "0 \<le> now" "now < 2 ^ 62" "int64 (NormalizeTimestamp raw)"
  shows "VerifyPeerSig ed now pub x our sig raw \<noteq> None"
proof -
  let ?D = "now - NormalizeTimestamp raw"
  obtain k where k: "wrap64 ?D = ?D + k * 2 ^ 64" using wrap64_cong by blast
  have "wrap64 ?D > MaxTimestampSkew" if "0 \<le> k" using that assms(1) k by (simp add: MaxTimestampSkew_def)
  moreover have "wrap64 ?D < - MaxTimestampSkew" if "k \<le> -1"
    using that assms(2-4) k by (simp add: MaxTimestampSkew_def int64_def)
  ultimately have "wrap64 ?D < - MaxTimestampSkew \<or> wrap64 ?D > MaxTimestampSkew" by linarith
  then show ?thesis by (auto simp: VerifyPeerSig_def Let_def)
qed

lemma int64_wrap: "int64 (wrap64 x)"
  using pos_mod_bound [of "2 ^ 64" "x + 2 ^ 63"] pos_mod_sign [of "2 ^ 64" "x + 2 ^ 63"] by (simp add: int64_def wrap64_def)

lemma init_claim_int64: "init_claim N i msg = Some (pid, x, sig, net, raw) \<Longrightarrow> int64 (NormalizeTimestamp raw)"
  using int64_wrap by (auto simp: init_claim_def NormalizeTimestamp_def int64_of_def bind_eq_Some_conv)

text \<open>Runs of the manager among everything else the program does. A restart forgets what is in memory and reads the
  file; \<open>R\<close> says whether restarts happen.\<close>

inductive mgr_run ::
  "bool \<Rightarrow> ed25519 \<Rightarrow> ('h, 'k) noise \<Rightarrow> (bytes \<Rightarrow> bytes) \<Rightarrow> ('k, 'm) Node_scheme ManagerHooks \<Rightarrow> ('k, 'm) Node_scheme \<Rightarrow>
    ('k, 'm) Node_scheme \<Rightarrow> bool"
  for R ed N sha M d0 where
  run_init: "mgr_run R ed N sha M d0 d0"
| run_initiate: "mgr_run R ed N sha M d0 d \<Longrightarrow> mgr_run R ed N sha M d0 (Initiate ed N d e)"
| run_packet: "mgr_run R ed N sha M d0 d \<Longrightarrow> mgr_run R ed N sha M d0 (HandlePacket ed N sha M d pkt addr)"
| run_removed: "mgr_run R ed N sha M d0 d \<Longrightarrow> mgr_run R ed N sha M d0 (OnPeerRemoved d pid)"
| run_outside: "\<lbrakk>mgr_run R ed N sha M d0 d; untouched d d'\<rbrakk> \<Longrightarrow> mgr_run R ed N sha M d0 d'"
| run_restart: "\<lbrakk>mgr_run R ed N sha M d0 d; R; clk d \<le> clk d1; localID d1 = localID d; initTimestamps d1 = [];
     replay_file d1 = replay_file d; path \<noteq> []; UseReplayState d1 path (ReplayData (replay_file d1)) = Some d'\<rbrakk>
     \<Longrightarrow> mgr_run R ed N sha M d0 d'"

lemma UseReplayState_guarded:
  assumes "guarded True d pid ts" "clk d \<le> clk d1" "replay_file d1 = replay_file d" "length pid = 32" "MaxTimestampSkew < clk d1"
    "path \<noteq> []" "UseReplayState d1 path (ReplayData (replay_file d1)) = Some d'"
  shows "guarded R d' pid ts"
proof -
  have d': "d' = d1\<lparr>initTimestamps := load_timestamps (cutoff d1) (replay_file d1) (initTimestamps d1), replayPath := path\<rparr>"
    using assms(7) by (simp add: UseReplayState_def)
  have f: "blocked (cutoff d1) (replay_file d1) (hex_EncodeToString pid) ts"
    by (rule blocked_mono [where c = "cutoff d"]) (use assms(1-3) in \<open>simp_all add: guarded_def cutoff_def\<close>)
  have "0 < cutoff d1" using assms(5) by (simp add: cutoff_def)
  from load_timestamps_blocked [OF assms(4) this f] f show ?thesis using assms(6) by (simp add: guarded_def d' cutoff_def)
qed

context manager_hooks
begin

lemma handleInit_forward:
  "clk d \<le> clk (handleInit ed N sha M d msg addr) \<and> localID (handleInit ed N sha M d msg addr) = localID d"
proof -
  obtain d1 r where A: "accept_init ed N d msg = (d1, r)" by fastforce
  note 1 = accept_init_untouched [OF A]
  show ?thesis
  proof (cases r)
    case (Some t)
    obtain entry pid ts msg2 res where t: "t = (entry, pid, ts, msg2, res)" by (cases t)
    obtain d2 b where C: "tofu_check M sha (record_init d1 pid ts) entry (PeerEd25519Public res) = (d2, b)" by fastforce
    have 2: "clk d \<le> clk d2" "localID d2 = localID d"
      using tofu_check_keeps(2) [OF C] 1 by (simp_all add: mgr_same_def record_init_fields untouched_def)
    then show ?thesis using A Some t C answer_init_untouched [of d2 entry pid res msg2 addr]
      by (cases b) (auto simp: handleInit_def untouched_def)
  qed (use A 1 in \<open>simp add: handleInit_def untouched_def\<close>)
qed

lemma HandlePacket_forward:
  "clk d \<le> clk (HandlePacket ed N sha M d pkt addr) \<and> localID (HandlePacket ed N sha M d pkt addr) = localID d"
  by (simp add: HandlePacket_def Let_def handleInit_forward handleResp_untouched [unfolded untouched_def])

lemma mgr_run_guarded:
  assumes "mgr_run R ed N sha M d0 d" "guarded R d0 pid ts" "length pid = 32" "MaxTimestampSkew < clk d0"
  shows "guarded R d pid ts \<and> clk d0 \<le> clk d \<and> localID d = localID d0"
  using assms
proof (induction rule: mgr_run.induct)
  case (run_initiate d e)
  then show ?case using untouched_guarded [OF Initiate_untouched] Initiate_untouched [of d ed N e] by (auto simp: untouched_def)
next
  case (run_packet d pkt addr)
  then show ?case using HandlePacket_guarded HandlePacket_forward [of d ed N sha pkt addr] by auto
next
  case (run_removed d i)
  have "untouched d (OnPeerRemoved d i)" by (simp add: untouched_def OnPeerRemoved_def)
  from untouched_guarded [OF this, of R pid ts] this show ?case using run_removed by (auto simp: untouched_def)
next
  case (run_outside d d')
  from untouched_guarded [OF run_outside.hyps(2), of R pid ts] run_outside show ?case by (auto simp: untouched_def)
next
  case (run_restart d d1 path d')
  then have g: "guarded R d' pid ts"
    by (intro UseReplayState_guarded [of d pid ts d1 path d' R]) auto
  moreover have "clk d' = clk d1" "localID d' = localID d1" using run_restart.hyps by (auto simp: UseReplayState_def)
  ultimately show ?case using run_restart by simp
qed simp

lemma accepted_guarded:
  assumes A: "accept_init ed N d msg = (d1, Some (entry, pid, ts, msg2, r))" and R: "R \<longrightarrow> replayPath d \<noteq> [] \<and> disk_ok d"
  shows "guarded R (handleInit ed N sha M d msg addr) pid ts"
proof -
  have d1: "d1 = d \<or> d1 = d\<lparr>drawn := drawn d + 40\<rparr>" using accept_init_state [of ed N d msg] A by simp
  have "blocked (cutoff d1) (AList.update pid ts (initTimestamps d1)) pid ts" by (simp add: blocked_def update_conv)
  note U = this blocked_filter [OF this]
  have g: "guarded R (record_init d1 pid ts) pid ts"
    using U R d1
    by (auto simp: guarded_def record_init_def pruneTimestampsLocked_def saveReplayState_def cutoff_def Let_def blocked_hex)
  obtain d2 b where C: "tofu_check M sha (record_init d1 pid ts) entry (PeerEd25519Public r) = (d2, b)" by fastforce
  have 2: "guarded R d2 pid ts" by (rule untouched_guarded [OF mgr_same_untouched [OF tofu_check_keeps(2) [OF C]] g])
  show ?thesis using A C 2 untouched_guarded [OF answer_init_untouched 2] by (cases b) (simp_all add: handleInit_def)
qed

lemma replay_refused:
  assumes A: "accept_init ed N d0 msg = (d1, Some acc)" and R: "R \<longrightarrow> replayPath d0 \<noteq> [] \<and> disk_ok d0"
    and run: "mgr_run R ed N sha M (handleInit ed N sha M d0 msg addr) d" and clk: "MaxTimestampSkew < clk d0" "clk d < 2 ^ 62"
  shows "snd (accept_init ed N d msg) = None"
proof (rule ccontr)
  assume "snd (accept_init ed N d msg) \<noteq> None"
  then obtain d2 entry2 pid2 ts2 m2 r2 where A2: "accept_init ed N d msg = (d2, Some (entry2, pid2, ts2, m2, r2))"
    by (cases "accept_init ed N d msg") auto
  obtain entry pid ts m r where acc: "acc = (entry, pid, ts, m, r)" by (cases acc)
  from accept_init_claim [OF A [unfolded acc]] obtain x sig raw where
    1: "init_claim N (localID d0) msg = Some (pid, x, sig, networkID d0, raw)" "ts = NormalizeTimestamp raw" "length pid = 32" .
  from accept_init_claim [OF A2] obtain x2 sig2 raw2 where
    2: "init_claim N (localID d) msg = Some (pid2, x2, sig2, networkID d, raw2)" "ts2 = NormalizeTimestamp raw2"
      "VerifyPeerSig ed (clk d) pid2 x2 (X25519Public (localID d)) sig2 raw2 = None" .
  have f: "clk d0 \<le> clk (handleInit ed N sha M d0 msg addr)" "localID (handleInit ed N sha M d0 msg addr) = localID d0"
    by (simp_all add: handleInit_forward)
  have G: "guarded R d pid ts" "clk d0 \<le> clk d" "localID d = localID d0"
    using mgr_run_guarded [OF run accepted_guarded [OF A [unfolded acc] R] 1(3)] f clk(1) by auto
  have same: "pid2 = pid" "raw2 = raw" using 1(1) 2(1) G(3) by auto
  have "\<not> ts < cutoff d"
    using old_timestamp_refused [of raw2 "clk d" ed pid2 x2 "X25519Public (localID d)" sig2] 2(3) same 1(2) init_claim_int64 [OF 2(1)] clk G(2) by (auto simp: cutoff_def MaxTimestampSkew_def)
  then obtain l where "map_of (initTimestamps d) pid = Some l" "ts \<le> l" using G(1) by (auto simp: guarded_def blocked_def)
  then show False using accept_init_newer [OF A2, of l] same 1(2) 2(2) by simp
qed

end

section \<open>Attempts complete once\<close>

text \<open>Calls of \<open>handleResp\<close> interleave with each other and with everything else: a call first reads the attempt and
  checks the response, and completes the attempt later. \<open>T\<close> holds the calls under way, \<open>D\<close> the attempts completed so far.\<close>

inductive resp_step ::
  "ed25519 \<Rightarrow> ('h, 'k) noise \<Rightarrow> (bytes \<Rightarrow> bytes) \<Rightarrow> ('k, 'm) Node_scheme ManagerHooks \<Rightarrow>
    ('k, 'm) Node_scheme \<times> (eref \<times> href \<times> 'k HandshakeResult) list \<times> href list \<Rightarrow>
    ('k, 'm) Node_scheme \<times> (eref \<times> href \<times> 'k HandshakeResult) list \<times> href list \<Rightarrow> bool"
  for ed N sha M where
  resp_begin: "read_resp ed N d msg addr = Some t \<Longrightarrow> resp_step ed N sha M (d, T, D) (d, t # T, D)"
| resp_finish: "(entry, p, r) \<in> set T \<Longrightarrow>
     resp_step ed N sha M (d, T, D) (complete_resp M d entry p r, remove1 (entry, p, r) T,
       if pending d (ID (entries d entry)) = Some p then p # D else D)"
| resp_drop: "resp_step ed N sha M (d, T, D) (d, remove1 t T, D)"
| resp_initiate: "resp_step ed N sha M (d, T, D) (Initiate ed N d e, T, D)"
| resp_init: "resp_step ed N sha M (d, T, D) (handleInit ed N sha M d msg addr, T, D)"
| resp_removed: "resp_step ed N sha M (d, T, D) (OnPeerRemoved d pid, T, D)"
| resp_outside: "pending d' = pending d \<Longrightarrow> attempts d' = attempts d \<Longrightarrow> next_href d' = next_href d \<Longrightarrow>
     resp_step ed N sha M (d, T, D) (d', T, D)"

definition attempts_ok :: "('k, 'm) Node_scheme \<Rightarrow> href list \<Rightarrow> bool" where
  "attempts_ok d D \<longleftrightarrow> distinct D \<and> (\<forall>p\<in>set D. p < next_href d \<and> p \<notin> ran (pending d)) \<and>
     (\<forall>a p. pending d a = Some p \<longrightarrow> p < next_href d \<and> phs_peerID (attempts d p) = a)"

lemma attempts_ok_cong:
  "pending d' = pending d \<Longrightarrow> attempts d' = attempts d \<Longrightarrow> next_href d' = next_href d \<Longrightarrow> attempts_ok d' D = attempts_ok d D"
  by (simp add: attempts_ok_def)

lemma attempts_ok_removed: "attempts_ok d D \<Longrightarrow> attempts_ok (d\<lparr>pending := (pending d)(a := None)\<rparr>) D"
  by (auto simp: attempts_ok_def ran_def)

lemma start_handshake_attempts:
  assumes "attempts_ok d D"
  shows "attempts_ok (start_handshake ed N d e p) D"
proof -
  let ?m = "BuildMessage1 ed N (NewInitiatorHS (fst (draw 32 d)) (localID d) (X25519Pub (entries d e)) (networkID d)) (clk d)"
  let ?id = "ID (entries d e)"
  show ?thesis
  proof (cases ?m)
    case (Inl err)
    then show ?thesis using assms by (auto simp: start_handshake_def draw_def Let_def attempts_ok_def split: option.splits)
  next
    case (Inr r)
    obtain h msg where r: "r = (h, msg)" by (cases r)
    define a where "a = \<lparr>hs = h, phs_peerID = ?id, phs_createdAt = clk d, retries = (case p of None \<Rightarrow> 0 | Some p \<Rightarrow> retries (attempts d p))\<rparr>"
    define d' where "d' = start_handshake ed N d e p"
    have F: "attempts d' = (attempts d)(next_href d := a)" "next_href d' = Suc (next_href d)"
        "pending d' = (pending d)(?id \<mapsto> next_href d) \<or> pending d' = (pending d)(?id := None)"
      using Inr r by (cases p; auto simp: d'_def a_def start_handshake_def draw_def Let_def state_updates)+
    have "phs_peerID a = ?id" by (simp add: a_def)
    moreover have "pending d b \<noteq> Some (next_href d)" for b using assms unfolding attempts_ok_def by blast
    ultimately show ?thesis using assms F unfolding attempts_ok_def ran_def d'_def [symmetric]
      by (auto simp: less_Suc_eq split: if_splits)
  qed
qed

lemma Initiate_attempts: "attempts_ok d D \<Longrightarrow> attempts_ok (Initiate ed N d e) D"
proof -
  assume ok: "attempts_ok d D"
  have "attempts_ok (d\<lparr>attempts := (attempts d)(p := (attempts d p)\<lparr>retries := n, phs_createdAt := t\<rparr>)\<rparr>) D" for p n t
    using ok by (auto simp: attempts_ok_def)
  then show ?thesis
    using ok by (auto simp: Initiate_def Let_def intro!: start_handshake_attempts attempts_ok_removed split: option.splits)
qed

context manager_hooks
begin

lemma handleInit_attempts: "attempts_ok (handleInit ed N sha M d msg addr) D = attempts_ok d D"
proof -
  obtain d1 r where A: "accept_init ed N d msg = (d1, r)" by fastforce
  have 1: "attempts_ok d1 D = attempts_ok d D" using accept_init_state [of ed N d msg] A by (auto simp: attempts_ok_def)
  show ?thesis
  proof (cases r)
    case (Some t)
    obtain entry pid ts msg2 res where t: "t = (entry, pid, ts, msg2, res)" by (cases t)
    obtain d2 b where C: "tofu_check M sha (record_init d1 pid ts) entry (PeerEd25519Public res) = (d2, b)" by fastforce
    have R: "attempts_ok (record_init d1 pid ts) D = attempts_ok d1 D"
      by (rule attempts_ok_cong) (simp_all add: record_init_def pruneTimestampsLocked_def saveReplayState_def Let_def)
    have 2: "attempts_ok d2 D = attempts_ok d D"
      using tofu_check_keeps(2) [OF C] R 1 attempts_ok_cong [of d2 "record_init d1 pid ts" D] by (simp add: mgr_same_def)
    have 3: "attempts_ok (answer_init d2 entry pid res msg2 addr) D = attempts_ok d2 D"
      by (rule attempts_ok_cong)
        (simp_all add: answer_init_def new_session_def Let_def state_updates case_prod_beta split: option.splits)
    show ?thesis using A Some t C 2 3 by (cases b) (simp_all add: handleInit_def)
  qed (use A 1 in \<open>simp add: handleInit_def\<close>)
qed

lemma complete_resp_attempts:
  assumes "attempts_ok d D"
  shows "attempts_ok (complete_resp M d entry p r) (if pending d (ID (entries d entry)) = Some p then p # D else D)"
proof (cases "pending d (ID (entries d entry)) = Some p")
  case True
  let ?id = "ID (entries d entry)"
  define d1 where "d1 = d\<lparr>pending := (pending d)(?id := None)\<rparr>"
  obtain d2 s where n: "new_session d1 r = (d2, s)" by fastforce
  define d3 where "d3 = on_entry d2 entry (SetSession (entries d2 entry) (Some s))"
  have "p \<notin> ran ((pending d)(?id := None))" using assms True by (auto simp: attempts_ok_def ran_def; metis)
  then have "attempts_ok d1 (p # D)" using attempts_ok_removed [OF assms, of ?id] assms True by (auto simp: attempts_ok_def d1_def ran_def)
  moreover have "attempts_ok d3 (p # D) = attempts_ok d1 (p # D)"
    using n by (intro attempts_ok_cong) (auto simp: d3_def new_session_def state_updates)
  moreover have "attempts_ok (call_entry (SessionEstablished M) d3 entry) (p # D) = attempts_ok d3 (p # D)"
    using established_call(2) [of d3 entry] by (intro attempts_ok_cong) (auto simp: mgr_same_def)
  ultimately show ?thesis using True n by (simp add: complete_resp_def Let_def d3_def flip: d1_def)
qed (use assms in \<open>simp add: complete_resp_def\<close>)

lemma resp_step_attempts:
  assumes "resp_step ed N sha M s s'" "attempts_ok (fst s) (snd (snd s))"
  shows "attempts_ok (fst s') (snd (snd s'))"
  using assms
proof (cases rule: resp_step.cases)
  case (resp_outside d' d T D)
  then show ?thesis using assms(2) attempts_ok_cong [of d' d D] by simp
qed (use assms(2) in \<open>simp_all add: complete_resp_attempts Initiate_attempts handleInit_attempts attempts_ok_removed OnPeerRemoved_def del: if_split\<close>)

lemma resp_run_attempts:
  "(resp_step ed N sha M)\<^sup>*\<^sup>* s s' \<Longrightarrow> attempts_ok (fst s) (snd (snd s)) \<Longrightarrow> attempts_ok (fst s') (snd (snd s'))"
  by (induction rule: rtranclp_induct) (auto dest: resp_step_attempts)

end

section \<open>Sessions are authenticated\<close>

text \<open>The sessions of a peer: the active one and the one that waits to be confirmed.\<close>

definition links :: "('k, 'm) Dispatcher_scheme \<Rightarrow> eref \<Rightarrow> sref option \<times> sref option" where
  "links d e = (session (entries d e), pendingSession (entries d e))"

lemma links_updates [simp]: "links (on_session d s x) = links d" "links (conn_WriteTo d pkt addr) = links d"
  "links (on_entry d e y) = (links d)(e := (session y, pendingSession y))"
  by (simp_all add: links_def fun_eq_iff state_updates)

lemma flush_packets_links: "links (flush_packets seal s ep pkts d) = links d"
  by (induction pkts arbitrary: d) (auto split: prod.splits sum.splits)

lemma FlushHoldQueue_links: "links (FlushHoldQueue seal d e) = links d"
proof -
  have "links (on_entry d e (fst (DrainQueue (entries d e)))) = links d"
    by (auto simp: links_def DrainQueue_def fun_eq_iff state_updates)
  then show ?thesis by (simp add: FlushHoldQueue_def Let_def case_prod_beta flush_packets_links del: links_updates split: option.splits)
qed

text \<open>A signature of the key \<open>pub\<close>, fresh at \<open>now\<close>, that ties its X25519 key \<open>x\<close> to ours.\<close>

definition vouched :: "ed25519 \<Rightarrow> gotime \<Rightarrow> bytes \<Rightarrow> bytes \<Rightarrow> bytes \<Rightarrow> bool" where
  "vouched ed now pub x our \<longleftrightarrow> (\<exists>sig raw. VerifyPeerSig ed now pub x our sig raw = None)"

lemma vouchedI: "VerifyPeerSig ed now pub x our sig raw = None \<Longrightarrow> vouched ed now pub x our"
  unfolding vouched_def by blast

lemma ProcessMessage2_vouched:
  "ProcessMessage2 ed N now h msg = Inr r \<Longrightarrow>
     length (PeerEd25519Public r) = 32 \<and> vouched ed now (PeerEd25519Public r) (i_peerX25519 h) (X25519Public (i_localID h))"
  by (auto simp: ProcessMessage2_def Let_def intro: vouchedI split: option.split_asm prod.split_asm if_split_asm)

lemma read_resp_Some:
  "read_resp ed N d msg addr = Some (entry, p, r) \<Longrightarrow>
     pending d (ID (entries d entry)) = Some p \<and> ProcessMessage2 ed N (clk d) (hs (attempts d p)) msg = Inr r \<and>
     copy_array 32 (PeerEd25519Public r) = ID (entries d entry)"
  unfolding read_resp_def bind_eq_Some_conv by (elim exE conjE) (auto split: sum.split_asm if_split_asm)

text \<open>Callbacks that also leave the sessions of the peers alone.\<close>

locale link_hooks = manager_hooks M for M :: "('k, 'm) Node_scheme ManagerHooks" +
  assumes established_links: "SessionEstablished M = Some f \<Longrightarrow> links (f d e) = links d"
    and check_links: "TOFUCheck M = Some c \<Longrightarrow> links (fst (c d a pub)) = links d"
    and mismatch_links: "OnTOFUMismatch M = Some r \<Longrightarrow> links (r d a fp) = links d"
begin

lemma tofu_check_links: "tofu_check M sha d e pub = (d', ok) \<Longrightarrow> links d' = links d"
proof (cases "TOFUCheck M")
  case (Some c)
  obtain d1 b where c: "c d (Addr_String (VPNAddr (entries d e))) pub = (d1, b)" by fastforce
  have "links d1 = links d" using check_links [OF Some, of d _ pub] c by (metis fst_conv)
  moreover assume "tofu_check M sha d e pub = (d', ok)"
  ultimately show ?thesis using Some c mismatch_links by (auto simp: tofu_check_def split: bool.splits option.splits)
qed (simp add: tofu_check_def)

lemma answer_init_links:
  "links (answer_init d entry pid r msg addr) e = (if e = entry then (session (entries d e), Some (next_sref d)) else links d e)"
proof -
  define d1 where "d1 = (case addrToAddrPort addr of None \<Rightarrow> d
    | Some ep \<Rightarrow> (case ClaimEndpoint (entries d) (peers d) pid ep of (h, t, _) \<Rightarrow> d\<lparr>entries := h, peers := t\<rparr>))"
  have "links d1 = links d"
    by (auto simp: d1_def links_def fun_eq_iff ClaimEndpoint_def setEndpoint_def SetEndpoint_def Let_def split: option.splits)
  then have 1: "links d1 e = links d e" for e by simp
  have 2: "next_sref d1 = next_sref d" by (auto simp: d1_def split: option.splits prod.splits)
  show ?thesis
    using 1 [of e] 2 by (auto simp: answer_init_def Let_def new_session_def links_def state_updates SetPendingSession_def simp flip: d1_def)
qed

lemma handleInit_authentic:
  assumes inv: "table_inv (entries d) (peers d)" and ch: "links (handleInit ed N sha M d msg addr) e \<noteq> links d e"
  obtains sig raw where "init_claim N (localID d) msg = Some (ID (entries d e), X25519Pub (entries d e), sig, networkID d, raw)"
    "VerifyPeerSig ed (clk d) (ID (entries d e)) (X25519Pub (entries d e)) (X25519Public (localID d)) sig raw = None"
proof -
  obtain d1 t where A: "accept_init ed N d msg = (d1, t)" by fastforce
  have 1: "links d1 = links d" using accept_init_state [of ed N d msg] A by (auto simp: links_def fun_eq_iff)
  obtain entry pid ts msg2 r where t: "t = Some (entry, pid, ts, msg2, r)"
    using ch A 1 by (cases t) (auto simp: handleInit_def)
  obtain d2 b where C: "tofu_check M sha (record_init d1 pid ts) entry (PeerEd25519Public r) = (d2, b)" by fastforce
  have "links (record_init d1 pid ts) = links d1"
    by (simp add: record_init_def pruneTimestampsLocked_def saveReplayState_def links_def fun_eq_iff Let_def)
  then have 2: "links d2 = links d" using tofu_check_links [OF C] 1 by simp
  have e: "e = entry" using ch A t C 2 by (cases b) (auto simp: handleInit_def answer_init_links split: if_splits)
  from accept_init_claim [OF A [unfolded t]] obtain x sig raw where
    K: "init_claim N (localID d) msg = Some (pid, x, sig, networkID d, raw)" "LookupByID (peers d) pid = Some entry"
      "X25519Pub (entries d entry) = x" "VerifyPeerSig ed (clk d) pid x (X25519Public (localID d)) sig raw = None" .
  have "ID (entries d e) = pid" using table_invD(1) [OF inv] K(2) e by (simp add: lookups)
  then show thesis using K e by (intro that [of sig raw]) simp_all
qed

lemma complete_resp_links: "e \<noteq> entry \<Longrightarrow> links (complete_resp M d entry p r) e = links d e"
  "pending d (ID (entries d entry)) \<noteq> Some p \<Longrightarrow> complete_resp M d entry p r = d"
proof -
  assume e: "e \<noteq> entry"
  define d1 where "d1 = d\<lparr>pending := (pending d)(ID (entries d entry) := None)\<rparr>"
  obtain d2 s where n: "new_session d1 r = (d2, s)" by fastforce
  have "links (call_entry (SessionEstablished M) d' entry) = links d'" for d'
    using established_links by (auto simp: call_entry_def split: option.splits)
  moreover have "links d2 e = links d e" using n by (auto simp: new_session_def d1_def links_def state_updates)
  ultimately show "links (complete_resp M d entry p r) e = links d e"
    using e by (simp add: complete_resp_def Let_def n flip: d1_def)
qed (simp add: complete_resp_def)

lemma handleResp_authentic:
  assumes ch: "links (handleResp ed N sha M d msg addr) e \<noteq> links d e"
  obtains p where "pending d (ID (entries d e)) = Some p"
    "vouched ed (clk d) (ID (entries d e)) (i_peerX25519 (hs (attempts d p))) (X25519Public (i_localID (hs (attempts d p))))"
proof -
  obtain entry p r where R: "read_resp ed N d msg addr = Some (entry, p, r)"
    using ch by (cases "read_resp ed N d msg addr") (auto simp: handleResp_def)
  obtain d1 b where C: "tofu_check M sha d entry (PeerEd25519Public r) = (d1, b)" by fastforce
  have 1: "links d1 = links d" by (rule tofu_check_links [OF C])
  have e: "e = entry" using ch R C 1 complete_resp_links(1) [of e entry d1 p r] by (cases b) (auto simp: handleResp_def)
  have P: "pending d (ID (entries d entry)) = Some p" "ProcessMessage2 ed N (clk d) (hs (attempts d p)) msg = Inr r"
      "copy_array 32 (PeerEd25519Public r) = ID (entries d entry)"
    using read_resp_Some [OF R] by auto
  show thesis
    by (rule that [of p]) (use P ProcessMessage2_vouched [OF P(2)] e in \<open>simp_all add: copy_array_id32\<close>)
qed

lemma HandlePacket_authentic:
  assumes inv: "table_inv (entries d) (peers d)" and ch: "links (HandlePacket ed N sha M d pkt addr) e \<noteq> links d e"
  shows "(\<exists>sig raw. init_claim N (localID d) (drop headerSize pkt) = Some (ID (entries d e), X25519Pub (entries d e), sig, networkID d, raw) \<and>
      VerifyPeerSig ed (clk d) (ID (entries d e)) (X25519Pub (entries d e)) (X25519Public (localID d)) sig raw = None) \<or>
    (\<exists>p. pending d (ID (entries d e)) = Some p \<and>
      vouched ed (clk d) (ID (entries d e)) (i_peerX25519 (hs (attempts d p))) (X25519Public (i_localID (hs (attempts d p)))))"
proof (cases "HandlePacket ed N sha M d pkt addr = handleInit ed N sha M d (drop headerSize pkt) addr")
  case True
  from handleInit_authentic [OF inv ch [unfolded True]] show ?thesis by blast
next
  case False
  then have "HandlePacket ed N sha M d pkt addr = handleResp ed N sha M d (drop headerSize pkt) addr"
    using ch by (auto simp: HandlePacket_def Let_def split: if_splits)
  from handleResp_authentic [OF ch [unfolded this]] show ?thesis by blast
qed

end

section \<open>What the handlers do when all goes well\<close>

lemma buildPacket_layout: "buildPacket t msg = be_bytes 4 (unat t) @ replicate 12 0 @ msg"
proof -
  let ?z = "\<lambda>n. replicate n (0 :: byte)"
  have B: "?z (headerSize + length msg) = [] @ ?z 4 @ ?z 12 @ ?z (length msg)"
    by (simp add: headerSize_def flip: replicate_add)
  have 1: "PutUint32 ([] @ ?z 4 @ ?z 12 @ ?z (length msg)) 0 t = (be_bytes 4 (unat t) @ ?z 12) @ ?z (length msg) @ []"
    unfolding PutUint32_def by (subst put_bytes_at) auto
  show ?thesis unfolding buildPacket_def B 1 by (subst put_bytes_at) (auto simp: headerSize_def)
qed

lemma HandlePacket_buildPacket:
  "HandlePacket ed N sha M d (buildPacket TypeHandshakeInit msg) addr = handleInit ed N sha M d msg addr"
  "HandlePacket ed N sha M d (buildPacket TypeHandshakeResp msg) addr = handleResp ed N sha M d msg addr"
  by (simp_all add: HandlePacket_def buildPacket_layout headerSize_def be_nat_be_bytes packet_types unsigned_of_nat)

lemma Initiate_starts:
  assumes "pending d (ID (entries d e)) = None" "AddrPort_IsValid (endpoint (entries d e))"
    and "BuildMessage1 ed N (NewInitiatorHS (fst (draw 32 d)) (localID d) (X25519Pub (entries d e)) (networkID d)) (clk d) = Inr (h, msg)"
    and "d' = Initiate ed N d e"
  shows "udp_sent d' = udp_sent d @ [(UDPAddrFromAddrPort (endpoint (entries d e)), buildPacket TypeHandshakeInit msg)]"
    "entries d' = (entries d)(e := SetState (entries d e) StateHandshaking)" "peers d' = peers d" "clk d' = clk d"
    "pending d' = (pending d)(ID (entries d e) \<mapsto> next_href d)" "hs (attempts d' (next_href d)) = h"
    "sessions d' = sessions d" "tun_written d' = tun_written d" "next_sref d' = next_sref d"
    "localID d' = localID d" "networkID d' = networkID d" "policyDecider d' = policyDecider d" "Node.more d' = Node.more d"
  using assms by (simp_all add: Initiate_def start_handshake_def draw_def Let_def state_updates SetState_def)

lemma accept_init_accepts:
  assumes "NewResponderHS N (localID d) (PeerLookupFn (entries d) (peers d)) = Some r0"
    and "ProcessMessage1 ed N (clk d) r0 msg = Inr (r1, t)"
    and "BuildMessage2 ed N r1 (fst (draw 32 (snd (draw 8 d)))) (fst (draw 8 d)) (clk d) = Inr (m2, r)"
    and "NetworkID r = networkID d" "length (PeerEd25519Public r) = 32" "LookupByID (peers d) (PeerEd25519Public r) = Some e"
    and "1000000000000 < t" "\<And>l. map_of (initTimestamps d) (PeerEd25519Public r) = Some l \<Longrightarrow> l < t"
  shows "accept_init ed N d msg = (d\<lparr>drawn := drawn d + 40\<rparr>, Some (e, PeerEd25519Public r, t, m2, r))"
  using assms
  by (simp add: accept_init_def draw_def Let_def copy_array_id32 NormalizeTimestamp_def not_le split: option.splits)

text \<open>A response to the attempt that is pending completes it.\<close>

lemma complete_resp_completes:
  assumes "pending d (ID (entries d e)) = Some p"
  shows "complete_resp M d e p r =
    call_entry (SessionEstablished M)
      (on_entry (fst (new_session (OnPeerRemoved d (ID (entries d e))) r)) e (SetSession (entries d e) (Some (next_sref d)))) e"
  using assms by (simp add: complete_resp_def new_session_def Let_def OnPeerRemoved_def state_updates)

end
