(* ===== verification/Daemon.thy ===== *)
theory Daemon
  imports Handshake Tofu
begin

text \<open>
  The daemon, \<open>internal/daemon/daemon.go\<close>: it owns the components and connects them. Its state extends the one the
  dispatcher and the handshake manager share, and its callbacks are what those two call.

  \<open>sha\<close> is SHA-256, \<open>ord\<close> the order in which saving the pins lists them.
\<close>

section \<open>Fingerprint mismatches\<close>

record 'k Daemon = "'k Node" +
  tofuStore :: Store
  tofuMismatchLog :: "(string \<times> gotime) list"
  tofuLastPrune :: gotime
  log_lines :: "(gotime \<times> string) list"

definition logTOFUMismatch :: "('k, 'm) Daemon_scheme \<Rightarrow> string \<Rightarrow> ('k, 'm) Daemon_scheme" where
  "logTOFUMismatch d vpnAddr =
     (let now = clk d;
          d = (if now - tofuLastPrune d \<ge> minute
               then d\<lparr>tofuMismatchLog := filter (\<lambda>(a, t). \<not> now - t \<ge> 10 * minute) (tofuMismatchLog d), tofuLastPrune := now\<rparr>
               else d)
      in if (case map_of (tofuMismatchLog d) vpnAddr of None \<Rightarrow> False | Some t \<Rightarrow> now - t < 10 * minute) then d
         else d\<lparr>tofuMismatchLog := AList.update vpnAddr now (tofuMismatchLog d), log_lines := log_lines d @ [(now, vpnAddr)]\<rparr>)"

definition daemon_TOFUCheck ::
  "(bytes \<Rightarrow> bytes) \<Rightarrow> (Store \<Rightarrow> string list) \<Rightarrow> ('k, 'm) Daemon_scheme \<Rightarrow> string \<Rightarrow> bytes \<Rightarrow> ('k, 'm) Daemon_scheme \<times> bool" where
  "daemon_TOFUCheck sha ord d vpnAddr pub =
     (case Check sha (disk_ok d) (ord (tofuStore d)) (tofuStore d) vpnAddr pub of
        (s, None) \<Rightarrow> (d\<lparr>tofuStore := s\<rparr>, True)
      | (s, Some _) \<Rightarrow> (logTOFUMismatch (d\<lparr>tofuStore := s\<rparr>) vpnAddr, False))"

section \<open>Wiring\<close>

definition manager_wiring ::
  "('k \<Rightarrow> u64 \<Rightarrow> bytes \<Rightarrow> bytes) \<Rightarrow> (bytes \<Rightarrow> bytes) \<Rightarrow> (Store \<Rightarrow> string list) \<Rightarrow> ('k, 'm) Daemon_scheme ManagerHooks" where
  "manager_wiring seal sha ord =
     \<lparr>SessionEstablished = Some (FlushHoldQueue seal), TOFUCheck = Some (daemon_TOFUCheck sha ord),
      OnTOFUMismatch = Some (\<lambda>d vpnAddr fp. logTOFUMismatch d vpnAddr)\<rparr>"

definition dispatcher_wiring ::
  "ed25519 \<Rightarrow> ('h, 'k) noise \<Rightarrow> ('k \<Rightarrow> u64 \<Rightarrow> bytes \<Rightarrow> bytes) \<Rightarrow> (bytes \<Rightarrow> bytes) \<Rightarrow> (Store \<Rightarrow> string list) \<Rightarrow>
    ('k, 'm) Daemon_scheme Hooks" where
  "dispatcher_wiring ed N seal sha ord =
     \<lparr>OnHandshakeRequired = Some (Initiate ed N), OnRekeyRequired = Some (Initiate ed N),
      OnHandshakePacket = Some (HandlePacket ed N sha (manager_wiring seal sha ord)), OnNATProbePacket = None,
      OnSessionEstablished = Some (FlushHoldQueue seal)\<rparr>"

lemma logTOFUMismatch_frame: "quiet d (logTOFUMismatch d a)" "mgr_same d (logTOFUMismatch d a)" "links (logTOFUMismatch d a) = links d"
  by (simp_all add: logTOFUMismatch_def quiet_def mgr_same_def links_def fun_eq_iff Let_def)

lemma daemon_TOFUCheck_frame:
  "quiet d (fst (daemon_TOFUCheck sha ord d a pub))" "mgr_same d (fst (daemon_TOFUCheck sha ord d a pub))"
  "links (fst (daemon_TOFUCheck sha ord d a pub)) = links d"
  by (simp_all add: daemon_TOFUCheck_def logTOFUMismatch_def quiet_def mgr_same_def links_def fun_eq_iff Let_def
      split: prod.splits option.splits)

interpretation mw: link_hooks "manager_wiring seal sha ord :: ('k, 'm) Daemon_scheme ManagerHooks"
  for seal :: "'k \<Rightarrow> u64 \<Rightarrow> bytes \<Rightarrow> bytes" and sha :: "bytes \<Rightarrow> bytes" and ord :: "Store \<Rightarrow> string list"
  by unfold_locales
    (auto simp: manager_wiring_def FlushHoldQueue_quiet FlushHoldQueue_mgr FlushHoldQueue_links logTOFUMismatch_frame daemon_TOFUCheck_frame)

interpretation dw: quiet_hooks "dispatcher_wiring ed N seal sha ord :: ('k, 'm) Daemon_scheme Hooks"
  for ed :: ed25519 and N :: "('h, 'k) noise" and seal :: "'k \<Rightarrow> u64 \<Rightarrow> bytes \<Rightarrow> bytes" and sha :: "bytes \<Rightarrow> bytes"
    and ord :: "Store \<Rightarrow> string list"
  by unfold_locales (auto simp: dispatcher_wiring_def Initiate_quiet FlushHoldQueue_quiet mw.HandlePacket_quiet)

section \<open>An example\<close>

definition example_endpoint :: "byte \<Rightarrow> AddrPort" where
  "example_endpoint k = \<lparr>ap_addr = Addr4 (0xC6336400 + ucast k), ap_port = 51820\<rparr>"

text \<open>Node \<open>k\<close>, which knows node \<open>j\<close>.\<close>

definition example_daemon :: "byte \<Rightarrow> byte \<Rightarrow> bytes Daemon" where
  "example_daemon k j =
     \<lparr>tun = Some (PrefixFrom (Addr4 (0x0A010000 + ucast k)) 24),
      peers = fst (Upsert (\<lambda>_. example_peer j (0x0A010000 + ucast j) [] (example_endpoint j)) New_Table 0),
      entries = (\<lambda>_. example_peer j (0x0A010000 + ucast j) [] (example_endpoint j)),
      sessions = (\<lambda>_. New_Session [] [] [] 0), policyDecider = None, policies = (\<lambda>_. None),
      selfPeerID = replicate 32 k,
      flowTable = NewFlowTable (\<lambda>_. 0) (\<lambda>_. new_entry zero_Flow FlowStateNew 0) DefaultFlowTableConfig,
      dropCounters = NewDropCounters, lastDropLog = 0, udp_sent = [], tun_written = [],
      clk = 1700000000000000000, entropy = (\<lambda>_. 0), drawn = 0, localID = example_identity k, networkID = replicate 16 7,
      initTimestamps = [], replayPath = ''replay'', replay_file = [], disk_ok = True, pending = Map.empty,
      attempts = (\<lambda>_. \<lparr>hs = NewInitiatorHS [] (example_identity k) [] [], phs_peerID = [], phs_createdAt = 0, retries = 0\<rparr>),
      next_href = 0, next_sref = 0,
      tofuStore = empty_store None, tofuMismatchLog = [], tofuLastPrune = 0, log_lines = []\<rparr>"

definition example_seal :: "bytes \<Rightarrow> u64 \<Rightarrow> bytes \<Rightarrow> bytes" where
  "example_seal k n p = p"

definition example_unseal :: "bytes \<Rightarrow> u64 \<Rightarrow> bytes \<Rightarrow> bytes option" where
  "example_unseal k n p = Some p"

definition example_ord :: "Store \<Rightarrow> string list" where
  "example_ord s = []"

lemma example_daemon_fields [simp]:
  "localID (example_daemon k j) = example_identity k" "networkID (example_daemon k j) = replicate 16 7"
  "clk (example_daemon k j) = 1700000000000000000" "initTimestamps (example_daemon k j) = []" "pending (example_daemon k j) = Map.empty"
  "X25519Pub (entries (example_daemon k j) e) = X25519Public (example_identity j)" "ID (entries (example_daemon k j) e) = replicate 32 j"
  "disk_ok (example_daemon k j)" "replayPath (example_daemon k j) = ''replay''" "links (example_daemon k j) e = (None, None)"
  "next_sref (example_daemon k j) = 0" "next_href (example_daemon k j) = 0" "endpoint (entries (example_daemon k j) e) = example_endpoint j"
  "AddrPort_IsValid (example_endpoint j)" "tofuStore (example_daemon k j) = empty_store None"
  by (simp_all add: example_daemon_def example_peer_def example_identity_def links_def example_endpoint_def AddrPort_IsValid_def)

lemma example_daemon_peers [simp]:
  "peers (example_daemon k j) = \<lparr>byID = [replicate 32 j \<mapsto> 0], byVPN = [Addr4 (0x0A010000 + ucast j) \<mapsto> 0],
     byEndpoint = [example_endpoint j \<mapsto> 0], byName = Map.empty\<rparr>"
  by (simp add: example_daemon_def Upsert_def example_peer_def New_Table_def take_slot_def example_endpoint_def AddrPort_IsValid_def Let_def)

lemma example_table_inv: "table_inv (entries (example_daemon k j)) (peers (example_daemon k j))"
  using Upsert_inv [OF table_inv_New surjective_pairing] by (simp add: example_daemon_def)

lemma length_draw [simp]: "length (fst (draw n d)) = n"
  by (simp add: draw_def)

text \<open>Two nodes that know each other shake hands.\<close>

lemma example_handshake:
  assumes "k + 1 \<noteq> 0" "j + 1 \<noteq> 0"
  obtains h m1 r0 r1 m2 ra rb where
    "BuildMessage1 example_ed example_noise (NewInitiatorHS (fst (draw 32 (example_daemon k j))) (example_identity k)
       (X25519Public (example_identity j)) (replicate 16 7)) 1700000000000000000 = Inr (h, m1)"
    "accept_init example_ed example_noise (example_daemon j k) m1 =
       ((example_daemon j k)\<lparr>drawn := drawn (example_daemon j k) + 40\<rparr>, Some (0, replicate 32 k, 1700000000000000000, m2, rb))"
    "ProcessMessage2 example_ed example_noise 1700000000000000000 h m2 = Inr ra"
    "PeerEd25519Public ra = replicate 32 j" "PeerEd25519Public rb = replicate 32 k"
proof -
  let ?b = "example_daemon j k"
  have P: "Ed25519Public (example_identity i) = replicate 32 i" for i by (simp add: example_identity_def)
  have L: "PeerLookupFn (entries ?b) (peers ?b) (Ed25519Public (example_identity k)) = Some (X25519Public (example_identity k))"
    by (simp add: PeerLookupFn_def P)
  have N: "near 1700000000000000000 1700000000000000000" by (simp add: near_def MaxTimestampSkew_def)
  obtain h1 m1 r0 r1 m2 c1 c2 where
    H: "BuildMessage1 example_ed example_noise (NewInitiatorHS (fst (draw 32 (example_daemon k j))) (example_identity k)
        (X25519Public (example_identity j)) (replicate 16 7)) 1700000000000000000 = Inr (h1, m1)"
      "NewResponderHS example_noise (example_identity j) (PeerLookupFn (entries ?b) (peers ?b)) = Some r0"
      "ProcessMessage1 example_ed example_noise 1700000000000000000 r0 m1 = Inr (r1, 1700000000000000000)"
      "BuildMessage2 example_ed example_noise r1 (fst (draw 32 (snd (draw 8 ?b)))) (fst (draw 8 ?b)) 1700000000000000000 =
        Inr (m2, \<lparr>SendCS = c2, RecvCS = c1, SessionID = fst (draw 8 ?b), PeerEd25519Public = Ed25519Public (example_identity k),
          NetworkID = replicate 16 7\<rparr>)"
      "ProcessMessage2 example_ed example_noise 1700000000000000000 h1 m2 = Inr \<lparr>SendCS = c1, RecvCS = c2, SessionID = fst (draw 8 ?b),
        PeerEd25519Public = Ed25519Public (example_identity j), NetworkID = replicate 16 7\<rparr>"
    by (rule ik_handshake [where lookup = "PeerLookupFn (entries ?b) (peers ?b)" and net = "replicate 16 7" and sid = "fst (draw 8 ?b)"
          and ?t1.0 = 1700000000000000000 and ?t2.0 = 1700000000000000000 and ?t3.0 = 1700000000000000000
          and ?t4.0 = 1700000000000000000, OF example_laws example_identity_ok [OF assms(1)] example_identity_ok [OF assms(2)] L
          length_replicate length_draw N N]) (rule that)
  have A: "accept_init example_ed example_noise ?b m1 = (?b\<lparr>drawn := drawn ?b + 40\<rparr>,
      Some (0, replicate 32 k, 1700000000000000000, m2, \<lparr>SendCS = c2, RecvCS = c1, SessionID = fst (draw 8 ?b),
        PeerEd25519Public = Ed25519Public (example_identity k), NetworkID = replicate 16 7\<rparr>))"
    using accept_init_accepts [of example_noise ?b r0 example_ed m1 r1 1700000000000000000 m2] H(2-4) by (simp add: P lookups)
  show thesis by (rule that [OF H(1) A H(5)]) (simp_all add: P)
qed

text \<open>The first key seen at an address passes.\<close>

lemma first_use_passes:
  "tofuStore d = empty_store f \<Longrightarrow> disk_ok d \<Longrightarrow> \<exists>s. daemon_TOFUCheck sha ord d a pub = (d\<lparr>tofuStore := s\<rparr>, True)"
  by (simp add: daemon_TOFUCheck_def Check_def save_def empty_store_def Let_def) blast

lemma record_init_store: "tofuStore (record_init d pid ts) = tofuStore d" "disk_ok (record_init d pid ts) = disk_ok d"
  by (simp_all add: record_init_def pruneTimestampsLocked_def saveReplayState_def Let_def)

lemma answer_init_clk: "clk (answer_init d entry pid r msg addr) = clk d"
  by (simp add: answer_init_def new_session_def Let_def state_updates case_prod_beta split: option.splits)

lemma example_answered:
  assumes "accept_init ed N (example_daemon 3 1) m1 =
      ((example_daemon 3 1)\<lparr>drawn := n\<rparr>, Some (0, replicate 32 1, 1700000000000000000, m2, rb))"
  obtains d where "handleInit ed N sha (manager_wiring seal sha ord) (example_daemon 3 1) m1 a = answer_init d 0 (replicate 32 1) rb m2 a"
    "clk d = 1700000000000000000" "links d = links (example_daemon 3 1)"
proof -
  let ?d = "record_init ((example_daemon 3 1)\<lparr>drawn := n\<rparr>) (replicate 32 1) 1700000000000000000"
  have "tofuStore ?d = empty_store None" "disk_ok ?d" by (simp_all add: record_init_store)
  from first_use_passes [OF this] obtain s where
    S: "daemon_TOFUCheck sha ord ?d (Addr_String (VPNAddr (entries ?d 0))) (PeerEd25519Public rb) = (?d\<lparr>tofuStore := s\<rparr>, True)" by blast
  show thesis
    by (rule that [of "?d\<lparr>tofuStore := s\<rparr>"])
      (use S in \<open>simp_all add: handleInit_def assms tofu_check_def manager_wiring_def record_init_fields links_def fun_eq_iff
          record_init_def pruneTimestampsLocked_def saveReplayState_def Let_def\<close>)
qed

section \<open>Properties of the wired daemon\<close>



text \<open>C3. A handshake initiation is accepted once: an initiation that was accepted is refused ever after, whatever else
  the manager handles in between, also after a restart when the timestamps could be saved, for clocks that do not run
  backwards.\<close>

theorem initiation_accepted_once:
  assumes "snd (accept_init ed N d0 msg) \<noteq> None" and "R \<longrightarrow> replayPath d0 \<noteq> [] \<and> disk_ok d0"
    and "mgr_run R ed N sha (manager_wiring seal sha ord) (handleInit ed N sha (manager_wiring seal sha ord) d0 msg addr) d"
    and "MaxTimestampSkew < clk d0" "clk d < 2 ^ 62"
  shows "snd (accept_init ed N d msg) = None"
proof -
  obtain d1 acc where "accept_init ed N d0 msg = (d1, Some acc)" using assms(1) by (cases "accept_init ed N d0 msg") auto
  then show ?thesis by (rule mw.replay_refused [OF _ assms(2-5)])
qed

text \<open>C3, at a node that receives an initiation twice.\<close>

theorem initiation_accepted_once_witness:
  "\<exists>msg. snd (accept_init example_ed example_noise (example_daemon 3 1) msg) \<noteq> None \<and>
    snd (accept_init example_ed example_noise (handleInit example_ed example_noise id (manager_wiring example_seal id example_ord)
      (example_daemon 3 1) msg (UDPAddr [198, 51, 100, 1] 51820 [])) msg) = None"
proof -
  obtain h m1 r0 r1 m2 ra rb where A: "accept_init example_ed example_noise (example_daemon 3 1) m1 =
      ((example_daemon 3 1)\<lparr>drawn := drawn (example_daemon 3 1) + 40\<rparr>, Some (0, replicate 32 1, 1700000000000000000, m2, rb))"
    by (rule example_handshake [of 1 3]) auto
  let ?a = "UDPAddr [198, 51, 100, 1] 51820 []"
  obtain d where "handleInit example_ed example_noise id (manager_wiring example_seal id example_ord) (example_daemon 3 1) m1 ?a =
      answer_init d 0 (replicate 32 1) rb m2 ?a" "clk d = 1700000000000000000"
    by (rule example_answered [OF A]) auto
  then have C: "clk (handleInit example_ed example_noise id (manager_wiring example_seal id example_ord) (example_daemon 3 1) m1 ?a) < 2 ^ 62"
    by (simp add: answer_init_clk)
  from A have "snd (accept_init example_ed example_noise (example_daemon 3 1) m1) \<noteq> None" by simp
  from this initiation_accepted_once [OF this _ mgr_run.run_init _ C, of False] show ?thesis
    by (intro exI [of _ m1] conjI) (simp_all add: MaxTimestampSkew_def)
qed





end
