(* ===== verification/Delivery.thy ===== *)
theory Delivery
  imports Daemon
begin

text \<open>
  Two daemons that know each other: the way of the first packet from one TUN device to the other, through the
  handshake that packet starts.
\<close>

section \<open>Receiving what a peer sends\<close>

lemma udpLoop_header:
  assumes "pkt = be_bytes 4 (unat t) @ be_bytes 4 (unat i) @ be_bytes 8 (unat n) @ payload"
  shows "\<not> length pkt < HeaderSize" "byte_slice pkt 0 HeaderSize \<bind> parseHeader = Some (t, i, n)" "byte_from pkt HeaderSize = Some payload"
  using parseHeader_fields [of t i n] by (simp_all add: assms byte_slice_def byte_from_def HeaderSize_def)

lemma udpLoop_handshake:
  assumes "t = TypeHandshakeInit \<or> t = TypeHandshakeResp"
  shows "udpLoop unseal W now d (buildPacket t msg) addr = Some (call_packet (OnHandshakePacket W) d (buildPacket t msg) addr)"
proof -
  have "buildPacket t msg = be_bytes 4 (unat t) @ be_bytes 4 (unat (0 :: u32)) @ be_bytes 8 (unat (0 :: u64)) @ msg"
    by (simp add: buildPacket_layout be_bytes_0 replicate_app_Cons_same flip: replicate_add append_assoc)
  note H = udpLoop_header [OF this]
  obtain hdr where "byte_slice (buildPacket t msg) 0 HeaderSize = Some hdr" "parseHeader hdr = Some (t, 0, 0)"
    using H(2) by (auto simp: bind_eq_Some_conv)
  then show ?thesis using assms H(1,3) by (auto simp: udpLoop_def handleUDPPacket_def packet_types)
qed

lemma udpLoop_data: "udpLoop unseal W now d (buildDataPacket n ct) addr = handleData unseal W now d n ct addr"
proof -
  have "buildDataPacket n ct = be_bytes 4 (unat TypeData) @ be_bytes 4 (unat (0 :: u32)) @ be_bytes 8 (unat n) @ ct"
    by (simp add: buildDataPacket_layout)
  note H = udpLoop_header [OF this]
  obtain hdr where "byte_slice (buildDataPacket n ct) 0 HeaderSize = Some hdr" "parseHeader hdr = Some (TypeData, 0, n)"
    using H(2) by (auto simp: bind_eq_Some_conv)
  then show ?thesis using H(1,3) by (simp add: udpLoop_def handleUDPPacket_def)
qed

text \<open>A fingerprint check passes.\<close>

definition trusts :: "(bytes \<Rightarrow> bytes) \<Rightarrow> (Store \<Rightarrow> string list) \<Rightarrow> 'k Daemon \<Rightarrow> eref \<Rightarrow> bytes \<Rightarrow> bool" where
  "trusts sha ord d e pub \<longleftrightarrow>
     snd (Check sha (disk_ok d) (ord (tofuStore d)) (tofuStore d) (Addr_String (VPNAddr (entries d e))) pub) = None"

lemma tofu_check_trusts:
  assumes "trusts sha ord d e pub"
  obtains s where "tofu_check (manager_wiring seal sha ord) sha d e pub = (d\<lparr>tofuStore := s\<rparr>, True)"
  using assms by (cases "Check sha (disk_ok d) (ord (tofuStore d)) (tofuStore d) (Addr_String (VPNAddr (entries d e))) pub")
    (auto simp: trusts_def tofu_check_def manager_wiring_def daemon_TOFUCheck_def)

section \<open>The steps\<close>

text \<open>The sender holds the packet and starts the handshake.\<close>

lemma first_packet_held:
  assumes "pkt \<noteq> []" "extractDestIP pkt = Some dest" "LookupByVPN (peers a) dest = Some e" "ParsePacket pkt = Some (flow, kind, None)"
    "outbound_denial a e flow = None" "session (entries a e) = None"
  shows "tunLoop seal (dispatcher_wiring ed N seal sha ord) now a pkt = Some (Initiate ed N (enqueue_for a e pkt) e)"
  using assms by (simp add: tunLoop_def handleTunPacket_def send_to_peer_def dispatcher_wiring_def call_entry_def)

text \<open>The receiver answers an initiation it accepts.\<close>

lemma initiation_answered:
  assumes acc: "accept_init ed N b m1 = (b\<lparr>drawn := n\<rparr>, Some (e, pid, ts, m2, r))" and t: "trusts sha ord b e (PeerEd25519Public r)"
    and ep: "addrToAddrPort addr = Some ep" "AddrPort_IsValid ep" "byID (peers b) pid = Some e"
  obtains b1 where "udpLoop unseal (dispatcher_wiring ed N seal sha ord) now b (buildPacket TypeHandshakeInit m1) addr = Some b1"
    "udp_sent b1 = udp_sent b @ [(addr, buildPacket TypeHandshakeResp m2)]" "LookupByEndpoint (peers b1) ep = Some e"
    "session (entries b1 e) = session (entries b e)" "pendingSession (entries b1 e) = Some (next_sref b)"
    "sessions b1 (next_sref b) = New_Session (SessionID r) (SendCS r) (RecvCS r) (clk b)" "quiet b b1"
proof -
  let ?W = "dispatcher_wiring ed N seal sha ord" and ?M = "manager_wiring seal sha ord"
  define b' where "b' = record_init (b\<lparr>drawn := n\<rparr>) pid ts"
  have B: "entries b' = entries b" "peers b' = peers b" "sessions b' = sessions b" "next_sref b' = next_sref b" "clk b' = clk b"
    "udp_sent b' = udp_sent b" "tofuStore b' = tofuStore b" "disk_ok b' = disk_ok b"
    by (simp_all add: b'_def record_init_def pruneTimestampsLocked_def saveReplayState_def Let_def)
  have "trusts sha ord b' e (PeerEd25519Public r)" using t by (simp add: trusts_def B)
  then obtain s where C: "tofu_check ?M sha b' e (PeerEd25519Public r) = (b'\<lparr>tofuStore := s\<rparr>, True)" by (rule tofu_check_trusts)
  define b1 where "b1 = answer_init (b'\<lparr>tofuStore := s\<rparr>) e pid r m2 addr"
  have H: "handleInit ed N sha ?M b m1 addr = b1" by (simp add: handleInit_def acc b1_def C flip: b'_def)
  obtain h t' u where S: "ClaimEndpoint (entries b) (peers b) pid ep = (h, t', u)" by (cases "ClaimEndpoint (entries b) (peers b) pid ep")
  have F: "byEndpoint t' ep = Some e" "session (h e) = session (entries b e)"
    using S ep by (auto simp: ClaimEndpoint_def setEndpoint_def SetEndpoint_def Let_def split: if_splits)
  show thesis
  proof (rule that [of b1])
    show "udpLoop unseal ?W now b (buildPacket TypeHandshakeInit m1) addr = Some b1"
      by (simp add: udpLoop_handshake dispatcher_wiring_def call_packet_def HandlePacket_buildPacket H)
    show "quiet b b1" using mw.handleInit_quiet [of b ed N sha seal sha ord m1 addr] H by simp
  qed (use F in \<open>simp_all add: b1_def answer_init_def ep S B new_session_def state_updates SetPendingSession_def lookups Let_def\<close>)
qed

text \<open>The response completes the attempt and the held packet leaves, encrypted.\<close>

lemma response_releases_packet:
  assumes rr: "read_resp ed N a m2 (UDPAddrFromAddrPort ep) = Some (e, p, r)" and t: "trusts sha ord a e (PeerEd25519Public r)"
    and e: "endpoint (entries a e) = ep" "AddrPort_IsValid ep" "holdQueue (entries a e) = [pkt]"
  obtains a2 where
    "udpLoop unseal (dispatcher_wiring ed N seal sha ord) now a (buildPacket TypeHandshakeResp m2) (UDPAddrFromAddrPort ep) = Some a2"
    "udp_sent a2 = udp_sent a @ [(UDPAddrFromAddrPort ep, buildDataPacket 0 (seal (SendCS r) 0 pkt))]"
proof -
  let ?W = "dispatcher_wiring ed N seal sha ord" and ?M = "manager_wiring seal sha ord"
  obtain s where C: "tofu_check ?M sha a e (PeerEd25519Public r) = (a\<lparr>tofuStore := s\<rparr>, True)" using t by (rule tofu_check_trusts)
  have P: "pending a (ID (entries a e)) = Some p" using read_resp_Some [OF rr] by simp
  define a2 where "a2 = handleResp ed N sha ?M a m2 (UDPAddrFromAddrPort ep)"
  have A: "a2 = complete_resp ?M (a\<lparr>tofuStore := s\<rparr>) e p r" by (simp add: a2_def handleResp_def rr C)
  have E: "SessionEstablished ?M = Some (FlushHoldQueue seal)" by (simp add: manager_wiring_def)
  have "udp_sent a2 = udp_sent a @ [(UDPAddrFromAddrPort ep, buildDataPacket 0 (seal (SendCS r) 0 pkt))]"
    using P e by (simp add: A complete_resp_def new_session_def E call_entry_def FlushHoldQueue_def
        DrainQueue_def SetSession_def Encrypt_def New_Session_def state_updates Let_def)
  then show thesis
    by (intro that [of a2]) (simp_all add: udpLoop_handshake dispatcher_wiring_def call_packet_def HandlePacket_buildPacket a2_def)
qed

text \<open>The receiver decrypts it with the session that waits, and the packet reaches its TUN device.\<close>

definition lets_in :: "('k, 'm) Dispatcher_scheme \<Rightarrow> eref \<Rightarrow> bytes \<Rightarrow> bool" where
  "lets_in d e pkt \<longleftrightarrow> policyDecider d = None \<or> flows_ok (flowTable d) \<and> admits d e pkt \<noteq> {}"

lemma lets_in_passes:
  assumes "lets_in d e pkt"
  obtains d' where "inbound_check now d e pkt = Some (d', True)" "tun_written d' = tun_written d" "tun d' = tun d"
proof (cases "policyDecider d")
  case None
  then show thesis by (intro that [of d]) (simp_all add: inbound_check_def getPolicyDecider_def)
next
  case (Some pd)
  then have ok: "flows_ok (flowTable d)" and "admits d e pkt \<noteq> {}" using assms by (auto simp: lets_in_def)
  then obtain f where f: "ParsePacket pkt = Some (f, KindStart, None)"
      "dec_Action (pd_Decide d pd (ID (entries d e)) (selfPeerID d) (flow_Proto f) (DstPort f)) = ActionAllow"
    using Some by (auto simp: admits_def split: option.splits prod.splits Kind.splits if_splits)
  obtain d' r where T: "track_flow now d f True FlowStateEstablished = Some (d', r)"
    by (rule track_flow_ok [OF ok, of now f True FlowStateEstablished]) auto
  then have "tun_written d' = tun_written d \<and> tun d' = tun d" by (auto simp: track_flow_def split: option.splits)
  then show thesis using Some f T by (intro that [of d']) (simp_all add: inbound_check_def getPolicyDecider_def Let_def)
qed

lemma data_delivered:
  assumes law: "unseal k n (seal k n pkt) = Some pkt" and n: "n = 0"
    and ep: "addrToAddrPort addr = Some ep" "LookupByEndpoint (peers b) ep = Some e"
    and s: "session (entries b e) = None" "pendingSession (entries b e) = Some s" "sessions b s = New_Session sid k' k t"
    and src: "sourceAllowed b e pkt" and lets: "lets_in b e pkt" and tun: "tun b \<noteq> None"
  obtains b2 where "udpLoop unseal (dispatcher_wiring ed N seal sha ord) now b (buildDataPacket n (seal k n pkt)) addr = Some b2"
    "tun_written b2 = tun_written b @ [pkt]"
proof -
  let ?W = "dispatcher_wiring ed N seal sha ord"
  obtain r' q where D: "Decrypt unseal (New_Session sid k' k t) n (seal k n pkt) = (r', q)" by fastforce
  have "represents (window (New_Session sid k' k t)) {}" by (simp add: New_Session_def represents_zero)
  from Decrypt_window [OF this D] law n have q: "q = Some pkt" by (auto simp: New_Session_def Session.fresh_def)
  obtain b1 r where X: "decryptDataPacket unseal ?W b e (session (entries b e)) n (seal k n pkt) = (b1, r)" by fastforce
  have r: "r = Some pkt" using X s D q by (simp add: decryptDataPacket_def decrypt_with_def)
  note Q = dw.decrypt_quiet [OF X]
  have src1: "sourceAllowed b1 e pkt" using src quiet_decisions(1) [OF Q] by simp
  have L: "lets_in b1 e pkt" using lets Q quiet_decisions(2) [OF Q] by (auto simp: lets_in_def quiet_def)
  obtain b2 where I: "inbound_check now b1 e pkt = Some (b2, True)" "tun_written b2 = tun_written b1" "tun b2 = tun b1"
    by (rule lets_in_passes [OF L])
  show thesis
    by (rule that [of "tun_Write (on_entry b2 e (Touch (entries b2 e) now)) pkt"])
      (use X r src1 I Q tun in \<open>simp_all add: udpLoop_data handleData_def ep state_updates quiet_def\<close>)
qed

section \<open>Two daemons\<close>

text \<open>Node \<open>a\<close> knows node \<open>b\<close> as its entry \<open>e\<close>, at the endpoint \<open>ep\<close>.\<close>

definition knows :: "('k, 'm) Node_scheme \<Rightarrow> eref \<Rightarrow> AddrPort \<Rightarrow> Identity \<Rightarrow> bool" where
  "knows a e ep i \<longleftrightarrow> ID (entries a e) = Ed25519Public i \<and> X25519Pub (entries a e) = X25519Public i \<and>
     byID (peers a) (Ed25519Public i) = Some e \<and> endpoint (entries a e) = ep \<and> byEndpoint (peers a) ep = Some e \<and>
     AddrPort_IsValid ep \<and> unmap_port ep = ep"

text \<open>No session or handshake between them is under way: the sender has nothing for the receiver yet, and the
  receiver has no later initiation of the sender on record.\<close>

definition strangers :: "('k, 'm) Node_scheme \<Rightarrow> eref \<Rightarrow> ('k, 'm) Node_scheme \<Rightarrow> eref \<Rightarrow> bool" where
  "strangers a e b e' \<longleftrightarrow> session (entries a e) = None \<and> holdQueue (entries a e) = [] \<and> pending a (ID (entries a e)) = None \<and>
     session (entries b e') = None \<and> (case map_of (initTimestamps b) (ID (entries b e')) of None \<Rightarrow> True | Some l \<Rightarrow> l < clk a)"

lemma enqueue_first:
  assumes "holdQueue (entries a e) = []"
  shows "enqueue_for a e pkt = a\<lparr>entries := (entries a)(e := (entries a e)\<lparr>holdQueue := [pkt]\<rparr>)\<rparr>"
  using assms by (simp add: enqueue_for_def on_entry_def Enqueue_def HoldQueueMax_def)

text \<open>What the sender's first packet does: the initiation is on its way, and its response will be read.\<close>

lemma sender_starts:
  assumes k: "knows a e ep (localID b)" and st: "strangers a e b e'"
    and B: "BuildMessage1 ed N (NewInitiatorHS (fst (draw 32 a)) (localID a) (X25519Public (localID b)) (networkID a)) (clk a) = Inr (h, m1)"
    and P: "ProcessMessage2 ed N (clk a) h m2 = Inr r" "PeerEd25519Public r = Ed25519Public (localID b)" "length (Ed25519Public (localID b)) = 32"
    and a1: "a1 = Initiate ed N (enqueue_for a e pkt) e"
  shows "udp_sent a1 = udp_sent a @ [(UDPAddrFromAddrPort ep, buildPacket TypeHandshakeInit m1)]"
    "read_resp ed N a1 m2 (UDPAddrFromAddrPort ep) = Some (e, next_href a, r)"
    "endpoint (entries a1 e) = ep" "holdQueue (entries a1 e) = [pkt]" "VPNAddr (entries a1 e) = VPNAddr (entries a e)"
    "Node.more a1 = Node.more a" "disk_ok a1 = disk_ok a"
proof -
  let ?d = "enqueue_for a e pkt"
  have d: "?d = a\<lparr>entries := (entries a)(e := (entries a e)\<lparr>holdQueue := [pkt]\<rparr>)\<rparr>"
    using st by (intro enqueue_first) (simp add: strangers_def)
  have "pending ?d (ID (entries ?d e)) = None" "AddrPort_IsValid (endpoint (entries ?d e))"
    "BuildMessage1 ed N (NewInitiatorHS (fst (draw 32 ?d)) (localID ?d) (X25519Pub (entries ?d e)) (networkID ?d)) (clk ?d) = Inr (h, m1)"
    using k st B by (simp_all add: d knows_def strangers_def draw_def)
  note I = Initiate_starts [OF this a1]
  have ep: "addrToAddrPort (UDPAddrFromAddrPort ep) = Some ep" using k by (simp add: knows_def addrToAddrPort_UDPAddr)
  show "read_resp ed N a1 m2 (UDPAddrFromAddrPort ep) = Some (e, next_href a, r)"
    using I k P by (simp add: read_resp_def ep lookups d knows_def SetState_def copy_array_id32 bind_eq_Some_conv)
  show "disk_ok a1 = disk_ok a"
    unfolding a1 by (simp add: Initiate_def start_handshake_def draw_def state_updates Let_def split: option.splits sum.splits)
  show "udp_sent a1 = udp_sent a @ [(UDPAddrFromAddrPort ep, buildPacket TypeHandshakeInit m1)]"
    "endpoint (entries a1 e) = ep" "holdQueue (entries a1 e) = [pkt]" "VPNAddr (entries a1 e) = VPNAddr (entries a e)" "Node.more a1 = Node.more a"
    using I k by (simp_all add: d knows_def SetState_def)
qed

section \<open>Property\<close>


lemma example_udp_addresses: "example_udp \<noteq> []" "extractDestIP example_udp = Some (Addr4 0x0A010003)"
    "extractSrcIP example_udp = Some (Addr4 0x0A010002)"
  by (simp_all add: example_udp_def ipv4_packet_def extractDestIP_def extractSrcIP_def AddrFrom4_def drop_bit_eq_div)


end
