(* ===== verification/Registry.thy ===== *)
theory Registry
  imports Netip "HOL-Library.AList"
begin

text \<open>
  The registry of the coordination server, \<open>coord/server/registry.go\<close> and \<open>coord/server/sweep.go\<close>: networks and
  peers in a database with two buckets, and the peers' endpoints in memory.

  A bucket is the list of its rows; a row is the record its JSON decodes to, or None when it does not decode. A write
  transaction that fails changes nothing: an operation returns an error, or the new state. Addresses and prefixes are
  stored as text, of which the model keeps the spelling. \<open>now\<close> is the Unix time in seconds.
\<close>

section \<open>Records\<close>

record networkRecord =
  nr_ID :: string
  nr_CIDR :: "Prefix spelling"
  nr_Name :: string
  nr_AccountID :: string
  nr_NextIP :: "Addr spelling"
  nr_MachineCount :: int
  nr_CreatedAt :: int
  nr_AssignedAddrs :: "(Addr spelling \<times> int) list option"

record peerRecord =
  pr_ID :: string
  pr_NetworkID :: string
  pr_Name :: string
  pr_VPNAddr :: "Addr spelling"
  pr_Ed25519Public :: string
  pr_X25519Public :: string
  pr_Endpoint :: string
  pr_SubnetRoutes :: "string list"
  pr_LastSeen :: int
  pr_RegisteredAt :: int

record Registry =
  bucketNetworks :: "(string \<times> networkRecord option) list"
  bucketPeers :: "(string \<times> peerRecord option) list"
  reg_endpoints :: "string \<rightharpoonup> string"

datatype registry_error = ErrMachineLimit | ErrAddressSpaceExhausted | ErrPeerIDTaken | ErrPeerKeyMismatch | ErrNotFound
  | ErrExists | ErrUnreadable

definition lastSeenGranularity :: int where "lastSeenGranularity = 3600"

definition maxFallbackHosts :: nat where "maxFallbackHosts = 65536"

definition roundToHour :: "int \<Rightarrow> int" where
  "roundToHour secs = (if secs \<le> 0 then secs else secs - secs mod lastSeenGranularity)"

definition rows :: "('k \<times> 'v option) list \<Rightarrow> 'v list" where
  "rows b = List.map_filter snd b"

section \<open>Endpoints and networks\<close>

fun blank_rows :: "peerRecord list \<Rightarrow> (string \<times> peerRecord option) list \<Rightarrow> (string \<times> peerRecord option) list" where
  "blank_rows [] b = b"
| "blank_rows (rec # legacy) b = blank_rows legacy (AList.update (pr_ID rec) (Some (rec\<lparr>pr_Endpoint := []\<rparr>)) b)"

definition blankPersistedEndpoints :: "(string \<times> peerRecord option) list \<Rightarrow> (string \<times> peerRecord option) list" where
  "blankPersistedEndpoints b = blank_rows (filter (\<lambda>rec. pr_Endpoint rec \<noteq> []) (rows b)) b"

definition NewRegistry :: "(string \<times> networkRecord option) list \<Rightarrow> (string \<times> peerRecord option) list \<Rightarrow> Registry" where
  "NewRegistry nb pb = \<lparr>bucketNetworks = nb, bucketPeers = blankPersistedEndpoints pb, reg_endpoints = Map.empty\<rparr>"

definition reg_setEndpoint :: "Registry \<Rightarrow> string \<Rightarrow> string \<Rightarrow> Registry" where
  "reg_setEndpoint r peerID endpoint = r\<lparr>reg_endpoints := (reg_endpoints r)(peerID \<mapsto> endpoint)\<rparr>"

definition dropEndpoint :: "Registry \<Rightarrow> string \<Rightarrow> Registry" where
  "dropEndpoint r peerID = r\<lparr>reg_endpoints := (reg_endpoints r)(peerID := None)\<rparr>"

definition applyEndpoints :: "Registry \<Rightarrow> peerRecord list \<Rightarrow> peerRecord list" where
  "applyEndpoints r peers =
     map (\<lambda>p. p\<lparr>pr_Endpoint := (case reg_endpoints r (pr_ID p) of None \<Rightarrow> [] | Some e \<Rightarrow> e)\<rparr>) peers"

definition nextIPAfterNetwork :: "Prefix \<Rightarrow> Addr" where
  "nextIPAfterNetwork prefix = Next (pfx_ip prefix)"

definition CreateNetwork :: "int \<Rightarrow> Registry \<Rightarrow> string \<Rightarrow> Prefix \<Rightarrow> string \<Rightarrow> string \<Rightarrow> registry_error + Registry" where
  "CreateNetwork now r netID cidr name accountID =
     (if map_of (bucketNetworks r) netID \<noteq> None then Inl ErrExists
      else Inr (r\<lparr>bucketNetworks := AList.update netID
             (Some \<lparr>nr_ID = netID, nr_CIDR = Canon cidr, nr_Name = name, nr_AccountID = accountID,
                    nr_NextIP = Canon (nextIPAfterNetwork cidr), nr_MachineCount = 0, nr_CreatedAt = now,
                    nr_AssignedAddrs = Some []\<rparr>) (bucketNetworks r)\<rparr>))"

definition get_row :: "('k \<times> 'v option) list \<Rightarrow> 'k \<Rightarrow> registry_error + 'v" where
  "get_row b k = (case map_of b k of None \<Rightarrow> Inl ErrNotFound | Some None \<Rightarrow> Inl ErrUnreadable | Some (Some v) \<Rightarrow> Inr v)"

definition GetNetwork :: "Registry \<Rightarrow> string \<Rightarrow> registry_error + (string \<times> Prefix \<times> string) \<times> string" where
  "GetNetwork r networkID = (case get_row (bucketNetworks r) networkID of
      Inl e \<Rightarrow> Inl e
    | Inr rec \<Rightarrow> (case ParsePrefix (nr_CIDR rec) of
          None \<Rightarrow> Inl ErrUnreadable
        | Some cidr \<Rightarrow> Inr ((nr_ID rec, cidr, nr_Name rec), nr_AccountID rec)))"

definition NetworkMachineCount :: "Registry \<Rightarrow> string \<Rightarrow> registry_error + int" where
  "NetworkMachineCount r networkID = map_sum id nr_MachineCount (get_row (bucketNetworks r) networkID)"

section \<open>Host addresses\<close>

text \<open>The addresses the loop \<open>for a := first; cidr.Contains(a.Next()); a = a.Next()\<close> goes through.\<close>

lemma Next_in_prefix:
  assumes "Contains p (Next a)"
  shows "Addr_num (Next a) = Addr_num a + 1" "Addr_num a < 2 ^ 128" "Addr_IsValid a"
proof -
  have v: "Addr_IsValid (Next a)" using assms by (auto simp: Contains_iff)
  then show a: "Addr_IsValid a" by (cases a) auto
  show "Addr_num (Next a) = Addr_num a + 1" using Next_cases [OF a] v by auto
  show "Addr_num a < 2 ^ 128" using Addr_num_bound [OF a] by (cases a) (auto intro: less_trans)
qed

function hosts :: "Prefix \<Rightarrow> Addr \<Rightarrow> Addr list" where
  "hosts cidr a = (if Contains cidr (Next a) then a # hosts cidr (Next a) else [])"
  by pat_completeness auto
termination
  by (relation "measure (\<lambda>(cidr, a). 2 ^ 128 - Addr_num a)") (use Next_in_prefix in \<open>force+\<close>)

declare hosts.simps [simp del]

text \<open>And those of \<open>for a := first; cidr.Contains(a) \&\& a.Compare(next) < 0; a = a.Next()\<close>.\<close>

lemma Next_num: "Addr_IsValid a \<Longrightarrow> Addr_IsValid (Next a) \<Longrightarrow> Addr_num (Next a) = Addr_num a + 1"
  using Next_cases [of a] by auto

function hosts_below :: "Prefix \<Rightarrow> Addr \<Rightarrow> Addr \<Rightarrow> Addr list" where
  "hosts_below cidr n a = (if Contains cidr a \<and> Addr_less a n then a # hosts_below cidr n (Next a) else [])"
  by pat_completeness auto
termination
proof (relation "measure (\<lambda>(cidr, n, a). if Addr_IsValid a then 2 ^ 128 + 1 - Addr_num a else 0)")
  fix cidr a n assume "Contains cidr a \<and> Addr_less a n"
  then have v: "Addr_IsValid a" by (auto simp: Contains_iff)
  have "Addr_num a < 2 ^ 128" using Addr_num_bound [OF v] by (cases a) (auto intro: less_trans)
  then show "((cidr, n, Next a), (cidr, n, a)) \<in> measure (\<lambda>(cidr, n, a). if Addr_IsValid a then 2 ^ 128 + 1 - Addr_num a else 0)"
    using v Next_num [OF v] by auto
qed simp

declare hosts_below.simps [simp del]

section \<open>Peers\<close>

definition used_addrs :: "(string \<times> peerRecord option) list \<Rightarrow> string \<Rightarrow> Addr list" where
  "used_addrs pb networkID =
     List.map_filter (\<lambda>rec. if pr_NetworkID rec = networkID then ParseAddr (pr_VPNAddr rec) else None) (rows pb)"

definition nameTaken :: "(string \<times> peerRecord option) list \<Rightarrow> string \<Rightarrow> string \<Rightarrow> string \<Rightarrow> bool" where
  "nameTaken pb networkID peerID name \<longleftrightarrow>
     list_ex (\<lambda>rec. pr_NetworkID rec = networkID \<and> pr_ID rec \<noteq> peerID \<and> EqualFold (pr_Name rec) name) (rows pb)"

definition parse_cidr :: "networkRecord \<Rightarrow> Prefix" where
  "parse_cidr netRec = (case ParsePrefix (nr_CIDR netRec) of None \<Rightarrow> zero_Prefix | Some p \<Rightarrow> p)"

definition mark :: "int \<Rightarrow> Addr list \<Rightarrow> (Addr spelling \<times> int) list \<Rightarrow> (Addr spelling \<times> int) list" where
  "mark ts as m = fold (\<lambda>a. AList.update (Canon a) ts) as m"

definition migrateAssignedAddrs :: "networkRecord \<Rightarrow> Addr list \<Rightarrow> networkRecord" where
  "migrateAssignedAddrs netRec used = (case nr_AssignedAddrs netRec of
      Some _ \<Rightarrow> netRec
    | None \<Rightarrow>
        (let held = mark 0 used []; cidr = parse_cidr netRec; firstHost = nextIPAfterNetwork (Masked cidr);
             free = filter (\<lambda>a. a \<notin> set used)
         in case ParseAddr (nr_NextIP netRec) of
              Some nextIP \<Rightarrow>
                if Contains cidr nextIP
                then netRec\<lparr>nr_AssignedAddrs := Some (mark 1 (free (hosts_below cidr nextIP firstHost)) held)\<rparr>
                else if length (hosts cidr firstHost) > maxFallbackHosts then netRec\<lparr>nr_AssignedAddrs := Some held\<rparr>
                else netRec\<lparr>nr_AssignedAddrs := Some (mark 1 (free (hosts cidr firstHost)) held)\<rparr>
            | None \<Rightarrow>
                if length (hosts cidr firstHost) > maxFallbackHosts then netRec\<lparr>nr_AssignedAddrs := Some held\<rparr>
                else netRec\<lparr>nr_AssignedAddrs := Some (mark 1 (free (hosts cidr firstHost)) held)\<rparr>))"

text \<open>The allocation loop: the first address that was never assigned, which ends the loop, and the one freed longest ago.\<close>

fun scan_hosts ::
  "Addr list \<Rightarrow> (Addr spelling \<times> int) list \<Rightarrow> Addr list \<Rightarrow> (Addr \<times> int) option \<Rightarrow> Addr option \<times> (Addr \<times> int) option" where
  "scan_hosts used asg [] oldest = (None, oldest)"
| "scan_hosts used asg (a # as) oldest =
     (if a \<in> set used then scan_hosts used asg as oldest
      else case map_of asg (Canon a) of
             Some freedAt \<Rightarrow>
               if freedAt > 0 \<and> (case oldest of None \<Rightarrow> True | Some (_, t) \<Rightarrow> freedAt < t)
               then scan_hosts used asg as (Some (a, freedAt)) else scan_hosts used asg as oldest
           | None \<Rightarrow> (Some a, oldest))"

definition pick_addr :: "Addr list \<Rightarrow> networkRecord \<Rightarrow> Addr option" where
  "pick_addr used netRec =
     (let cidr = parse_cidr netRec
      in case scan_hosts used (the (nr_AssignedAddrs netRec)) (hosts cidr (nextIPAfterNetwork (Masked cidr))) None of
           (Some a, _) \<Rightarrow> Some a
         | (None, Some (a, _)) \<Rightarrow> Some a
         | (None, None) \<Rightarrow> None)"

definition take_addr :: "networkRecord \<Rightarrow> Addr \<Rightarrow> networkRecord" where
  "take_addr netRec assigned =
     (let cidr = parse_cidr netRec;
          netRec = netRec\<lparr>nr_AssignedAddrs := Some (AList.update (Canon assigned) 0 (the (nr_AssignedAddrs netRec)))\<rparr>;
          netRec = (case ParseAddr (nr_NextIP netRec) of
                      None \<Rightarrow> netRec
                    | Some nextIP \<Rightarrow>
                        if (\<not> Contains cidr nextIP \<or> \<not> Addr_less assigned nextIP) \<and> Contains cidr (Next assigned)
                        then netRec\<lparr>nr_NextIP := Canon (Next assigned)\<rparr> else netRec)
      in netRec\<lparr>nr_MachineCount := nr_MachineCount netRec + 1\<rparr>)"

definition reregister :: "Registry \<Rightarrow> peerRecord \<Rightarrow> peerRecord \<Rightarrow> string \<Rightarrow> registry_error + Registry \<times> Addr" where
  "reregister r rec p networkID =
     (if pr_NetworkID rec \<noteq> networkID then Inl ErrPeerIDTaken
      else if pr_X25519Public rec \<noteq> pr_X25519Public p then Inl ErrPeerKeyMismatch
      else case ParseAddr (pr_VPNAddr rec) of
             None \<Rightarrow> Inl ErrUnreadable
           | Some addr \<Rightarrow>
               Inr (r\<lparr>bucketPeers := AList.update (pr_ID p)
                      (Some (rec\<lparr>pr_LastSeen := roundToHour (pr_LastSeen p), pr_Name := pr_Name p, pr_SubnetRoutes := pr_SubnetRoutes p\<rparr>))
                      (bucketPeers r)\<rparr>, addr))"

definition register_new :: "Registry \<Rightarrow> peerRecord \<Rightarrow> string \<Rightarrow> int \<Rightarrow> registry_error + Registry \<times> Addr" where
  "register_new r p networkID maxMachines = (case get_row (bucketNetworks r) networkID of
      Inl e \<Rightarrow> Inl e
    | Inr netRec \<Rightarrow>
        if maxMachines > 0 \<and> nr_MachineCount netRec \<ge> maxMachines then Inl ErrMachineLimit
        else
          (let used = used_addrs (bucketPeers r) networkID; netRec = migrateAssignedAddrs netRec used
           in case pick_addr used netRec of
                None \<Rightarrow> Inl ErrAddressSpaceExhausted
              | Some assigned \<Rightarrow>
                  Inr (r\<lparr>bucketNetworks := AList.update networkID (Some (take_addr netRec assigned)) (bucketNetworks r),
                         bucketPeers := AList.update (pr_ID p)
                           (Some (p\<lparr>pr_VPNAddr := Canon assigned, pr_NetworkID := networkID,
                                    pr_LastSeen := roundToHour (pr_LastSeen p)\<rparr>)) (bucketPeers r)\<rparr>, assigned)))"

definition RegisterPeer :: "Registry \<Rightarrow> peerRecord \<Rightarrow> string \<Rightarrow> int \<Rightarrow> registry_error + Registry \<times> Addr" where
  "RegisterPeer r p networkID maxMachines =
     (let endpoint = pr_Endpoint p; p = p\<lparr>pr_Endpoint := []\<rparr>;
          p = (if pr_Name p \<noteq> [] \<and> nameTaken (bucketPeers r) networkID (pr_ID p) (pr_Name p) then p\<lparr>pr_Name := []\<rparr> else p)
      in case (case map_of (bucketPeers r) (pr_ID p) of
                 Some None \<Rightarrow> Inl ErrUnreadable
               | Some (Some rec) \<Rightarrow> reregister r rec p networkID
               | None \<Rightarrow> register_new r p networkID maxMachines) of
           Inl e \<Rightarrow> Inl e
         | Inr (r, assigned) \<Rightarrow> Inr (reg_setEndpoint r (pr_ID p) endpoint, assigned))"

definition GetPeer :: "Registry \<Rightarrow> string \<Rightarrow> registry_error + peerRecord" where
  "GetPeer r peerID = get_row (bucketPeers r) peerID"

definition ListPeers :: "Registry \<Rightarrow> string \<Rightarrow> registry_error + peerRecord list" where
  "ListPeers r networkID =
     (if list_ex (\<lambda>(k, v). v = None) (bucketPeers r) then Inl ErrUnreadable
      else Inr (applyEndpoints r (filter (\<lambda>rec. pr_NetworkID rec = networkID) (rows (bucketPeers r)))))"

definition TouchPeer :: "int \<Rightarrow> Registry \<Rightarrow> string \<Rightarrow> registry_error + Registry" where
  "TouchPeer now r peerID = (case get_row (bucketPeers r) peerID of
      Inl e \<Rightarrow> Inl e
    | Inr rec \<Rightarrow> Inr (r\<lparr>bucketPeers := AList.update peerID (Some (rec\<lparr>pr_LastSeen := roundToHour now\<rparr>)) (bucketPeers r)\<rparr>))"

definition reg_UpdateEndpoint :: "int \<Rightarrow> Registry \<Rightarrow> string \<Rightarrow> string \<Rightarrow> registry_error + Registry" where
  "reg_UpdateEndpoint now r peerID endpoint = (case get_row (bucketPeers r) peerID of
      Inl e \<Rightarrow> Inl e
    | Inr rec \<Rightarrow>
        Inr (reg_setEndpoint
               (r\<lparr>bucketPeers := AList.update peerID (Some (rec\<lparr>pr_LastSeen := roundToHour now\<rparr>)) (bucketPeers r)\<rparr>) peerID endpoint))"

definition release_addr ::
  "int \<Rightarrow> (string \<times> peerRecord option) list \<Rightarrow> string \<Rightarrow> Addr spelling \<Rightarrow> networkRecord \<Rightarrow> networkRecord" where
  "release_addr now pb networkID freedAddr netRec =
     (let netRec = (if nr_MachineCount netRec > 0 then netRec\<lparr>nr_MachineCount := nr_MachineCount netRec - 1\<rparr> else netRec);
          netRec = migrateAssignedAddrs netRec (used_addrs pb networkID)
      in netRec\<lparr>nr_AssignedAddrs := Some (AList.update freedAddr now (the (nr_AssignedAddrs netRec)))\<rparr>)"

definition RemovePeer :: "int \<Rightarrow> Registry \<Rightarrow> string \<Rightarrow> registry_error + Registry \<times> peerRecord" where
  "RemovePeer now r peerID = (case get_row (bucketPeers r) peerID of
      Inl e \<Rightarrow> Inl e
    | Inr removed \<Rightarrow>
        (let pb = AList.delete peerID (bucketPeers r); networkID = pr_NetworkID removed;
             nb = (case map_of (bucketNetworks r) networkID of
                     Some (Some netRec) \<Rightarrow>
                       AList.update networkID (Some (release_addr now pb networkID (pr_VPNAddr removed) netRec)) (bucketNetworks r)
                   | _ \<Rightarrow> bucketNetworks r)
         in Inr (dropEndpoint (r\<lparr>bucketPeers := pb, bucketNetworks := nb\<rparr>) peerID, removed)))"

definition NetworkCount :: "Registry \<Rightarrow> string \<Rightarrow> registry_error + nat" where
  "NetworkCount r accountID =
     (if list_ex (\<lambda>(k, v). v = None) (bucketNetworks r) then Inl ErrUnreadable
      else Inr (length (filter (\<lambda>rec. nr_AccountID rec = accountID) (rows (bucketNetworks r)))))"

section \<open>The sweep\<close>

definition DefaultSweepInterval :: duration where "DefaultSweepInterval = hour"

definition MinSweepInterval :: duration where "MinSweepInterval = minute"

definition normalizeSweepInterval :: "duration \<Rightarrow> duration" where
  "normalizeSweepInterval d =
     (if d \<le> 0 then DefaultSweepInterval else if d < MinSweepInterval then MinSweepInterval else d)"

definition is_stale :: "int \<Rightarrow> peerRecord \<Rightarrow> bool" where
  "is_stale cutoff rec \<longleftrightarrow> (if pr_LastSeen rec = 0 then pr_RegisteredAt rec else pr_LastSeen rec) < cutoff"

fun sweep_rows :: "(string \<Rightarrow> bool) \<Rightarrow> peerRecord list \<Rightarrow> Registry \<Rightarrow> Registry \<times> peerRecord list" where
  "sweep_rows skip [] r = (r, [])"
| "sweep_rows skip (rec # stale) r =
     (if skip (pr_ID rec) then sweep_rows skip stale r
      else
        (let pb = AList.delete (pr_ID rec) (bucketPeers r);
             nb = (case map_of (bucketNetworks r) (pr_NetworkID rec) of
                     Some (Some netRec) \<Rightarrow>
                       if nr_MachineCount netRec > 0
                       then AList.update (pr_NetworkID rec) (Some (netRec\<lparr>nr_MachineCount := nr_MachineCount netRec - 1\<rparr>)) (bucketNetworks r)
                       else bucketNetworks r
                   | _ \<Rightarrow> bucketNetworks r)
         in case sweep_rows skip stale (r\<lparr>bucketPeers := pb, bucketNetworks := nb\<rparr>) of (r, removed) \<Rightarrow> (r, rec # removed)))"

text \<open>\<open>now\<close> and \<open>ttl\<close> in nanoseconds.\<close>

definition SweepStalePeers :: "gotime \<Rightarrow> duration \<Rightarrow> (string \<Rightarrow> bool) \<Rightarrow> Registry \<Rightarrow> Registry \<times> peerRecord list" where
  "SweepStalePeers now ttl skip r =
     (if ttl \<le> 0 then (r, [])
      else case sweep_rows skip (filter (is_stale (unix_secs (now - ttl))) (rows (bucketPeers r))) r of
             (r, removed) \<Rightarrow> (fold (\<lambda>rec r. dropEndpoint r (pr_ID rec)) removed r, removed))"

section \<open>The invariant\<close>

definition net_hosts :: "networkRecord \<Rightarrow> Addr list" where
  "net_hosts net = hosts (parse_cidr net) (nextIPAfterNetwork (Masked (parse_cidr net)))"

text \<open>The peers of a network.\<close>

definition members :: "(string \<rightharpoonup> peerRecord option) \<Rightarrow> string \<Rightarrow> string set" where
  "members pm n = {k. \<exists>rec. pm k = Some (Some rec) \<and> pr_NetworkID rec = n}"

text \<open>Every row is readable and stands under its own key, every peer belongs to a network and has one of its host
  addresses, no two peers of a network share an address or a name, no endpoint is stored, and the machine count is the
  number of peers.\<close>

definition peer_ok :: "(string \<rightharpoonup> networkRecord option) \<Rightarrow> string \<Rightarrow> peerRecord \<Rightarrow> bool" where
  "peer_ok nm k rec \<longleftrightarrow> pr_ID rec = k \<and> pr_Endpoint rec = [] \<and>
     (\<exists>net a. nm (pr_NetworkID rec) = Some (Some net) \<and> pr_VPNAddr rec = Canon a \<and> a \<in> set (net_hosts net))"

definition clash :: "peerRecord \<Rightarrow> peerRecord \<Rightarrow> bool" where
  "clash p q \<longleftrightarrow> pr_NetworkID p = pr_NetworkID q \<and>
     (pr_VPNAddr p = pr_VPNAddr q \<or> pr_Name p \<noteq> [] \<and> EqualFold (pr_Name p) (pr_Name q))"

definition reg_ok :: "(string \<rightharpoonup> networkRecord option) \<Rightarrow> (string \<rightharpoonup> peerRecord option) \<Rightarrow> bool" where
  "reg_ok nm pm \<longleftrightarrow>
     (\<forall>k v. pm k = Some v \<longrightarrow> (\<exists>rec. v = Some rec \<and> peer_ok nm k rec)) \<and>
     (\<forall>k k' p q. pm k = Some (Some p) \<and> pm k' = Some (Some q) \<and> clash p q \<longrightarrow> k = k') \<and>
     (\<forall>n v. nm n = Some v \<longrightarrow> (\<exists>net. v = Some net \<and> nr_AssignedAddrs net \<noteq> None \<and> nr_MachineCount net = int (card (members pm n))))"

definition registry_inv :: "Registry \<Rightarrow> bool" where
  "registry_inv r \<longleftrightarrow> distinct (map fst (bucketNetworks r)) \<and> distinct (map fst (bucketPeers r)) \<and>
     reg_ok (map_of (bucketNetworks r)) (map_of (bucketPeers r))"

lemma reg_okD:
  assumes "reg_ok nm pm"
  shows "pm k = Some v \<Longrightarrow> \<exists>rec. v = Some rec \<and> peer_ok nm k rec"
    and "pm k = Some (Some p) \<Longrightarrow> pm k' = Some (Some q) \<Longrightarrow> clash p q \<Longrightarrow> k = k'"
    and "nm n = Some w \<Longrightarrow> \<exists>net. w = Some net \<and> nr_AssignedAddrs net \<noteq> None \<and> nr_MachineCount net = int (card (members pm n))"
  using assms unfolding reg_ok_def by blast+

lemma rows_map_of: "distinct (map fst b) \<Longrightarrow> v \<in> set (rows b) \<longleftrightarrow> (\<exists>k. map_of b k = Some (Some v))"
  by (force simp: rows_def mem_map_filter dest: map_of_SomeD intro: map_of_is_SomeI)

lemma used_addrs_iff:
  "distinct (map fst pb) \<Longrightarrow> a \<in> set (used_addrs pb n) \<longleftrightarrow>
     (\<exists>rec. (\<exists>k. map_of pb k = Some (Some rec)) \<and> pr_NetworkID rec = n \<and> ParseAddr (pr_VPNAddr rec) = Some a)"
  by (simp add: used_addrs_def mem_map_filter Bex_def rows_map_of if_split_eq1) blast

lemma hosts_mem: "a \<in> set (hosts p x) \<Longrightarrow> Contains p (Next a) \<and> Addr_IsValid a"
proof (induction p x rule: hosts.induct)
  case (1 p x)
  show ?case
  proof (cases "Contains p (Next x)")
    case True
    then have "a = x \<or> a \<in> set (hosts p (Next x))" using 1(2) by (simp add: hosts.simps [of p x])
    then show ?thesis using 1(1) True Next_in_prefix(3) by blast
  qed (use 1(2) in \<open>simp add: hosts.simps [of p x]\<close>)
qed

lemma hosts_from: "a \<in> set (hosts p x) \<Longrightarrow> Addr_num x \<le> Addr_num a \<and> Addr_IsValid x"
proof (induction p x rule: hosts.induct)
  case (1 p x)
  show ?case
  proof (cases "Contains p (Next x)")
    case True
    then have "a = x \<or> a \<in> set (hosts p (Next x))" using 1(2) by (simp add: hosts.simps [of p x])
    then show ?thesis using 1(1) [OF True] Next_in_prefix(1,3) [OF True] by auto
  qed (use 1(2) in \<open>simp add: hosts.simps [of p x]\<close>)
qed

lemma base_address:
  assumes "pfx_bits p = Some b" "Addr_IsValid (Next (pfx_ip (Masked p)))"
  shows "block b (pfx_ip (Masked p)) = block b (pfx_ip p) \<and> BitLen (pfx_ip (Masked p)) = BitLen (pfx_ip p)"
  using assms
  by (cases "pfx_ip p")
    (auto simp: Masked_def PrefixFrom_def zero_Prefix_def zero_Addr_def block_def drop_bit_eq_iff [symmetric] drop_bit_mask_off
      simp del: drop_bit_and split: if_splits)

text \<open>The addresses handed out: in the network, neither its first nor its last.\<close>

lemma host_in_network:
  assumes a: "a \<in> set (hosts p (nextIPAfterNetwork (Masked p)))"
  shows "Contains p a" "Contains p (Next a)" "Addr_IsValid a" "a \<noteq> pfx_ip (Masked p)"
proof -
  show n: "Contains p (Next a)" and v: "Addr_IsValid a" using hosts_mem [OF a] by auto
  obtain b where b: "pfx_bits p = Some b" and l: "BitLen (Next a) = BitLen (pfx_ip p)" and z: "Zone (Next a) = []"
    and blk: "block b (Next a) = block b (pfx_ip p)" using n by (auto simp: Contains_iff)
  have nv: "Addr_IsValid (Next (pfx_ip (Masked p)))" and ge: "Addr_num (Next (pfx_ip (Masked p))) \<le> Addr_num a"
    using hosts_from [OF a] by (auto simp: nextIPAfterNetwork_def)
  have "Addr_IsValid (pfx_ip (Masked p))" using nv by (cases "pfx_ip (Masked p)") auto
  then have gt: "Addr_num (pfx_ip (Masked p)) < Addr_num a" using ge Next_num [OF _ nv] by auto
  then show "a \<noteq> pfx_ip (Masked p)" by auto
  have nx: "BitLen (Next a) = BitLen a" "Zone (Next a) = Zone a" "Addr_num (Next a) = Addr_num a + 1"
    using Next_cases [OF v] n by (auto simp: Contains_iff)
  let ?k = "2 ^ (BitLen (pfx_ip p) - b) :: nat"
  have "Addr_num (pfx_ip (Masked p)) div ?k = (Addr_num a + 1) div ?k"
    using base_address [OF b nv] blk nx l unfolding block_def by metis
  then have "Addr_num a div ?k = (Addr_num a + 1) div ?k"
    using div_le_mono [of "Addr_num (pfx_ip (Masked p))" "Addr_num a" ?k] gt
    by (intro antisym) (simp_all add: div_le_mono)
  then show "Contains p a" using b l z blk nx v by (auto simp: Contains_iff block_def)
qed

lemma scan_hosts_free:
  "scan_hosts used asg as old = (r, o') \<Longrightarrow>
     (\<forall>a. r = Some a \<longrightarrow> a \<in> set as \<and> a \<notin> set used \<and> map_of asg (Canon a) = None) \<and>
     (\<forall>a t. o' = Some (a, t) \<longrightarrow> old = Some (a, t) \<or> a \<in> set as \<and> a \<notin> set used)"
  by (induction as arbitrary: old) (force split: if_splits option.splits)+

lemma pick_addr_free: "pick_addr used net = Some a \<Longrightarrow> a \<in> set (net_hosts net) \<and> a \<notin> set used"
  using scan_hosts_free [of used "the (nr_AssignedAddrs net)" "net_hosts net" None]
  by (auto simp: pick_addr_def net_hosts_def Let_def split: prod.splits option.splits)

lemma members_upd:
  "members (pm(k := v)) n = (case v of Some (Some rec) \<Rightarrow> if pr_NetworkID rec = n then insert k (members pm n) else members pm n - {k}
     | _ \<Rightarrow> members pm n - {k})"
  by (auto simp: members_def split: option.splits)

lemma finite_members [simp]: "finite (members (map_of b) n)"
  by (rule finite_subset [OF _ finite_dom_map_of [of b]]) (auto simp: members_def)

text \<open>A change of one peer's row that keeps its network and address.\<close>

lemma reg_ok_change:
  assumes ok: "reg_ok nm pm" and k: "pm k = Some (Some rec)"
    and new: "pr_ID rec' = pr_ID rec" "pr_Endpoint rec' = []" "pr_NetworkID rec' = pr_NetworkID rec" "pr_VPNAddr rec' = pr_VPNAddr rec"
    and names: "\<And>j q. pm j = Some (Some q) \<Longrightarrow> j \<noteq> k \<Longrightarrow> pr_NetworkID q = pr_NetworkID rec \<Longrightarrow> pr_Name rec' \<noteq> [] \<Longrightarrow>
       \<not> EqualFold (pr_Name rec') (pr_Name q)"
  shows "reg_ok nm (pm(k \<mapsto> Some rec'))"
proof -
  have sym: "clash p q \<Longrightarrow> clash q p" for p q by (auto simp: clash_def EqualFold_def)
  have other: "\<not> clash rec' q" if "pm j = Some (Some q)" "j \<noteq> k" for j q
    using reg_okD(2) [OF ok k that(1)] names [OF that] that(2) new by (auto simp: clash_def)
  have m: "members (pm(k \<mapsto> Some rec')) n = members pm n" for n
    using k new by (auto simp: members_def)
  show ?thesis
    unfolding reg_ok_def m
  proof (intro conjI allI impI)
    fix j v assume "(pm(k \<mapsto> Some rec')) j = Some v"
    then show "\<exists>rec. v = Some rec \<and> peer_ok nm j rec"
      using reg_okD(1) [OF ok k] reg_okD(1) [OF ok, of j v] new by (auto simp: peer_ok_def split: if_splits)
  next
    fix i j p q assume "(pm(k \<mapsto> Some rec')) i = Some (Some p) \<and> (pm(k \<mapsto> Some rec')) j = Some (Some q) \<and> clash p q"
    then show "i = j" using reg_okD(2) [OF ok, of i p j q] other sym by (auto split: if_splits)
  next
    fix n v assume "nm n = Some v"
    then show "\<exists>net. v = Some net \<and> nr_AssignedAddrs net \<noteq> None \<and> nr_MachineCount net = int (card (members pm n))"
      by (rule reg_okD(3) [OF ok])
  qed
qed

lemma peer_ok_net:
  assumes "peer_ok nm k rec" "nm n = Some (Some net)" "parse_cidr net' = parse_cidr net"
  shows "peer_ok (nm(n \<mapsto> Some net')) k rec"
  using assms by (auto simp: peer_ok_def net_hosts_def)

text \<open>A peer joins a network, and a peer leaves it.\<close>

lemma reg_ok_join:
  assumes ok: "reg_ok nm pm" and fin: "finite (members pm n)" and k: "pm k = None" and n: "nm n = Some (Some net)"
    and rec: "pr_ID rec = k" "pr_Endpoint rec = []" "pr_NetworkID rec = n" "pr_VPNAddr rec = Canon a" "a \<in> set (net_hosts net)"
    and free: "\<And>j q. pm j = Some (Some q) \<Longrightarrow> pr_NetworkID q = n \<Longrightarrow> \<not> clash rec q"
    and net: "parse_cidr net' = parse_cidr net" "nr_AssignedAddrs net' \<noteq> None" "nr_MachineCount net' = nr_MachineCount net + 1"
  shows "reg_ok (nm(n \<mapsto> Some net')) (pm(k \<mapsto> Some rec))"
proof -
  have sym: "clash q p" if "clash p q" for p q using that by (auto simp: clash_def EqualFold_def)
  have other: "\<not> clash rec q" if "pm j = Some (Some q)" for j q using free [OF that] rec by (auto simp: clash_def)
  have m: "members (pm(k \<mapsto> Some rec)) i = (if i = n then insert k (members pm i) else members pm i)" for i
    using k rec by (auto simp: members_def)
  have kn: "k \<notin> members pm n" using k by (auto simp: members_def)
  show ?thesis unfolding reg_ok_def
  proof (intro conjI allI impI)
    fix j v assume "(pm(k \<mapsto> Some rec)) j = Some v"
    moreover have "peer_ok (nm(n \<mapsto> Some net')) k rec"
      using rec net(1) by (auto simp: peer_ok_def net_hosts_def)
    ultimately show "\<exists>rec. v = Some rec \<and> peer_ok (nm(n \<mapsto> Some net')) j rec"
      using reg_okD(1) [OF ok, of j v] peer_ok_net [where nm = nm, OF _ n net(1)] by (auto split: if_splits)
  next
    fix i j p q assume "(pm(k \<mapsto> Some rec)) i = Some (Some p) \<and> (pm(k \<mapsto> Some rec)) j = Some (Some q) \<and> clash p q"
    then show "i = j" using reg_okD(2) [OF ok, of i p j q] other sym by (auto split: if_splits)
  next
    fix i v assume "(nm(n \<mapsto> Some net')) i = Some v"
    then show "\<exists>net. v = Some net \<and> nr_AssignedAddrs net \<noteq> None \<and> nr_MachineCount net = int (card (members (pm(k \<mapsto> Some rec)) i))"
      using reg_okD(3) [OF ok, of i v] reg_okD(3) [OF ok n] fin kn net by (auto simp: m split: if_splits)
  qed
qed

lemma reg_ok_leave:
  assumes ok: "reg_ok nm pm" and fin: "finite (members pm (pr_NetworkID rec))" and k: "pm k = Some (Some rec)"
    and n: "nm (pr_NetworkID rec) = Some (Some net)"
    and net: "parse_cidr net' = parse_cidr net" "nr_AssignedAddrs net' \<noteq> None" "nr_MachineCount net' = nr_MachineCount net - 1"
  shows "reg_ok (nm(pr_NetworkID rec \<mapsto> Some net')) (pm(k := None))"
proof -
  have m: "members (pm(k := None)) i = (if i = pr_NetworkID rec then members pm i - {k} else members pm i)" for i
    using k by (auto simp: members_def)
  have kn: "k \<in> members pm (pr_NetworkID rec)" using k by (auto simp: members_def)
  then have "card (members pm (pr_NetworkID rec)) > 0" using fin card_gt_0_iff by blast
  then have c: "int (card (members pm (pr_NetworkID rec) - {k})) = int (card (members pm (pr_NetworkID rec))) - 1"
    using kn by (simp add: card_Diff_singleton_if)
  show ?thesis unfolding reg_ok_def
  proof (intro conjI allI impI)
    fix j v assume "(pm(k := None)) j = Some v"
    then show "\<exists>p. v = Some p \<and> peer_ok (nm(pr_NetworkID rec \<mapsto> Some net')) j p"
      using reg_okD(1) [OF ok, of j v] peer_ok_net [where nm = nm, OF _ n net(1)] by (auto split: if_splits)
  next
    fix i j p q assume "(pm(k := None)) i = Some (Some p) \<and> (pm(k := None)) j = Some (Some q) \<and> clash p q"
    then show "i = j" using reg_okD(2) [OF ok, of i p j q] by (auto split: if_splits)
  next
    fix i v assume "(nm(pr_NetworkID rec \<mapsto> Some net')) i = Some v"
    then show "\<exists>net. v = Some net \<and> nr_AssignedAddrs net \<noteq> None \<and> nr_MachineCount net = int (card (members (pm(k := None)) i))"
      using reg_okD(3) [OF ok, of i v] reg_okD(3) [OF ok n] c net by (auto simp: m split: if_splits)
  qed
qed

section \<open>The operations keep the invariant\<close>

lemma migrate_assigned [simp]: "nr_AssignedAddrs net \<noteq> None \<Longrightarrow> migrateAssignedAddrs net used = net"
  by (auto simp: migrateAssignedAddrs_def)

lemma take_addr_fields [simp]:
  "parse_cidr (take_addr net a) = parse_cidr net" "nr_MachineCount (take_addr net a) = nr_MachineCount net + 1"
  "nr_AssignedAddrs (take_addr net a) = Some (AList.update (Canon a) 0 (the (nr_AssignedAddrs net)))"
  by (auto simp: take_addr_def parse_cidr_def Let_def split: option.split)

lemma get_row_Inr: "get_row b k = Inr v \<longleftrightarrow> map_of b k = Some (Some v)"
  by (auto simp: get_row_def split: option.splits)

lemma registry_invI:
  assumes "registry_inv r" "reg_ok (map_of (bucketNetworks r')) (map_of (bucketPeers r'))"
    and "distinct (map fst (bucketNetworks r'))" "distinct (map fst (bucketPeers r'))"
  shows "registry_inv r'"
  using assms by (simp add: registry_inv_def)

lemma inv_rows:
  assumes "registry_inv r"
  shows "distinct (map fst (bucketNetworks r))" "distinct (map fst (bucketPeers r))"
    "reg_ok (map_of (bucketNetworks r)) (map_of (bucketPeers r))"
  using assms by (simp_all add: registry_inv_def)

lemma inv_endpoints [simp]: "registry_inv (r\<lparr>reg_endpoints := m\<rparr>) = registry_inv r"
  by (simp add: registry_inv_def)

text \<open>What a stored row is.\<close>

lemma row_ok:
  assumes "registry_inv r" "map_of (bucketPeers r) k = Some (Some rec)"
  obtains net a where "pr_ID rec = k" "pr_Endpoint rec = []" "map_of (bucketNetworks r) (pr_NetworkID rec) = Some (Some net)"
    "pr_VPNAddr rec = Canon a" "a \<in> set (net_hosts net)" "Addr_IsValid a"
proof -
  have "peer_ok (map_of (bucketNetworks r)) k rec" using reg_okD(1) [OF inv_rows(3) [OF assms(1)] assms(2)] by simp
  then obtain net a where "pr_ID rec = k" "pr_Endpoint rec = []" "map_of (bucketNetworks r) (pr_NetworkID rec) = Some (Some net)"
    "pr_VPNAddr rec = Canon a" and a: "a \<in> set (net_hosts net)" unfolding peer_ok_def by blast
  then show thesis by (rule that) (use host_in_network(3) [of a "parse_cidr net"] a in \<open>simp add: net_hosts_def\<close>)
qed

lemma row_endpoint: "registry_inv r \<Longrightarrow> map_of (bucketPeers r) k = Some (Some rec) \<Longrightarrow> pr_Endpoint rec = [] \<and> pr_ID rec = k"
  by (erule row_ok) blast+

lemma not_nameTaken:
  assumes "registry_inv r" "\<not> nameTaken (bucketPeers r) n pid name" "map_of (bucketPeers r) j = Some (Some q)"
    "pr_NetworkID q = n" "j \<noteq> pid"
  shows "\<not> EqualFold (pr_Name q) name"
proof -
  have "q \<in> set (rows (bucketPeers r))" using rows_map_of [OF inv_rows(2) [OF assms(1)]] assms(3) by blast
  moreover have "pr_ID q \<noteq> pid" using row_ok [OF assms(1,3)] assms(5) by metis
  ultimately show ?thesis using assms(2,4) by (auto simp: nameTaken_def list_ex_iff)
qed

lemma CreateNetwork_inv:
  assumes "registry_inv r" "CreateNetwork now r i cidr name acct = Inr r'"
  shows "registry_inv r'"
proof -
  note ok = inv_rows(3) [OF assms(1)]
  have new: "map_of (bucketNetworks r) i = None" using assms(2) by (auto simp: CreateNetwork_def split: if_splits)
  have none: "members (map_of (bucketPeers r)) i = {}"
    using reg_okD(1) [OF ok] new by (fastforce simp: members_def peer_ok_def)
  have "reg_ok ((map_of (bucketNetworks r))(i \<mapsto> Some net)) (map_of (bucketPeers r))"
    if "nr_MachineCount net = 0" "nr_AssignedAddrs net = Some []" for net
    unfolding reg_ok_def
  proof (intro conjI allI impI)
    fix k v assume "map_of (bucketPeers r) k = Some v"
    then show "\<exists>rec. v = Some rec \<and> peer_ok ((map_of (bucketNetworks r))(i \<mapsto> Some net)) k rec"
      using reg_okD(1) [OF ok] new by (fastforce simp: peer_ok_def)
  qed (use reg_okD(2,3) [OF ok] that none in \<open>auto split: if_splits\<close>)
  then show ?thesis using assms inv_rows [OF assms(1)] new
    by (auto simp: CreateNetwork_def registry_inv_def update_conv' distinct_update)
qed

lemma change_inv:
  assumes inv: "registry_inv r" and k: "map_of (bucketPeers r) k = Some (Some rec)"
    and "pr_ID rec' = pr_ID rec" "pr_Endpoint rec' = []" "pr_NetworkID rec' = pr_NetworkID rec" "pr_VPNAddr rec' = pr_VPNAddr rec"
    and "pr_Name rec' = [] \<or> pr_Name rec' = pr_Name rec \<or> \<not> nameTaken (bucketPeers r) (pr_NetworkID rec) k (pr_Name rec')"
  shows "registry_inv (r\<lparr>bucketPeers := AList.update k (Some rec') (bucketPeers r)\<rparr>)"
proof -
  have "reg_ok (map_of (bucketNetworks r)) ((map_of (bucketPeers r))(k \<mapsto> Some rec'))"
  proof (rule reg_ok_change [OF inv_rows(3) [OF inv] k assms(3-6)])
    fix j q assume q: "map_of (bucketPeers r) j = Some (Some q)" "j \<noteq> k" "pr_NetworkID q = pr_NetworkID rec" "pr_Name rec' \<noteq> []"
    show "\<not> EqualFold (pr_Name rec') (pr_Name q)"
      using not_nameTaken [where name = "pr_Name rec'", OF inv _ q(1,3,2)] reg_okD(2) [OF inv_rows(3) [OF inv] k q(1)] q assms(7)
      by (auto simp: clash_def EqualFold_def)
  qed
  then show ?thesis using inv_rows [OF inv] by (simp add: registry_inv_def update_conv' distinct_update)
qed

lemma register_new_inv:
  assumes inv: "registry_inv r" and k: "map_of (bucketPeers r) (pr_ID p) = None" and e: "pr_Endpoint p = []"
    and name: "pr_Name p = [] \<or> \<not> nameTaken (bucketPeers r) n (pr_ID p) (pr_Name p)"
    and reg: "register_new r p n mx = Inr (r', a)"
  shows "registry_inv r'"
proof -
  obtain net where n: "map_of (bucketNetworks r) n = Some (Some net)"
    using reg by (auto simp: register_new_def get_row_Inr split: sum.splits)
  have asg: "nr_AssignedAddrs net \<noteq> None" using reg_okD(3) [OF inv_rows(3) [OF inv] n] by auto
  let ?rec = "p\<lparr>pr_VPNAddr := Canon a, pr_NetworkID := n, pr_LastSeen := roundToHour (pr_LastSeen p)\<rparr>"
  have a: "pick_addr (used_addrs (bucketPeers r) n) net = Some a"
    and r': "r' = r\<lparr>bucketNetworks := AList.update n (Some (take_addr net a)) (bucketNetworks r),
                    bucketPeers := AList.update (pr_ID p) (Some ?rec) (bucketPeers r)\<rparr>"
    using reg n asg by (auto simp: register_new_def get_row_def Let_def split: if_splits option.splits)
  have "reg_ok ((map_of (bucketNetworks r))(n \<mapsto> Some (take_addr net a))) ((map_of (bucketPeers r))(pr_ID p \<mapsto> Some ?rec))"
  proof (rule reg_ok_join [where a = a, OF inv_rows(3) [OF inv] finite_members k n])
    fix j q assume q: "map_of (bucketPeers r) j = Some (Some q)" "pr_NetworkID q = n"
    obtain b where b: "pr_VPNAddr q = Canon b" "Addr_IsValid b" using row_ok [OF inv q(1)] by metis
    then have "b \<in> set (used_addrs (bucketPeers r) n)" using q used_addrs_iff [OF inv_rows(2) [OF inv]] by force
    then have "b \<noteq> a" using pick_addr_free [OF a] by auto
    moreover have "j \<noteq> pr_ID p" using k q(1) by auto
    ultimately show "\<not> clash ?rec q" using b not_nameTaken [where pid = "pr_ID p" and name = "pr_Name p", OF inv _ q] name by (auto simp: clash_def EqualFold_def)
  qed (use pick_addr_free [OF a] e in simp_all)
  then show ?thesis using inv_rows [OF inv] by (simp add: r' registry_inv_def update_conv' distinct_update)
qed

lemma RegisterPeer_split:
  assumes "RegisterPeer r p n mx = Inr (r', a)"
  obtains q s where "pr_ID q = pr_ID p" "pr_Endpoint q = []" "pr_Name q = [] \<or> \<not> nameTaken (bucketPeers r) n (pr_ID q) (pr_Name q)"
    "pr_Ed25519Public q = pr_Ed25519Public p" "r' = reg_setEndpoint s (pr_ID p) (pr_Endpoint p)"
    "map_of (bucketPeers r) (pr_ID q) = None \<and> register_new r q n mx = Inr (s, a) \<or>
     (\<exists>rec. map_of (bucketPeers r) (pr_ID q) = Some (Some rec) \<and> reregister r rec q n = Inr (s, a))"
proof -
  define q where "q = (let p = p\<lparr>pr_Endpoint := []\<rparr> in
     if pr_Name p \<noteq> [] \<and> nameTaken (bucketPeers r) n (pr_ID p) (pr_Name p) then p\<lparr>pr_Name := []\<rparr> else p)"
  have q: "pr_ID q = pr_ID p" "pr_Endpoint q = []" "pr_Name q = [] \<or> \<not> nameTaken (bucketPeers r) n (pr_ID q) (pr_Name q)"
    "pr_Ed25519Public q = pr_Ed25519Public p"
    by (auto simp: q_def Let_def)
  obtain s where s: "r' = reg_setEndpoint s (pr_ID q) (pr_Endpoint p)"
    and c: "(case map_of (bucketPeers r) (pr_ID q) of Some None \<Rightarrow> Inl ErrUnreadable
               | Some (Some rec) \<Rightarrow> reregister r rec q n | None \<Rightarrow> register_new r q n mx) = Inr (s, a)"
    using assms unfolding RegisterPeer_def q_def Let_def by (auto split: sum.split_asm)
  then show thesis using that q by (auto split: option.splits)
qed

lemma RegisterPeer_inv:
  assumes inv: "registry_inv r" and reg: "RegisterPeer r p n mx = Inr (r', a)"
  shows "registry_inv r'"
proof -
  obtain q s where q: "pr_Endpoint q = []" "pr_Name q = [] \<or> \<not> nameTaken (bucketPeers r) n (pr_ID q) (pr_Name q)"
    and r': "r' = reg_setEndpoint s (pr_ID p) (pr_Endpoint p)"
    and c: "map_of (bucketPeers r) (pr_ID q) = None \<and> register_new r q n mx = Inr (s, a) \<or>
     (\<exists>rec. map_of (bucketPeers r) (pr_ID q) = Some (Some rec) \<and> reregister r rec q n = Inr (s, a))"
    by (rule RegisterPeer_split [OF reg])
  from c have "registry_inv s"
  proof (elim disjE conjE exE)
    fix rec assume rec: "map_of (bucketPeers r) (pr_ID q) = Some (Some rec)" and c: "reregister r rec q n = Inr (s, a)"
    let ?rec = "rec\<lparr>pr_LastSeen := roundToHour (pr_LastSeen q), pr_Name := pr_Name q, pr_SubnetRoutes := pr_SubnetRoutes q\<rparr>"
    have n: "pr_NetworkID rec = n" and s: "s = r\<lparr>bucketPeers := AList.update (pr_ID q) (Some ?rec) (bucketPeers r)\<rparr>"
      using c by (auto simp: reregister_def split: if_splits option.splits)
    show ?thesis unfolding s by (rule change_inv [OF inv rec]) (use row_endpoint [OF inv rec] q(2) n in auto)
  qed (rule register_new_inv [OF inv _ q])
  then show ?thesis by (simp add: r' reg_setEndpoint_def)
qed

lemma leave_inv:
  assumes inv: "registry_inv r" and k: "map_of (bucketPeers r) k = Some (Some rec)" 
    and n: "map_of (bucketNetworks r) (pr_NetworkID rec) = Some (Some net)"
    and net: "parse_cidr net' = parse_cidr net" "nr_AssignedAddrs net' \<noteq> None" "nr_MachineCount net' = nr_MachineCount net - 1"
  shows "registry_inv (r\<lparr>bucketPeers := AList.delete k (bucketPeers r),
     bucketNetworks := AList.update (pr_NetworkID rec) (Some net') (bucketNetworks r)\<rparr>)"
  using reg_ok_leave [OF inv_rows(3) [OF inv] finite_members k n net] inv_rows [OF inv]
  by (simp add: registry_inv_def update_conv' delete_conv' distinct_update distinct_delete)

lemma count_positive:
  assumes "registry_inv r" "map_of (bucketPeers r) k = Some (Some rec)" "map_of (bucketNetworks r) (pr_NetworkID rec) = Some (Some net)"
  shows "nr_MachineCount net > 0 \<and> nr_AssignedAddrs net \<noteq> None"
proof -
  have "k \<in> members (map_of (bucketPeers r)) (pr_NetworkID rec)" using assms(2) by (auto simp: members_def)
  then have "card (members (map_of (bucketPeers r)) (pr_NetworkID rec)) > 0" using card_gt_0_iff finite_members by blast
  then show ?thesis using reg_okD(3) [OF inv_rows(3) [OF assms(1)] assms(3)] by auto
qed

lemma RemovePeer_inv:
  assumes inv: "registry_inv r" and rm: "RemovePeer now r k = Inr (r', rec)"
  shows "registry_inv r'"
proof -
  have k: "map_of (bucketPeers r) k = Some (Some rec)"
    using rm by (auto simp: RemovePeer_def get_row_Inr Let_def split: sum.splits)
  obtain net where n: "map_of (bucketNetworks r) (pr_NetworkID rec) = Some (Some net)" using row_ok [OF inv k] by metis
  note c = count_positive [OF inv k n]
  show ?thesis
    using rm k n c leave_inv [OF inv k n, of "release_addr now (AList.delete k (bucketPeers r)) (pr_NetworkID rec) (pr_VPNAddr rec) net"]
    by (auto simp: RemovePeer_def get_row_def Let_def dropEndpoint_def release_addr_def parse_cidr_def)
qed

lemma sweep_rows_inv:
  assumes "registry_inv r" "\<forall>rec\<in>set stale. map_of (bucketPeers r) (pr_ID rec) = Some (Some rec)" "distinct (map pr_ID stale)"
  shows "registry_inv (fst (sweep_rows skip stale r))"
  using assms
proof (induction stale arbitrary: r)
  case (Cons rec stale)
  show ?case
  proof (cases "skip (pr_ID rec)")
    case False
    have k: "map_of (bucketPeers r) (pr_ID rec) = Some (Some rec)" using Cons.prems by simp
    obtain net where n: "map_of (bucketNetworks r) (pr_NetworkID rec) = Some (Some net)" using row_ok [OF Cons.prems(1) k] by metis
    note c = count_positive [OF Cons.prems(1) k n]
    let ?net = "net\<lparr>nr_MachineCount := nr_MachineCount net - 1\<rparr>"
    let ?r = "r\<lparr>bucketPeers := AList.delete (pr_ID rec) (bucketPeers r),
        bucketNetworks := AList.update (pr_NetworkID rec) (Some ?net) (bucketNetworks r)\<rparr>"
    have "registry_inv ?r"
      by (rule leave_inv [OF Cons.prems(1) k n]) (use c in \<open>simp_all add: parse_cidr_def\<close>)
    moreover have "\<forall>rec\<in>set stale. map_of (bucketPeers ?r) (pr_ID rec) = Some (Some rec)"
    proof
      fix p assume p: "p \<in> set stale"
      then have "pr_ID p \<noteq> pr_ID rec" using Cons.prems(3) by (metis distinct.simps(2) image_eqI list.simps(9) set_map)
      then show "map_of (bucketPeers ?r) (pr_ID p) = Some (Some p)" using Cons.prems(2) p by (simp add: delete_conv')
    qed
    moreover have "distinct (map pr_ID stale)" using Cons.prems(3) by simp
    ultimately have "registry_inv (fst (sweep_rows skip stale ?r))" by (rule Cons.IH)
    moreover have "fst (sweep_rows skip (rec # stale) r) = fst (sweep_rows skip stale ?r)"
      using False n c by (simp add: Let_def split: prod.split)
    ultimately show ?thesis by simp
  qed (use Cons in simp)
qed simp

lemma rows_ids:
  assumes "\<forall>(k, v)\<in>set b. \<exists>rec. v = Some rec \<and> pr_ID rec = k"
  shows "map pr_ID (rows b) = map fst b"
  using assms by (induction b) (auto simp: rows_def map_filter_simps)

lemma inv_row_ids: "registry_inv r \<Longrightarrow> map pr_ID (rows (bucketPeers r)) = map fst (bucketPeers r)"
  using reg_okD(1) [OF inv_rows(3)] inv_rows(2)
  by (intro rows_ids) (fastforce simp: peer_ok_def intro: map_of_is_SomeI)

lemma inv_row_at: "registry_inv r \<Longrightarrow> rec \<in> set (rows (bucketPeers r)) \<Longrightarrow> map_of (bucketPeers r) (pr_ID rec) = Some (Some rec)"
  using rows_map_of [OF inv_rows(2), of r rec] row_endpoint by blast

lemma distinct_ids: "registry_inv r \<Longrightarrow> distinct (map pr_ID (filter P (rows (bucketPeers r))))"
  using inv_row_ids [of r] inv_rows(2) [of r] distinct_map_filter by metis

lemma drop_endpoints: "bucketPeers (fold (\<lambda>rec r. dropEndpoint r (pr_ID rec)) recs r) = bucketPeers r \<and>
    bucketNetworks (fold (\<lambda>rec r. dropEndpoint r (pr_ID rec)) recs r) = bucketNetworks r"
  by (induction recs arbitrary: r) (auto simp: dropEndpoint_def)

lemma SweepStalePeers_inv:
  assumes "registry_inv r"
  shows "registry_inv (fst (SweepStalePeers now ttl skip r))"
proof (cases "ttl \<le> 0")
  case False
  let ?stale = "filter (is_stale (unix_secs (now - ttl))) (rows (bucketPeers r))"
  obtain r' removed where s: "sweep_rows skip ?stale r = (r', removed)" by fastforce
  have "registry_inv (fst (sweep_rows skip ?stale r))"
    by (rule sweep_rows_inv [OF assms _ distinct_ids [OF assms]]) (simp add: inv_row_at [OF assms])
  then show ?thesis using False s by (simp add: SweepStalePeers_def registry_inv_def drop_endpoints)
qed (use assms in \<open>simp add: SweepStalePeers_def\<close>)

lemma NewRegistry_inv:
  assumes inv: "registry_inv r"
  shows "registry_inv (NewRegistry (bucketNetworks r) (bucketPeers r))"
proof -
  have "filter (\<lambda>rec. pr_Endpoint rec \<noteq> []) (rows (bucketPeers r)) = []"
    using row_endpoint [OF inv inv_row_at [OF inv]] by (auto simp: filter_empty_conv)
  then show ?thesis using inv by (simp add: NewRegistry_def blankPersistedEndpoints_def registry_inv_def)
qed

section \<open>Runs\<close>

text \<open>A registry in use: started on an empty database, then any sequence of operations and restarts. \<open>i\<close> is the
  server's clock, a Unix time.\<close>

inductive reg_run :: "Registry \<Rightarrow> bool" where
  start: "reg_run (NewRegistry [] [])"
| restart: "reg_run r \<Longrightarrow> reg_run (NewRegistry (bucketNetworks r) (bucketPeers r))"
| create: "reg_run r \<Longrightarrow> CreateNetwork i r netID cidr name acct = Inr r' \<Longrightarrow> reg_run r'"
| register: "reg_run r \<Longrightarrow> RegisterPeer r p netID mx = Inr (r', a) \<Longrightarrow> reg_run r'"
| touch: "reg_run r \<Longrightarrow> TouchPeer i r pid = Inr r' \<Longrightarrow> reg_run r'"
| update_ep: "reg_run r \<Longrightarrow> reg_UpdateEndpoint i r pid ep = Inr r' \<Longrightarrow> reg_run r'"
| remove: "reg_run r \<Longrightarrow> RemovePeer i r pid = Inr (r', rec) \<Longrightarrow> reg_run r'"
| sweep: "reg_run r \<Longrightarrow> SweepStalePeers t ttl skip r = (r', recs) \<Longrightarrow> reg_run r'"

lemma seen_inv:
  assumes "registry_inv r" "map_of (bucketPeers r) pid = Some (Some rec)"
  shows "registry_inv (r\<lparr>bucketPeers := AList.update pid (Some (rec\<lparr>pr_LastSeen := t\<rparr>)) (bucketPeers r)\<rparr>)"
  by (rule change_inv [OF assms]) (use row_endpoint [OF assms] in auto)

lemma reg_run_inv: "reg_run r \<Longrightarrow> registry_inv r"
proof (induction rule: reg_run.induct)
  case start
  show ?case by (simp add: NewRegistry_def blankPersistedEndpoints_def rows_def map_filter_simps registry_inv_def reg_ok_def)
next
  case (touch r i pid r')
  then show ?case using seen_inv by (auto simp: TouchPeer_def get_row_Inr split: sum.splits)
next
  case (update_ep r i pid ep r')
  then show ?case using seen_inv by (auto simp: reg_UpdateEndpoint_def reg_setEndpoint_def get_row_Inr split: sum.splits)
next
  case (sweep r t ttl skip r' recs)
  then show ?case using SweepStalePeers_inv [of r t ttl skip] by simp
qed (erule NewRegistry_inv, (erule CreateNetwork_inv RegisterPeer_inv RemovePeer_inv, assumption)+)

section \<open>What the registry promises\<close>

lemma ListPeers_inv:
  assumes inv: "registry_inv r"
  shows "ListPeers r n = Inr (applyEndpoints r (filter (\<lambda>rec. pr_NetworkID rec = n) (rows (bucketPeers r))))"
proof -
  have "v \<noteq> None" if "(k, v) \<in> set (bucketPeers r)" for k v
    using reg_okD(1) [OF inv_rows(3) [OF inv]] map_of_is_SomeI [OF inv_rows(2) [OF inv] that] by blast
  then show ?thesis by (auto simp: ListPeers_def list_ex_iff)
qed

lemma member_rows:
  assumes inv: "registry_inv r"
  shows "card (members (map_of (bucketPeers r)) n) = length (filter (\<lambda>rec. pr_NetworkID rec = n) (rows (bucketPeers r)))"
proof -
  let ?ps = "filter (\<lambda>rec. pr_NetworkID rec = n) (rows (bucketPeers r))"
  have "members (map_of (bucketPeers r)) n = set (map pr_ID ?ps)"
    using inv_row_at [OF inv] rows_map_of [OF inv_rows(2) [OF inv]] row_endpoint [OF inv] by (force simp: members_def)
  then show ?thesis using distinct_card [OF distinct_ids [OF inv, of "\<lambda>rec. pr_NetworkID rec = n"]] by simp
qed

lemma applyEndpoints_fields [simp]:
  "map pr_ID (applyEndpoints r ps) = map pr_ID ps" "map pr_VPNAddr (applyEndpoints r ps) = map pr_VPNAddr ps"
  "map pr_Name (applyEndpoints r ps) = map pr_Name ps" "length (applyEndpoints r ps) = length ps"
  by (simp_all add: applyEndpoints_def)

lemma distinct_pairwise: "distinct xs \<longleftrightarrow> sorted_wrt (\<noteq>) xs"
  by (induction xs) auto

lemma no_clash:
  assumes inv: "registry_inv r"
  shows "sorted_wrt (\<lambda>p q. \<not> clash p q) (filter (\<lambda>rec. pr_NetworkID rec = n) (rows (bucketPeers r)))" (is "sorted_wrt _ ?ps")
proof -
  have "\<not> clash (?ps ! i) (?ps ! j)" if "i < j" "j < length ?ps" for i j
  proof
    assume c: "clash (?ps ! i) (?ps ! j)"
    have "?ps ! i \<in> set (rows (bucketPeers r))" "?ps ! j \<in> set (rows (bucketPeers r))"
      using that nth_mem [of i ?ps] nth_mem [of j ?ps] by auto
    then have "pr_ID (?ps ! i) = pr_ID (?ps ! j)" using c reg_okD(2) [OF inv_rows(3) [OF inv]] inv_row_at [OF inv] by blast
    then show False using distinct_ids [OF inv, of "\<lambda>rec. pr_NetworkID rec = n"] that by (auto simp: distinct_conv_nth)
  qed
  then show ?thesis by (simp add: sorted_wrt_iff_nth_less)
qed

text \<open>C11. After any sequence of registry operations, failed ones and restarts included, the peers of a network have
  pairwise different addresses and pairwise different names (letter case aside, a peer may have none); each address lies
  in the network's prefix and is neither its first nor its last; the machine count that limits registrations is the number
  of the peers; and no endpoint is in the database.\<close>

theorem registry_consistent:
  assumes "reg_run r" and "GetNetwork r n = Inr ((i, cidr, name), acct)"
  shows "\<exists>ps. ListPeers r n = Inr ps \<and> NetworkMachineCount r n = Inr (int (length ps)) \<and>
    distinct (map pr_ID ps) \<and> distinct (map pr_VPNAddr ps) \<and>
    sorted_wrt (\<lambda>x y. x = [] \<or> \<not> EqualFold x y) (map pr_Name ps) \<and>
    (\<forall>p\<in>set ps. \<exists>a. pr_VPNAddr p = Canon a \<and> Contains cidr a \<and> Contains cidr (Next a) \<and> a \<noteq> pfx_ip (Masked cidr)) \<and>
    (\<forall>rec\<in>set (rows (bucketPeers r)). pr_Endpoint rec = [])"
proof -
  note inv = reg_run_inv [OF assms(1)]
  let ?ps = "filter (\<lambda>rec. pr_NetworkID rec = n) (rows (bucketPeers r))"
  obtain net where net: "map_of (bucketNetworks r) n = Some (Some net)" and cidr: "parse_cidr net = cidr"
    using assms(2) by (auto simp: GetNetwork_def get_row_Inr parse_cidr_def split: sum.splits option.splits)
  have count: "NetworkMachineCount r n = Inr (int (length ?ps))"
    using reg_okD(3) [OF inv_rows(3) [OF inv] net] net by (simp add: NetworkMachineCount_def get_row_def member_rows [OF inv])
  have addrs: "distinct (map pr_VPNAddr ?ps)"
    unfolding distinct_pairwise sorted_wrt_map
    by (rule sorted_wrt_mono_rel [OF _ no_clash [OF inv, of n]]) (auto simp: clash_def)
  have names: "sorted_wrt (\<lambda>x y. x = [] \<or> \<not> EqualFold x y) (map pr_Name ?ps)"
    unfolding sorted_wrt_map by (rule sorted_wrt_mono_rel [OF _ no_clash [OF inv, of n]]) (auto simp: clash_def)
  have hosts: "\<exists>a. pr_VPNAddr p = Canon a \<and> Contains cidr a \<and> Contains cidr (Next a) \<and> a \<noteq> pfx_ip (Masked cidr)"
    if p: "p \<in> set ?ps" for p
  proof -
    have at: "map_of (bucketPeers r) (pr_ID p) = Some (Some p)" and n: "pr_NetworkID p = n" using inv_row_at [OF inv] p by auto
    obtain net' a where a: "map_of (bucketNetworks r) (pr_NetworkID p) = Some (Some net')" "pr_VPNAddr p = Canon a" "a \<in> set (net_hosts net')"
      by (rule row_ok [OF inv at])
    then have "a \<in> set (hosts cidr (nextIPAfterNetwork (Masked cidr)))" using net n cidr by (simp add: net_hosts_def)
    then show ?thesis using a(2) host_in_network by blast
  qed
  have "\<forall>rec\<in>set (rows (bucketPeers r)). pr_Endpoint rec = []" using row_endpoint [OF inv inv_row_at [OF inv]] by blast
  moreover have "\<forall>p\<in>set (applyEndpoints r ?ps). \<exists>a. pr_VPNAddr p = Canon a \<and> Contains cidr a \<and> Contains cidr (Next a) \<and> a \<noteq> pfx_ip (Masked cidr)"
    using hosts by (auto simp: applyEndpoints_def)
  ultimately show ?thesis
    using ListPeers_inv [OF inv, of n] count addrs names distinct_ids [OF inv] by simp
qed

text \<open>Two peers in a network of two hosts.\<close>

definition example_cidr :: Prefix where
  "example_cidr = \<lparr>pfx_ip = Addr4 0x0a000000, pfx_bits = Some 30\<rparr>"

definition example_peer :: "string \<Rightarrow> peerRecord" where
  "example_peer i = \<lparr>pr_ID = i, pr_NetworkID = [], pr_Name = i, pr_VPNAddr = Raw [] None, pr_Ed25519Public = i, pr_X25519Public = i,
     pr_Endpoint = ''198.51.100.1:51820'', pr_SubnetRoutes = [], pr_LastSeen = 7200, pr_RegisteredAt = 7200\<rparr>"

definition stored_peer :: "string \<Rightarrow> u32 \<Rightarrow> peerRecord" where
  "stored_peer i a = (example_peer i)\<lparr>pr_NetworkID := ''n'', pr_VPNAddr := Canon (Addr4 a), pr_Endpoint := []\<rparr>"

definition example_network :: "u32 \<Rightarrow> int \<Rightarrow> (Addr spelling \<times> int) list \<Rightarrow> networkRecord" where
  "example_network nxt c asg = \<lparr>nr_ID = ''n'', nr_CIDR = Canon example_cidr, nr_Name = ''net'', nr_AccountID = ''acct'',
     nr_NextIP = Canon (Addr4 nxt), nr_MachineCount = c, nr_CreatedAt = 0, nr_AssignedAddrs = Some asg\<rparr>"

definition example_registry :: "Registry" where
  "example_registry = \<lparr>bucketNetworks = [(''n'', Some (example_network 0x0a000003 2 [(Canon (Addr4 0x0a000001), 0), (Canon (Addr4 0x0a000002), 0)]))],
     bucketPeers = [(''p'', Some (stored_peer ''p'' 0x0a000001)), (''q'', Some (stored_peer ''q'' 0x0a000002))],
     reg_endpoints = [''p'' \<mapsto> ''198.51.100.1:51820'', ''q'' \<mapsto> ''198.51.100.1:51820'']\<rparr>"

lemma example_masked: "Masked example_cidr = example_cidr"
  by (simp add: Masked_def PrefixFrom_def example_cidr_def mask_eq_exp_minus_1)

lemma example_parse [simp]: "parse_cidr (example_network nxt c asg) = example_cidr"
  by (simp add: parse_cidr_def example_network_def example_cidr_def Prefix_IsValid_def)

lemma example_host_list: "hosts example_cidr (nextIPAfterNetwork (Masked example_cidr)) = [Addr4 0x0a000001, Addr4 0x0a000002]"
  unfolding example_masked nextIPAfterNetwork_def
  by (simp add: example_cidr_def hosts.simps Contains_def)

lemma example_register:
  assumes "pick_addr (used_addrs (bucketPeers r) ''n'') (example_network nxt c asg) = Some (Addr4 a)"
    and "map_of (bucketNetworks r) ''n'' = Some (Some (example_network nxt c asg))" "map_of (bucketPeers r) i = None"
    and "\<not> nameTaken (bucketPeers r) ''n'' i i"
  shows "RegisterPeer r (example_peer i) ''n'' 0 =
    Inr (r\<lparr>bucketNetworks := AList.update ''n'' (Some (take_addr (example_network nxt c asg) (Addr4 a))) (bucketNetworks r),
           bucketPeers := AList.update i (Some (stored_peer i a)) (bucketPeers r),
           reg_endpoints := (reg_endpoints r)(i \<mapsto> ''198.51.100.1:51820'')\<rparr>, Addr4 a)"
  using assms
  by (simp add: RegisterPeer_def register_new_def get_row_def reg_setEndpoint_def example_peer_def stored_peer_def Let_def
      roundToHour_def lastSeenGranularity_def example_network_def)

lemma example_take:
  "take_addr (example_network 0x0a000001 0 []) (Addr4 0x0a000001) = example_network 0x0a000002 1 [(Canon (Addr4 0x0a000001), 0)]"
  "take_addr (example_network 0x0a000002 1 [(Canon (Addr4 0x0a000001), 0)]) (Addr4 0x0a000002) =
     example_network 0x0a000003 2 [(Canon (Addr4 0x0a000001), 0), (Canon (Addr4 0x0a000002), 0)]"
  by (simp_all add: take_addr_def Let_def) (simp_all add: example_network_def example_cidr_def Contains_def Addr_less_def)

lemma example_registry_run: "reg_run example_registry"
proof -
  let ?e = "''198.51.100.1:51820''"
  let ?r0 = "\<lparr>bucketNetworks = [(''n'', Some (example_network 0x0a000001 0 []))], bucketPeers = [], reg_endpoints = Map.empty\<rparr>"
  let ?r1 = "\<lparr>bucketNetworks = [(''n'', Some (example_network 0x0a000002 1 [(Canon (Addr4 0x0a000001), 0)]))],
     bucketPeers = [(''p'', Some (stored_peer ''p'' 0x0a000001))], reg_endpoints = [''p'' \<mapsto> ?e]\<rparr>"
  have "CreateNetwork 0 (NewRegistry [] []) ''n'' example_cidr ''net'' ''acct'' = Inr ?r0"
    by (simp add: CreateNetwork_def NewRegistry_def blankPersistedEndpoints_def rows_def map_filter_simps example_network_def
        nextIPAfterNetwork_def example_cidr_def)
  then have r0: "reg_run ?r0" by (rule reg_run.create [OF reg_run.start])
  have "RegisterPeer ?r0 (example_peer ''p'') ''n'' 0 = Inr (?r1, Addr4 0x0a000001)"
    by (subst example_register [where a = "0x0a000001" and nxt = "0x0a000001" and c = 0 and asg = "[]"])
      (simp_all add: pick_addr_def Let_def example_host_list used_addrs_def rows_def map_filter_simps nameTaken_def example_take,
       simp add: example_network_def)
  then have r1: "reg_run ?r1" by (rule reg_run.register [OF r0])
  have "RegisterPeer ?r1 (example_peer ''q'') ''n'' 0 = Inr (example_registry, Addr4 0x0a000002)"
    by (subst example_register [where a = "0x0a000002" and nxt = "0x0a000002" and c = 1 and asg = "[(Canon (Addr4 0x0a000001), 0)]"])
      (simp_all add: pick_addr_def Let_def example_host_list used_addrs_def rows_def map_filter_simps nameTaken_def example_take
         stored_peer_def example_peer_def example_registry_def EqualFold_def ToLower_def lower_char_def char_of_def,
       simp_all add: example_network_def)
  then show ?thesis by (rule reg_run.register [OF r1])
qed

lemma example_GetNetwork: "GetNetwork example_registry ''n'' = Inr ((''n'', example_cidr, ''net''), ''acct'')"
  by (simp add: GetNetwork_def get_row_def example_registry_def example_network_def Prefix_IsValid_def example_cidr_def)

text \<open>C11, witness: the registry with two peers.\<close>

theorem registry_consistent_witness:
  "reg_run example_registry \<and> (\<exists>ps. ListPeers example_registry ''n'' = Inr ps \<and>
     NetworkMachineCount example_registry ''n'' = Inr (int (length ps)) \<and> distinct (map pr_VPNAddr ps))"
  using registry_consistent [OF example_registry_run example_GetNetwork] example_registry_run by blast

text \<open>The allocation loop stops at the first host that was never assigned; if there is none it has the host freed
  longest ago.\<close>

lemma scan_first: "fst (scan_hosts used asg as old) = find (\<lambda>x. x \<notin> set used \<and> map_of asg (Canon x) = None) as"
  by (induction as arbitrary: old) (auto split: option.splits)

lemma find_filter: "find P (filter Q xs) = find (\<lambda>x. Q x \<and> P x) xs"
  by (induction xs) auto

lemma scan_oldest:
  assumes "scan_hosts used asg as old = (None, o')"
  shows "case o' of
      None \<Rightarrow> old = None \<and> (\<forall>x\<in>set as. x \<notin> set used \<longrightarrow> (\<exists>u\<le>0. map_of asg (Canon x) = Some u))
    | Some (a, t) \<Rightarrow> (old = Some (a, t) \<or> a \<in> set as \<and> a \<notin> set used \<and> 0 < t \<and> map_of asg (Canon a) = Some t) \<and>
        (\<forall>b u. old = Some (b, u) \<longrightarrow> t \<le> u) \<and>
        (\<forall>x\<in>set as. x \<notin> set used \<longrightarrow> (\<exists>u. map_of asg (Canon x) = Some u \<and> (0 < u \<longrightarrow> t \<le> u)))"
  using assms
proof (induction as arbitrary: old)
  case Nil
  then show ?case by (auto split: option.splits)
next
  case (Cons x as)
  show ?case
  proof (cases "x \<in> set used")
    case True
    then show ?thesis using Cons.IH [of old] Cons.prems by (auto split: option.splits)
  next
    case False
    then obtain f where f: "map_of asg (Canon x) = Some f" using Cons.prems by (auto split: option.splits)
    show ?thesis
    proof (cases "0 < f \<and> (case old of None \<Rightarrow> True | Some (_, t) \<Rightarrow> f < t)")
      case True
      then have "scan_hosts used asg as (Some (x, f)) = (None, o')" using Cons.prems False f by simp
      then show ?thesis using Cons.IH True False f by (fastforce split: option.splits)
    next
      case False2: False
      then have "scan_hosts used asg as old = (None, o')" using Cons.prems False f by (auto split: if_splits)
      then show ?thesis using Cons.IH False2 False f by (fastforce split: option.splits)
    qed
  qed
qed



section \<open>Addresses of swept peers\<close>

definition swept_registry :: Registry where
  "swept_registry = \<lparr>bucketNetworks = [(''n'', Some (example_network 0x0a000003 0 [(Canon (Addr4 0x0a000001), 0), (Canon (Addr4 0x0a000002), 0)]))],
     bucketPeers = [], reg_endpoints = Map.empty\<rparr>"

lemma example_sweep:
  "SweepStalePeers (1000000 * second) second (\<lambda>_. False) example_registry =
     (swept_registry, [stored_peer ''p'' 0x0a000001, stored_peer ''q'' 0x0a000002])"
proof -
  have count: "(example_network nxt c asg)\<lparr>nr_MachineCount := c'\<rparr> = example_network nxt c' asg"
    "nr_MachineCount (example_network nxt c asg) = c" for nxt c asg c' by (simp_all add: example_network_def)
  have stale: "is_stale (unix_secs (1000000 * second - second)) (stored_peer i a)" for i a
    by (simp add: is_stale_def stored_peer_def example_peer_def unix_secs_def)
  have "sweep_rows (\<lambda>_. False) [stored_peer ''p'' 0x0a000001, stored_peer ''q'' 0x0a000002] example_registry =
      (swept_registry\<lparr>reg_endpoints := reg_endpoints example_registry\<rparr>, [stored_peer ''p'' 0x0a000001, stored_peer ''q'' 0x0a000002])"
    by (simp add: example_registry_def swept_registry_def Let_def stored_peer_def example_peer_def count)
  moreover have "rows (bucketPeers example_registry) = [stored_peer ''p'' 0x0a000001, stored_peer ''q'' 0x0a000002]"
    by (simp add: example_registry_def rows_def map_filter_simps)
  moreover have "\<not> second \<le> (0 :: int)" by simp
  ultimately show ?thesis using stale
    by (simp add: SweepStalePeers_def dropEndpoint_def) (simp add: swept_registry_def example_registry_def stored_peer_def example_peer_def fun_eq_iff)
qed


end
