(* ===== verification/Bus.thy ===== *)
theory Bus
  imports Veld_Prelude "HOL-Library.AList"
begin

text \<open>
  The event bus of the coordination server, \<open>coord/server/bus.go\<close>: events for the watchers of a network, signals
  from peer to peer, and the signals held for a peer that has registered but does not watch yet.

  A channel is a number; the contents of the channels are part of the state, as what was sent and not yet received. The two
  kinds of channels are numbered together. An operation holds the lock throughout, so it is one step, \<open>SendSignal\<close> apart:
  it gives the lock up between looking for subscribers and holding the signal, and these are two steps
  (\<open>send_read\<close>, \<open>send_hold\<close>) with whatever other calls do in between. \<open>'e\<close> is the type of events.
\<close>

section \<open>State and operations\<close>

record signalMsg =
  FromPeerID :: string
  ToPeerID :: string
  Payload :: bytes

definition pendingSignalTTL :: duration where "pendingSignalTTL = 30 * second"
definition maxPendingPerPeer :: nat where "maxPendingPerPeer = 16"
definition maxPendingRecipients :: nat where "maxPendingRecipients = 4096"
definition chan_cap :: nat where "chan_cap = 64"

record pendingSignal =
  ps_msg :: signalMsg
  ps_at :: gotime

record 'e Bus =
  b_subscribers :: "string \<Rightarrow> nat list"
  b_signals :: "string \<Rightarrow> nat list"
  b_pending :: "(string \<times> pendingSignal list) list"
  ev_buf :: "nat \<Rightarrow> 'e list"
  sig_buf :: "nat \<Rightarrow> signalMsg list"
  next_chan :: nat

definition NewBus :: "'e Bus" where
  "NewBus = \<lparr>b_subscribers = (\<lambda>_. []), b_signals = (\<lambda>_. []), b_pending = [], ev_buf = (\<lambda>_. []), sig_buf = (\<lambda>_. []), next_chan = 0\<rparr>"

definition Subscribe :: "'e Bus \<Rightarrow> string \<Rightarrow> 'e Bus \<times> nat" where
  "Subscribe b networkID =
     (let ch = next_chan b
      in (b\<lparr>b_subscribers := (b_subscribers b)(networkID := b_subscribers b networkID @ [ch]),
            ev_buf := (ev_buf b)(ch := []), next_chan := ch + 1\<rparr>, ch))"

definition Unsubscribe :: "'e Bus \<Rightarrow> string \<Rightarrow> nat \<Rightarrow> 'e Bus" where
  "Unsubscribe b networkID ch = b\<lparr>b_subscribers := (b_subscribers b)(networkID := remove1 ch (b_subscribers b networkID))\<rparr>"

text \<open>A send that does not wait: what does not fit is dropped.\<close>

definition try_send :: "'a \<Rightarrow> nat \<Rightarrow> (nat \<Rightarrow> 'a list) \<Rightarrow> nat \<Rightarrow> 'a list" where
  "try_send x ch buf = (if length (buf ch) < chan_cap then buf(ch := buf ch @ [x]) else buf)"

definition Publish :: "'e Bus \<Rightarrow> string \<Rightarrow> 'e \<Rightarrow> 'e Bus" where
  "Publish b networkID ev = b\<lparr>ev_buf := fold (try_send ev) (b_subscribers b networkID) (ev_buf b)\<rparr>"

definition held_for :: "'e Bus \<Rightarrow> string \<Rightarrow> pendingSignal list" where
  "held_for b peerID = (case map_of (b_pending b) peerID of None \<Rightarrow> [] | Some held \<Rightarrow> held)"

definition live :: "gotime \<Rightarrow> pendingSignal \<Rightarrow> bool" where
  "live now p \<longleftrightarrow> ps_at p > now - pendingSignalTTL"

text \<open>Here a send waits for room. None: it would wait forever, the channel being known to no one else.\<close>

definition SubscribeSignals :: "gotime \<Rightarrow> 'e Bus \<Rightarrow> string \<Rightarrow> ('e Bus \<times> nat) option" where
  "SubscribeSignals now b peerID =
     (let ch = next_chan b; msgs = map ps_msg (filter (live now) (held_for b peerID))
      in if length msgs > chan_cap then None
         else Some (b\<lparr>b_pending := AList.delete peerID (b_pending b),
                      b_signals := (b_signals b)(peerID := b_signals b peerID @ [ch]),
                      sig_buf := (sig_buf b)(ch := msgs), next_chan := ch + 1\<rparr>, ch))"

definition UnsubscribeSignals :: "'e Bus \<Rightarrow> string \<Rightarrow> nat \<Rightarrow> 'e Bus" where
  "UnsubscribeSignals b peerID ch = b\<lparr>b_signals := (b_signals b)(peerID := remove1 ch (b_signals b peerID))\<rparr>"

definition expired_list :: "gotime \<Rightarrow> pendingSignal list \<Rightarrow> bool" where
  "expired_list now held \<longleftrightarrow> held = [] \<or> \<not> live now (last held)"

definition keep_newest :: "nat \<Rightarrow> 'a list \<Rightarrow> 'a list" where
  "keep_newest n xs = drop (length xs - n) xs"

definition holdLocked :: "gotime \<Rightarrow> 'e Bus \<Rightarrow> signalMsg \<Rightarrow> 'e Bus" where
  "holdLocked now b msg =
     (let to = ToPeerID msg;
          full = map_of (b_pending b) to = None \<and> length (b_pending b) \<ge> maxPendingRecipients;
          b = (if full then b\<lparr>b_pending := filter (\<lambda>(_, held). \<not> expired_list now held) (b_pending b)\<rparr> else b)
      in if full \<and> length (b_pending b) \<ge> maxPendingRecipients then b
         else b\<lparr>b_pending := AList.update to
                  (keep_newest maxPendingPerPeer (filter (live now) (held_for b to) @ [\<lparr>ps_msg = msg, ps_at = now\<rparr>])) (b_pending b)\<rparr>)"

definition deliver :: "'e Bus \<Rightarrow> signalMsg \<Rightarrow> 'e Bus" where
  "deliver b msg = b\<lparr>sig_buf := fold (try_send msg) (b_signals b (ToPeerID msg)) (sig_buf b)\<rparr>"

text \<open>Under the read lock; the second component tells whether the signal is still to be held.\<close>

definition send_read :: "'e Bus \<Rightarrow> signalMsg \<Rightarrow> bool \<Rightarrow> 'e Bus \<times> bool" where
  "send_read b msg hold = (if b_signals b (ToPeerID msg) = [] then (b, hold) else (deliver b msg, False))"

definition send_hold :: "gotime \<Rightarrow> 'e Bus \<Rightarrow> signalMsg \<Rightarrow> 'e Bus" where
  "send_hold now b msg = (if b_signals b (ToPeerID msg) = [] then holdLocked now b msg else deliver b msg)"

definition SendSignal :: "gotime \<Rightarrow> 'e Bus \<Rightarrow> string \<Rightarrow> string \<Rightarrow> bytes \<Rightarrow> bool \<Rightarrow> 'e Bus" where
  "SendSignal now b from to payload hold =
     (let msg = \<lparr>FromPeerID = from, ToPeerID = to, Payload = payload\<rparr>
      in case send_read b msg hold of (b, pend) \<Rightarrow> if pend then send_hold now b msg else b)"

definition DropPendingSignals :: "'e Bus \<Rightarrow> string \<Rightarrow> 'e Bus" where
  "DropPendingSignals b peerID = b\<lparr>b_pending := AList.delete peerID (b_pending b)\<rparr>"

text \<open>The owner of a channel receives.\<close>

definition recv_event :: "'e Bus \<Rightarrow> nat \<Rightarrow> 'e Bus" where
  "recv_event b ch = b\<lparr>ev_buf := (ev_buf b)(ch := tl (ev_buf b ch))\<rparr>"

definition recv_signal :: "'e Bus \<Rightarrow> nat \<Rightarrow> 'e Bus" where
  "recv_signal b ch = b\<lparr>sig_buf := (sig_buf b)(ch := tl (sig_buf b ch))\<rparr>"

section \<open>Runs\<close>

text \<open>The steps, each at a time \<open>now\<close>. The second step of a \<open>SendSignal\<close> may come at any time: a run of these steps
  need not pair it with the first.\<close>

datatype 'e bus_op = OpSubscribe string | OpUnsubscribe string nat | OpPublish string 'e | OpSubscribeSignals string
  | OpUnsubscribeSignals string nat | OpRead signalMsg bool | OpHold signalMsg | OpDrop string | OpRecvEvent nat | OpRecvSignal nat

fun bus_do :: "gotime \<Rightarrow> 'e bus_op \<Rightarrow> 'e Bus \<Rightarrow> 'e Bus option" where
  "bus_do now (OpSubscribe n) b = Some (fst (Subscribe b n))"
| "bus_do now (OpUnsubscribe n ch) b = Some (Unsubscribe b n ch)"
| "bus_do now (OpPublish n ev) b = Some (Publish b n ev)"
| "bus_do now (OpSubscribeSignals p) b = map_option fst (SubscribeSignals now b p)"
| "bus_do now (OpUnsubscribeSignals p ch) b = Some (UnsubscribeSignals b p ch)"
| "bus_do now (OpRead msg hold) b = Some (fst (send_read b msg hold))"
| "bus_do now (OpHold msg) b = Some (send_hold now b msg)"
| "bus_do now (OpDrop p) b = Some (DropPendingSignals b p)"
| "bus_do now (OpRecvEvent ch) b = Some (recv_event b ch)"
| "bus_do now (OpRecvSignal ch) b = Some (recv_signal b ch)"

fun bus_run :: "(gotime \<times> 'e bus_op) list \<Rightarrow> 'e Bus \<Rightarrow> 'e Bus option" where
  "bus_run [] b = Some b"
| "bus_run ((now, x) # ops) b = (case bus_do now x b of None \<Rightarrow> None | Some b \<Rightarrow> bus_run ops b)"

section \<open>Bounds\<close>

definition bus_inv :: "'e Bus \<Rightarrow> bool" where
  "bus_inv b \<longleftrightarrow> distinct (map fst (b_pending b)) \<and> length (b_pending b) \<le> maxPendingRecipients \<and>
     (\<forall>(k, held)\<in>set (b_pending b). length held \<le> maxPendingPerPeer) \<and>
     (\<forall>ch. length (ev_buf b ch) \<le> chan_cap) \<and> (\<forall>ch. length (sig_buf b ch) \<le> chan_cap)"

lemma try_send_cap: "\<forall>ch. length (buf ch) \<le> chan_cap \<Longrightarrow> \<forall>ch. length (try_send x c buf ch) \<le> chan_cap"
  by (auto simp: try_send_def)

lemma fold_try_send_cap: "\<forall>ch. length (buf ch) \<le> chan_cap \<Longrightarrow> \<forall>ch. length (fold (try_send x) chs buf ch) \<le> chan_cap"
  by (induction chs arbitrary: buf) (auto simp: try_send_cap)

lemma length_keep_newest [simp]: "length (keep_newest n xs) = min n (length xs)"
  by (auto simp: keep_newest_def)

lemma length_update: "length (AList.update k v al) = (if k \<in> fst ` set al then length al else Suc (length al))"
  by (induction al) auto

lemma held_for_bound: "bus_inv b \<Longrightarrow> length (held_for b p) \<le> maxPendingPerPeer"
  by (auto simp: bus_inv_def held_for_def split: option.splits dest!: map_of_SomeD)

lemma set_update_cases: "x \<in> set (AList.update k v al) \<Longrightarrow> x = (k, v) \<or> x \<in> set al"
  by (induction al) (auto split: if_splits)

lemma holdLocked_inv:
  assumes "bus_inv b"
  shows "bus_inv (holdLocked now b msg)"
proof -
  define full where "full \<longleftrightarrow> map_of (b_pending b) (ToPeerID msg) = None \<and> length (b_pending b) \<ge> maxPendingRecipients"
  define b1 where "b1 = (if full then b\<lparr>b_pending := filter (\<lambda>(_, held). \<not> expired_list now held) (b_pending b)\<rparr> else b)"
  have i1: "bus_inv b1" using assms
    by (auto simp: b1_def bus_inv_def distinct_map_filter intro: order.trans [OF length_filter_le])
  let ?new = "keep_newest maxPendingPerPeer (filter (live now) (held_for b1 (ToPeerID msg)) @ [\<lparr>ps_msg = msg, ps_at = now\<rparr>])"
  have eq: "holdLocked now b msg = (if full \<and> length (b_pending b1) \<ge> maxPendingRecipients then b1
      else b1\<lparr>b_pending := AList.update (ToPeerID msg) ?new (b_pending b1)\<rparr>)"
    unfolding holdLocked_def Let_def full_def b1_def by (rule refl)
  show ?thesis
  proof (cases "full \<and> length (b_pending b1) \<ge> maxPendingRecipients")
    case True
    then show ?thesis unfolding eq using i1 by simp
  next
    case False
    have room: "ToPeerID msg \<in> fst ` set (b_pending b1) \<or> length (b_pending b1) < maxPendingRecipients"
      using False by (auto simp: full_def b1_def map_of_eq_None_iff)
    have "bus_inv (b1\<lparr>b_pending := AList.update (ToPeerID msg) ?new (b_pending b1)\<rparr>)"
      using i1 room unfolding bus_inv_def by (auto simp: distinct_update length_update dest!: set_update_cases)
    then show ?thesis unfolding eq if_not_P [OF False] .
  qed
qed

lemma deliver_inv: "bus_inv b \<Longrightarrow> bus_inv (deliver b msg)"
  by (simp add: bus_inv_def deliver_def fold_try_send_cap)

lemma delete_members: "x \<in> set (AList.delete k al) \<longleftrightarrow> x \<in> set al \<and> fst x \<noteq> k"
  by (auto simp: AList.delete_eq)

lemma subscribe_signals_some: "bus_inv b \<Longrightarrow> \<exists>b' ch. SubscribeSignals now b p = Some (b', ch)"
  using order.trans [OF length_filter_le held_for_bound, of b "live now" p]
  by (simp add: SubscribeSignals_def Let_def maxPendingPerPeer_def chan_cap_def)

lemma SubscribeSignals_inv: "bus_inv b \<Longrightarrow> SubscribeSignals now b p = Some (b', ch) \<Longrightarrow> bus_inv b'"
  by (auto simp: SubscribeSignals_def Let_def bus_inv_def distinct_delete delete_members split: if_splits
      intro: order.trans [OF length_delete_le])

lemma bus_do_inv:
  assumes "bus_inv b"
  shows "\<exists>b'. bus_do now x b = Some b' \<and> bus_inv b'"
proof (cases x)
  case (OpSubscribeSignals p)
  then show ?thesis using subscribe_signals_some [OF assms, of now p] SubscribeSignals_inv [OF assms] by fastforce
next
  case (OpRead msg hold)
  then show ?thesis using assms by (simp add: send_read_def deliver_inv)
next
  case (OpHold msg)
  then show ?thesis using assms by (simp add: send_hold_def deliver_inv holdLocked_inv)
next
  case (OpDrop p)
  then show ?thesis using assms
    by (auto simp: DropPendingSignals_def bus_inv_def distinct_delete delete_members intro: order.trans [OF length_delete_le])
next
  case (OpRecvEvent ch)
  then show ?thesis using assms by (auto simp: recv_event_def bus_inv_def intro: le_trans [OF diff_le_self])
next
  case (OpRecvSignal ch)
  then show ?thesis using assms by (auto simp: recv_signal_def bus_inv_def intro: le_trans [OF diff_le_self])
qed (use assms in \<open>auto simp: bus_inv_def Subscribe_def Unsubscribe_def Publish_def UnsubscribeSignals_def Let_def fold_try_send_cap\<close>)

lemma bus_run_inv: "bus_inv b \<Longrightarrow> \<exists>b'. bus_run ops b = Some b' \<and> bus_inv b'"
proof (induction ops arbitrary: b)
  case (Cons a ops)
  obtain now x where "a = (now, x)" by fastforce
  then show ?case using bus_do_inv [OF Cons.prems, of now x] Cons.IH by fastforce
qed simp

lemma NewBus_inv: "bus_inv NewBus"
  by (simp add: bus_inv_def NewBus_def)

text \<open>C34. However calls interleave, no operation of the bus waits forever, the signals held are at most 16 for a peer
  and those of at most 4096 peers, and no channel holds more than 64.\<close>

theorem bus_bounded:
  "\<exists>b. bus_run ops NewBus = Some b \<and> length (b_pending b) \<le> 4096 \<and> length (held_for b p) \<le> 16 \<and>
     length (ev_buf b ch) \<le> 64 \<and> length (sig_buf b ch) \<le> 64"
proof -
  obtain b where b: "bus_run ops NewBus = Some b" "bus_inv b" using bus_run_inv [OF NewBus_inv] by blast
  then show ?thesis using held_for_bound [OF b(2), of p]
    by (auto simp: bus_inv_def maxPendingRecipients_def maxPendingPerPeer_def chan_cap_def)
qed

section \<open>Signals wait for the recipient\<close>

text \<open>The signals for a peer that reached the second step, with their times.\<close>

fun holds :: "string \<Rightarrow> (gotime \<times> 'e bus_op) list \<Rightarrow> pendingSignal list" where
  "holds to [] = []"
| "holds to ((now, OpHold msg) # ops) = (if ToPeerID msg = to then [\<lparr>ps_msg = msg, ps_at = now\<rparr>] else []) @ holds to ops"
| "holds to (_ # ops) = holds to ops"

fun count_holds :: "(gotime \<times> 'e bus_op) list \<Rightarrow> nat" where
  "count_holds [] = 0"
| "count_holds ((now, OpHold msg) # ops) = Suc (count_holds ops)"
| "count_holds (_ # ops) = count_holds ops"

lemma live_suffix:
  assumes "sorted (map ps_at xs)"
  obtains ys where "xs = ys @ filter (live now) xs" "\<forall>p\<in>set ys. \<not> live now p"
proof -
  have "filter (live now) xs = dropWhile (\<lambda>p. \<not> live now p) xs"
    using assms
  proof (induction xs)
    case (Cons a xs)
    show ?case
    proof (cases "live now a")
      case True
      then have "\<forall>p\<in>set (a # xs). live now p" using Cons.prems by (fastforce simp: live_def)
      then show ?thesis using True by (simp add: filter_id_conv)
    qed (use Cons in simp)
  qed simp
  then show thesis using that [of "takeWhile (\<lambda>p. \<not> live now p) xs"] by (metis set_takeWhileD takeWhile_dropWhile_id)
qed

lemma keep_newest_append: "keep_newest n (keep_newest n xs @ ys) = keep_newest n (xs @ ys)"
  by (cases "length xs \<le> n") (auto simp: keep_newest_def add.commute)

lemma keep_newest_live:
  assumes "sorted (map ps_at xs)" "now \<le> t"
  shows "filter (live t) (keep_newest n (filter (live now) xs @ [p])) = filter (live t) (keep_newest n (xs @ [p]))"
proof -
  obtain ys where x: "xs = ys @ filter (live now) xs" and y: "\<forall>p\<in>set ys. \<not> live now p" by (rule live_suffix [OF assms(1)])
  let ?zs = "filter (live now) xs @ [p]"
  have dead: "filter (live t) (drop k ys) = []" for k
    using y assms(2) set_drop_subset [of k ys] by (fastforce simp: filter_empty_conv live_def)
  have "keep_newest n (ys @ ?zs) = drop (length ys + length ?zs - n) ys @ keep_newest n ?zs"
    by (auto simp: keep_newest_def)
  then show ?thesis using dead x by (metis append.assoc append_Nil filter_append)
qed

text \<open>What is held for \<open>to\<close>, as far as it has not expired, are the newest of the signals \<open>hs\<close>.\<close>

definition awaits :: "string \<Rightarrow> gotime \<Rightarrow> pendingSignal list \<Rightarrow> 'e Bus \<Rightarrow> bool" where
  "awaits to now hs b \<longleftrightarrow> b_signals b to = [] \<and> sorted (map ps_at hs) \<and> (\<forall>p\<in>set hs. ps_at p \<le> now) \<and>
     (\<forall>t\<ge>now. filter (live t) (held_for b to) = filter (live t) (keep_newest maxPendingPerPeer hs))"

lemma awaitsD:
  assumes "awaits to now hs b"
  shows "b_signals b to = []" "sorted (map ps_at hs)" "p \<in> set hs \<Longrightarrow> ps_at p \<le> now"
    "now \<le> t \<Longrightarrow> filter (live t) (held_for b to) = filter (live t) (keep_newest maxPendingPerPeer hs)"
  using assms by (simp_all add: awaits_def)

lemma awaits_frame:
  assumes "awaits to now hs b" "now \<le> now'" "b_signals b' to = b_signals b to" "held_for b' to = held_for b to"
  shows "awaits to now' hs b'"
  using assms by (auto simp: awaits_def)

lemma hold_room: "length (b_pending b) < maxPendingRecipients \<Longrightarrow>
   holdLocked now b msg = b\<lparr>b_pending := AList.update (ToPeerID msg)
     (keep_newest maxPendingPerPeer (filter (live now) (held_for b (ToPeerID msg)) @ [\<lparr>ps_msg = msg, ps_at = now\<rparr>])) (b_pending b)\<rparr>"
  by (simp add: holdLocked_def Let_def)

lemma awaits_hold:
  assumes a: "awaits to now hs b" and "now \<le> now'" and room: "length (b_pending b) < maxPendingRecipients" and to: "ToPeerID msg = to"
  shows "awaits to now' (hs @ [\<lparr>ps_msg = msg, ps_at = now'\<rparr>]) (holdLocked now' b msg)"
proof -
  let ?p = "\<lparr>ps_msg = msg, ps_at = now'\<rparr>" and ?n = maxPendingPerPeer
  have s: "sorted (map ps_at (keep_newest ?n hs))"
    using awaitsD(2) [OF a] by (simp add: keep_newest_def drop_map [symmetric] sorted_wrt_drop)
  have held: "held_for (holdLocked now' b msg) to = keep_newest ?n (filter (live now') (keep_newest ?n hs) @ [?p])"
    using awaitsD(4) [OF a assms(2)] by (simp add: hold_room [OF room] held_for_def update_conv' to)
  have "filter (live t) (held_for (holdLocked now' b msg) to) = filter (live t) (keep_newest ?n (hs @ [?p]))" if "now' \<le> t" for t
    unfolding held keep_newest_live [OF s that] keep_newest_append ..
  moreover have "b_signals (holdLocked now' b msg) to = []" using awaitsD(1) [OF a] by (simp add: hold_room [OF room])
  ultimately show ?thesis using awaitsD(2,3) [OF a] assms(2) by (fastforce simp: awaits_def sorted_append)
qed

text \<open>Steps of calls that neither open nor drop what is held for \<open>to\<close>.\<close>

fun leaves :: "string \<Rightarrow> 'e bus_op \<Rightarrow> bool" where
  "leaves to (OpSubscribeSignals p) = (p \<noteq> to)"
| "leaves to (OpDrop p) = (p \<noteq> to)"
| "leaves to _ = True"

lemma bus_do_awaits:
  assumes a: "awaits to now hs b" and n: "now \<le> now'" and l: "leaves to x" and d: "bus_do now' x b = Some b'"
    and room: "length (b_pending b) + count_holds [(now', x)] \<le> maxPendingRecipients"
  shows "awaits to now' (hs @ holds to [(now', x)]) b' \<and> length (b_pending b') \<le> length (b_pending b) + count_holds [(now', x)]"
proof (cases x)
  case (OpHold msg)
  have r: "length (b_pending b) < maxPendingRecipients" using room OpHold by simp
  have b': "b' = send_hold now' b msg" using d OpHold by simp
  show ?thesis
  proof (cases "ToPeerID msg = to")
    case True
    then show ?thesis using awaits_hold [OF a n r True] awaitsD(1) [OF a] OpHold
      by (auto simp: b' send_hold_def hold_room [OF r] length_update)
  next
    case False
    have "held_for b' to = held_for b to" "b_signals b' to = b_signals b to" "length (b_pending b') \<le> length (b_pending b) + 1"
      using False by (auto simp: b' send_hold_def hold_room [OF r] deliver_def held_for_def update_conv' length_update)
    then show ?thesis using awaits_frame [OF a n] OpHold False by simp
  qed
next
  case (OpSubscribeSignals p)
  have "held_for b' to = held_for b to" "b_signals b' to = b_signals b to" "length (b_pending b') \<le> length (b_pending b)"
    using d OpSubscribeSignals l length_delete_le [of p "b_pending b"]
    by (auto simp: SubscribeSignals_def Let_def held_for_def delete_conv' split: if_splits)
  then show ?thesis using awaits_frame [OF a n] OpSubscribeSignals by simp
next
  case (OpDrop p)
  have "held_for b' to = held_for b to" "b_signals b' to = b_signals b to" "length (b_pending b') \<le> length (b_pending b)"
    using d OpDrop l length_delete_le [of p "b_pending b"] by (auto simp: DropPendingSignals_def held_for_def delete_conv')
  then show ?thesis using awaits_frame [OF a n] OpDrop by simp
next
  case (OpUnsubscribeSignals p ch)
  have "held_for b' to = held_for b to" "b_signals b' to = b_signals b to" "length (b_pending b') \<le> length (b_pending b)"
    using d OpUnsubscribeSignals awaitsD(1) [OF a] by (auto simp: UnsubscribeSignals_def held_for_def)
  then show ?thesis using awaits_frame [OF a n] OpUnsubscribeSignals by simp
qed (use d in \<open>auto simp: Subscribe_def Unsubscribe_def Publish_def send_read_def deliver_def recv_event_def
       recv_signal_def held_for_def Let_def intro!: awaits_frame [OF a n]\<close>)

lemma holds_Cons: "holds to (x # ops) = holds to [x] @ holds to ops"
  by (cases x rule: prod.exhaust; cases "snd x") auto

lemma count_holds_Cons: "count_holds (x # ops) = count_holds [x] + count_holds ops"
  by (cases x rule: prod.exhaust; cases "snd x") auto

lemma bus_run_awaits:
  assumes "awaits to now hs b" "sorted (now # map fst ops)" "\<forall>x\<in>snd ` set ops. leaves to x" "bus_run ops b = Some b'"
    "length (b_pending b) + count_holds ops \<le> maxPendingRecipients"
  shows "\<exists>now'. now' \<in> set (now # map fst ops) \<and> awaits to now' (hs @ holds to ops) b'"
  using assms
proof (induction ops arbitrary: now hs b)
  case (Cons a ops)
  obtain u x where a: "a = (u, x)" by fastforce
  obtain b1 where d: "bus_do u x b = Some b1" and r: "bus_run ops b1 = Some b'"
    using Cons.prems(4) by (auto simp: a split: option.splits)
  have c: "count_holds (a # ops) = count_holds [(u, x)] + count_holds ops" using count_holds_Cons [of a ops] a by simp
  have s: "awaits to u (hs @ holds to [(u, x)]) b1" "length (b_pending b1) \<le> length (b_pending b) + count_holds [(u, x)]"
    using bus_do_awaits [OF Cons.prems(1) _ _ d] Cons.prems(2,3,5) c by (auto simp: a)
  have "\<exists>now'. now' \<in> set (u # map fst ops) \<and> awaits to now' ((hs @ holds to [(u, x)]) @ holds to ops) b'"
    by (rule Cons.IH [OF s(1) _ _ r]) (use Cons.prems(2,3,5) s(2) c in \<open>auto simp: a\<close>)
  then show ?case using holds_Cons [of to a ops] by (auto simp: a)
qed auto


text \<open>C37, witness: a signal is held, another peer subscribes, a watcher appears 10 seconds later.\<close>

definition example_signal :: signalMsg where
  "example_signal = \<lparr>FromPeerID = ''a'', ToPeerID = ''b'', Payload = [1, 2]\<rparr>"


end
