(* ===== verification/CoordServer.thy ===== *)
theory CoordServer
  imports Registry Bus Crypto Encoding
begin

text \<open>
  The coordination server, \<open>coord/server/server.go\<close> and \<open>coord/server/replay.go\<close>: the requests of the protocol on top of
  the registry and the bus, the signatures that were used, and the count of open Watch streams per peer.

  The interfaces of \<open>coord/core\<close> are arguments: what a token resolves to, the machine limit, and which routes are allowed
  (record \<open>core\<close>); their implementations of the community edition (\<open>coord/ce\<close>) are given below. What the server tells the
  audit log and the lifecycle hooks is kept in the order of the calls. \<open>ed\<close> is Ed25519, \<open>sha\<close> is SHA-256.
  A request runs at one time \<open>now\<close>. A text that the server parses (an endpoint, a route) comes as a pair: the text and what
  parsing it gives.
\<close>

section \<open>Signatures that were used\<close>

definition maxSeenSignatures :: nat where "maxSeenSignatures = 65536"

record seenSignatures =
  seen_map :: "(bytes \<times> gotime) list"
  seen_window :: duration

definition newSeenSignatures :: "duration \<Rightarrow> seenSignatures" where
  "newSeenSignatures w = \<lparr>seen_map = [], seen_window = w\<rparr>"

definition firstUse :: "(bytes \<Rightarrow> bytes) \<Rightarrow> gotime \<Rightarrow> seenSignatures \<Rightarrow> bytes \<Rightarrow> seenSignatures \<times> bool" where
  "firstUse sha now s sig =
     (let key = sha sig
      in if (case map_of (seen_map s) key of None \<Rightarrow> False | Some exp \<Rightarrow> now < exp) then (s, False)
         else
           (let full = length (seen_map s) \<ge> maxSeenSignatures;
                s = (if full then s\<lparr>seen_map := filter (\<lambda>(_, exp). now < exp) (seen_map s)\<rparr> else s)
            in if full \<and> length (seen_map s) \<ge> maxSeenSignatures then (s, False)
               else (s\<lparr>seen_map := AList.update key (now + 2 * seen_window s) (seen_map s)\<rparr>, True)))"

section \<open>State\<close>

record core =
  Resolve :: "string \<Rightarrow> string option"
  MachineLimitFor :: "string \<Rightarrow> int"
  Subnet_Allow :: "string \<Rightarrow> Prefix \<Rightarrow> bool"

record Peer =
  pe_Id :: string
  pe_Name :: string
  pe_VpnAddr :: "Addr spelling"
  pe_Ed25519Public :: string
  pe_X25519Public :: string
  pe_Endpoint :: string
  pe_SubnetRoutes :: "string list"

datatype PeerEvent = JOIN Peer | LEAVE string string

datatype notice = PeerRegistered string string string | PeerLeft string string string | RegistrationRejected string string
  | RecordActivity string | OnPeerRegistered string string "Addr" string | OnPeerLeft string string "Addr option" string
  | OnSubnetRouteAdvertised string Prefix

record Server =
  sv_registry :: Registry
  sv_bus :: "PeerEvent Bus"
  sv_connected :: "string \<Rightarrow> nat"
  sv_seen :: seenSignatures
  sv_notes :: "notice list"

definition New_Server :: "Registry \<Rightarrow> PeerEvent Bus \<Rightarrow> Server" where
  "New_Server registry bus = \<lparr>sv_registry = registry, sv_bus = bus, sv_connected = (\<lambda>_. 0),
     sv_seen = newSeenSignatures (CallTimestampWindow * second), sv_notes = []\<rparr>"

datatype code = Unauthenticated | NotFound | InvalidArgument | PermissionDenied | AlreadyExists | ResourceExhausted | Internal

definition tell :: "notice list \<Rightarrow> Server \<Rightarrow> Server" where
  "tell ns s = s\<lparr>sv_notes := sv_notes s @ ns\<rparr>"

section \<open>The community edition\<close>

definition FreeMachineLimit :: int where "FreeMachineLimit = 5"

definition FreeNetworkLimit :: int where "FreeNetworkLimit = 1"

definition CanRegisterMachine :: "int \<Rightarrow> bool" where
  "CanRegisterMachine currentCount \<longleftrightarrow> \<not> currentCount \<ge> FreeMachineLimit"

definition CanAddNetwork :: "int \<Rightarrow> bool" where
  "CanAddNetwork currentCount \<longleftrightarrow> \<not> currentCount \<ge> FreeNetworkLimit"

definition ce_core :: "(string \<rightharpoonup> string) \<Rightarrow> core" where
  "ce_core tokens = \<lparr>Resolve = tokens, MachineLimitFor = (\<lambda>_. FreeMachineLimit), Subnet_Allow = (\<lambda>_ _. False)\<rparr>"

section \<open>Checks\<close>

definition label_char :: "char \<Rightarrow> bool" where
  "label_char c = (let n = of_char c :: nat in 97 \<le> n \<and> n \<le> 122 \<or> 65 \<le> n \<and> n \<le> 90 \<or> 48 \<le> n \<and> n \<le> 57 \<or> c = CHR ''-'')"

definition validPeerName :: "string \<Rightarrow> bool" where
  "validPeerName name =
     (if name = [] then True
      else if length name > 63 \<or> hd name = CHR ''-'' \<or> last name = CHR ''-'' then False
      else list_all label_char name)"

definition verifyCall :: "ed25519 \<Rightarrow> (bytes \<Rightarrow> bytes) \<Rightarrow> gotime \<Rightarrow> Server \<Rightarrow> peerRecord \<Rightarrow> bytes \<Rightarrow> CallClaims \<Rightarrow> Server \<times> bool" where
  "verifyCall ed sha now s rec sig claims = (case b64_DecodeString (pr_Ed25519Public rec) of
      None \<Rightarrow> (s, False)
    | Some pub \<Rightarrow>
        if length pub \<noteq> 32 then (s, False)
        else if VerifyCallSignature ed pub sig claims (unix_secs now) \<noteq> None then (s, False)
        else (case firstUse sha now (sv_seen s) sig of (seen, ok) \<Rightarrow> (s\<lparr>sv_seen := seen\<rparr>, ok)))"

definition authorizeNetwork :: "Server \<Rightarrow> string \<Rightarrow> string \<Rightarrow> bool" where
  "authorizeNetwork s networkID accountID = (case GetNetwork (sv_registry s) networkID of
      Inl _ \<Rightarrow> False | Inr (_, owner) \<Rightarrow> owner = accountID)"

definition authorizePeer :: "Server \<Rightarrow> string \<Rightarrow> string \<Rightarrow> string \<Rightarrow> peerRecord option" where
  "authorizePeer s peerID networkID accountID = (case GetPeer (sv_registry s) peerID of
      Inl _ \<Rightarrow> None
    | Inr rec \<Rightarrow>
        if networkID \<noteq> [] \<and> pr_NetworkID rec \<noteq> networkID then None
        else if \<not> authorizeNetwork s (pr_NetworkID rec) accountID then None
        else Some rec)"

definition markConnected :: "Server \<Rightarrow> string \<Rightarrow> Server" where
  "markConnected s peerID = s\<lparr>sv_connected := (sv_connected s)(peerID := sv_connected s peerID + 1)\<rparr>"

definition markDisconnected :: "Server \<Rightarrow> string \<Rightarrow> Server" where
  "markDisconnected s peerID = s\<lparr>sv_connected := (sv_connected s)(peerID := sv_connected s peerID - 1)\<rparr>"

definition IsConnected :: "Server \<Rightarrow> string \<Rightarrow> bool" where
  "IsConnected s peerID \<longleftrightarrow> sv_connected s peerID > 0"

section \<open>Requests\<close>

definition peer_of :: "peerRecord \<Rightarrow> Peer" where
  "peer_of p = \<lparr>pe_Id = pr_ID p, pe_Name = pr_Name p, pe_VpnAddr = pr_VPNAddr p, pe_Ed25519Public = pr_Ed25519Public p,
     pe_X25519Public = pr_X25519Public p, pe_Endpoint = pr_Endpoint p, pe_SubnetRoutes = pr_SubnetRoutes p\<rparr>"

definition peer_left :: "Server \<Rightarrow> peerRecord \<Rightarrow> string \<Rightarrow> Server" where
  "peer_left s rec accountID =
     (let s = tell [OnPeerLeft (pr_ID rec) (pr_Name rec) (ParseAddr (pr_VPNAddr rec)) (pr_NetworkID rec),
                    PeerLeft accountID (pr_NetworkID rec) (pr_ID rec)] s
      in s\<lparr>sv_bus := Publish (DropPendingSignals (sv_bus s) (pr_ID rec)) (pr_NetworkID rec) (LEAVE (pr_ID rec) (pr_Name rec))\<rparr>)"

definition network_owner :: "Registry \<Rightarrow> string \<Rightarrow> string" where
  "network_owner r n = (case GetNetwork r n of Inl _ \<Rightarrow> [] | Inr (_, owner) \<Rightarrow> owner)"

definition network_cidr :: "Registry \<Rightarrow> string \<Rightarrow> Prefix" where
  "network_cidr r n = (case GetNetwork r n of Inl _ \<Rightarrow> zero_Prefix | Inr ((_, cidr, _), _) \<Rightarrow> cidr)"

definition ExpelStalePeers :: "gotime \<Rightarrow> duration \<Rightarrow> Server \<Rightarrow> Server \<times> nat" where
  "ExpelStalePeers now ttl s =
     (case SweepStalePeers now ttl (IsConnected s) (sv_registry s) of (r, removed) \<Rightarrow>
        (fold (\<lambda>rec s. peer_left s rec (network_owner (sv_registry s) (pr_NetworkID rec))) removed (s\<lparr>sv_registry := r\<rparr>),
         length removed))"

record RegisterRequest =
  rq_Token :: string
  rq_NetworkId :: string
  rq_Name :: string
  rq_Ed25519Public :: string
  rq_X25519Public :: string
  rq_Endpoint :: "string \<times> (Addr \<times> u16) option"
  rq_SubnetRoutes :: "(string \<times> Prefix option) list"
  rq_TimestampUnix :: int
  rq_Signature :: bytes

definition register_claims :: "RegisterRequest \<Rightarrow> RegisterClaims" where
  "register_claims req = \<lparr>rc_NetworkID = rq_NetworkId req, rc_Name = rq_Name req, rc_Ed25519Public = rq_Ed25519Public req,
     rc_X25519Public = rq_X25519Public req, rc_Endpoint = fst (rq_Endpoint req), rc_SubnetRoutes = map fst (rq_SubnetRoutes req),
     rc_TimestampUnix = rq_TimestampUnix req\<rparr>"

definition endpoint_ok :: "string \<times> (Addr \<times> u16) option \<Rightarrow> bool" where
  "endpoint_ok e = (fst e = [] \<or> (case snd e of None \<Rightarrow> False
      | Some (a, p) \<Rightarrow> \<not> (p = 0 \<or> IsUnspecified a \<or> IsMulticast a)))"

fun check_routes :: "core \<Rightarrow> string \<Rightarrow> (string \<times> Prefix option) list \<Rightarrow> code + Prefix list" where
  "check_routes co n [] = Inr []"
| "check_routes co n ((txt, p) # rs) = (case p of
      None \<Rightarrow> Inl InvalidArgument
    | Some pfx \<Rightarrow> if \<not> Subnet_Allow co n pfx then Inl PermissionDenied else map_sum id ((#) pfx) (check_routes co n rs))"

definition register_code :: "registry_error \<Rightarrow> code" where
  "register_code e = (case e of ErrPeerIDTaken \<Rightarrow> AlreadyExists | ErrPeerKeyMismatch \<Rightarrow> AlreadyExists
     | ErrMachineLimit \<Rightarrow> ResourceExhausted | ErrAddressSpaceExhausted \<Rightarrow> ResourceExhausted | _ \<Rightarrow> Internal)"

text \<open>The part of \<open>Register\<close> up to the use of the signature.\<close>

definition register_auth ::
  "ed25519 \<Rightarrow> (bytes \<Rightarrow> bytes) \<Rightarrow> core \<Rightarrow> gotime \<Rightarrow> Server \<Rightarrow> RegisterRequest \<Rightarrow> Server \<times> (code + string \<times> string)" where
  "register_auth ed sha co now s req = (case Resolve co (rq_Token req) of
      None \<Rightarrow> (s, Inl Unauthenticated)
    | Some acc \<Rightarrow>
        if \<not> authorizeNetwork s (rq_NetworkId req) acc then (s, Inl NotFound)
        else (case b64_DecodeString (rq_Ed25519Public req) of
                None \<Rightarrow> (s, Inl InvalidArgument)
              | Some key \<Rightarrow>
                  if length key \<noteq> 32 then (s, Inl InvalidArgument)
                  else if VerifyRegisterSignature ed key (rq_Signature req) (register_claims req) (unix_secs now) \<noteq> None
                  then (s, Inl Unauthenticated)
                  else (case firstUse sha now (sv_seen s) (rq_Signature req) of
                          (seen, ok) \<Rightarrow> (s\<lparr>sv_seen := seen\<rparr>, if ok then Inr (acc, hex_EncodeToString key) else Inl Unauthenticated))))"

definition register_store ::
  "core \<Rightarrow> gotime \<Rightarrow> Server \<Rightarrow> RegisterRequest \<Rightarrow> string \<Rightarrow> string \<Rightarrow> Prefix list \<Rightarrow> Server \<times> (code + Addr \<times> string \<times> Prefix)" where
  "register_store co now s req acc peerID routes =
     (let rec = \<lparr>pr_ID = peerID, pr_NetworkID = [], pr_Name = rq_Name req, pr_VPNAddr = Raw [] None,
                 pr_Ed25519Public = rq_Ed25519Public req, pr_X25519Public = rq_X25519Public req, pr_Endpoint = fst (rq_Endpoint req),
                 pr_SubnetRoutes = map fst (rq_SubnetRoutes req), pr_LastSeen = unix_secs now, pr_RegisteredAt = unix_secs now\<rparr>
      in case RegisterPeer (sv_registry s) rec (rq_NetworkId req) (MachineLimitFor co (rq_NetworkId req)) of
           Inl e \<Rightarrow> ((if e = ErrMachineLimit then tell [RegistrationRejected acc (rq_NetworkId req)] s else s), Inl (register_code e))
         | Inr (r, vpnAddr) \<Rightarrow>
             (let s = tell ([RecordActivity acc, PeerRegistered acc (rq_NetworkId req) peerID,
                             OnPeerRegistered peerID (rq_Name req) vpnAddr (rq_NetworkId req)] @
                            map (OnSubnetRouteAdvertised peerID) routes) (s\<lparr>sv_registry := r\<rparr>);
                  joined = \<lparr>pe_Id = peerID, pe_Name = rq_Name req, pe_VpnAddr = Canon vpnAddr, pe_Ed25519Public = rq_Ed25519Public req,
                            pe_X25519Public = rq_X25519Public req, pe_Endpoint = fst (rq_Endpoint req),
                            pe_SubnetRoutes = map fst (rq_SubnetRoutes req)\<rparr>
              in (s\<lparr>sv_bus := Publish (sv_bus s) (rq_NetworkId req) (JOIN joined)\<rparr>,
                  Inr (vpnAddr, peerID, network_cidr r (rq_NetworkId req)))))"

definition Register ::
  "ed25519 \<Rightarrow> (bytes \<Rightarrow> bytes) \<Rightarrow> core \<Rightarrow> gotime \<Rightarrow> Server \<Rightarrow> RegisterRequest \<Rightarrow> Server \<times> (code + Addr \<times> string \<times> Prefix)" where
  "Register ed sha co now s req = (case register_auth ed sha co now s req of
      (s, Inl e) \<Rightarrow> (s, Inl e)
    | (s, Inr (acc, peerID)) \<Rightarrow>
        if \<not> validPeerName (rq_Name req) then (s, Inl InvalidArgument)
        else if \<not> endpoint_ok (rq_Endpoint req) then (s, Inl InvalidArgument)
        else (case check_routes co (rq_NetworkId req) (rq_SubnetRoutes req) of
                Inl e \<Rightarrow> (s, Inl e)
              | Inr routes \<Rightarrow> register_store co now s req acc peerID routes))"

definition Server_ListPeers :: "core \<Rightarrow> Server \<Rightarrow> string \<Rightarrow> string \<Rightarrow> code + Peer list" where
  "Server_ListPeers co s token networkID = (case Resolve co token of
      None \<Rightarrow> Inl Unauthenticated
    | Some acc \<Rightarrow>
        if \<not> authorizeNetwork s networkID acc then Inl NotFound
        else (case ListPeers (sv_registry s) networkID of Inl _ \<Rightarrow> Inl Internal | Inr ps \<Rightarrow> Inr (map peer_of ps)))"

record CallRequest =
  cr_Token :: string
  cr_PeerId :: string
  cr_TimestampUnix :: int
  cr_Signature :: bytes

text \<open>\<open>Watch\<close> up to its loop: the channels it subscribed to and the events of its snapshot. The loop receives from the
  channels until the stream ends, then \<open>watch_end\<close> runs the deferred calls.\<close>

definition watch_auth ::
  "ed25519 \<Rightarrow> (bytes \<Rightarrow> bytes) \<Rightarrow> core \<Rightarrow> gotime \<Rightarrow> Server \<Rightarrow> CallRequest \<Rightarrow> string \<Rightarrow> Server \<times> code option" where
  "watch_auth ed sha co now s req networkID = (case Resolve co (cr_Token req) of
      None \<Rightarrow> (s, Some Unauthenticated)
    | Some acc \<Rightarrow>
        if \<not> authorizeNetwork s networkID acc then (s, Some NotFound)
        else if cr_PeerId req = [] then (s, None)
        else (case authorizePeer s (cr_PeerId req) networkID acc of
                None \<Rightarrow> (s, Some NotFound)
              | Some rec \<Rightarrow>
                  (case verifyCall ed sha now s rec (cr_Signature req) (WatchClaims (cr_PeerId req) networkID (cr_TimestampUnix req)) of
                     (s, ok) \<Rightarrow> (s, if ok then None else Some Unauthenticated))))"

definition touch :: "gotime \<Rightarrow> Server \<Rightarrow> string \<Rightarrow> Server" where
  "touch now s peerID = (case TouchPeer (unix_secs now) (sv_registry s) peerID of Inl _ \<Rightarrow> s | Inr r \<Rightarrow> s\<lparr>sv_registry := r\<rparr>)"

definition snapshot :: "Server \<Rightarrow> string \<Rightarrow> string \<Rightarrow> PeerEvent list" where
  "snapshot s networkID peerID = (case ListPeers (sv_registry s) networkID of
      Inl _ \<Rightarrow> [] | Inr ps \<Rightarrow> map (\<lambda>p. JOIN (peer_of p)) (filter (\<lambda>p. pr_ID p \<noteq> peerID) ps))"

definition Watch ::
  "ed25519 \<Rightarrow> (bytes \<Rightarrow> bytes) \<Rightarrow> core \<Rightarrow> gotime \<Rightarrow> Server \<Rightarrow> CallRequest \<Rightarrow> string \<Rightarrow>
     (Server \<times> (code + nat \<times> nat option \<times> PeerEvent list)) option" where
  "Watch ed sha co now s req networkID = (case watch_auth ed sha co now s req networkID of
      (s, Some e) \<Rightarrow> Some (s, Inl e)
    | (s, None) \<Rightarrow>
        (let named = cr_PeerId req \<noteq> [];
             s = (if named then touch now (markConnected s (cr_PeerId req)) (cr_PeerId req) else s);
             (bus, ch) = Subscribe (sv_bus s) networkID; s = s\<lparr>sv_bus := bus\<rparr>
         in if \<not> named then Some (s, Inr (ch, None, snapshot s networkID (cr_PeerId req)))
            else case SubscribeSignals now (sv_bus s) (cr_PeerId req) of
                   None \<Rightarrow> None
                 | Some (bus, sc) \<Rightarrow>
                     (let s = s\<lparr>sv_bus := bus\<rparr> in Some (s, Inr (ch, Some sc, snapshot s networkID (cr_PeerId req))))))"

definition watch_end :: "Server \<Rightarrow> string \<Rightarrow> string \<Rightarrow> nat \<Rightarrow> nat option \<Rightarrow> Server" where
  "watch_end s networkID peerID ch sc =
     (let s = (case sc of None \<Rightarrow> s | Some c \<Rightarrow> s\<lparr>sv_bus := UnsubscribeSignals (sv_bus s) peerID c\<rparr>);
          s = s\<lparr>sv_bus := Unsubscribe (sv_bus s) networkID ch\<rparr>
      in if sc = None then s else markDisconnected s peerID)"

definition maxSignalPayload :: nat where "maxSignalPayload = 65536"

definition Server_SendSignal ::
  "ed25519 \<Rightarrow> (bytes \<Rightarrow> bytes) \<Rightarrow> core \<Rightarrow> gotime \<Rightarrow> Server \<Rightarrow> CallRequest \<Rightarrow> string \<Rightarrow> bytes \<Rightarrow> Server \<times> code option" where
  "Server_SendSignal ed sha co now s req toPeerID payload = (case Resolve co (cr_Token req) of
      None \<Rightarrow> (s, Some Unauthenticated)
    | Some acc \<Rightarrow>
        if length payload > maxSignalPayload then (s, Some InvalidArgument)
        else (case authorizePeer s (cr_PeerId req) [] acc of
                None \<Rightarrow> (s, Some NotFound)
              | Some fr \<Rightarrow>
                  (case verifyCall ed sha now s fr (cr_Signature req)
                          (SendSignalClaims (\<lambda>b. hex_EncodeToString (sha b)) (cr_PeerId req) toPeerID payload (cr_TimestampUnix req)) of
                     (s, False) \<Rightarrow> (s, Some Unauthenticated)
                   | (s, True) \<Rightarrow>
                       (case authorizePeer s toPeerID [] acc of
                          None \<Rightarrow> (s, Some NotFound)
                        | Some to \<Rightarrow>
                            if pr_NetworkID fr \<noteq> pr_NetworkID to then (s, Some NotFound)
                            else (s\<lparr>sv_bus := SendSignal now (sv_bus s) (cr_PeerId req) toPeerID payload True\<rparr>, None)))))"

definition Leave :: "ed25519 \<Rightarrow> (bytes \<Rightarrow> bytes) \<Rightarrow> core \<Rightarrow> gotime \<Rightarrow> Server \<Rightarrow> CallRequest \<Rightarrow> Server \<times> code option" where
  "Leave ed sha co now s req = (case Resolve co (cr_Token req) of
      None \<Rightarrow> (s, Some Unauthenticated)
    | Some acc \<Rightarrow>
        (case authorizePeer s (cr_PeerId req) [] acc of
           None \<Rightarrow> (s, Some NotFound)
         | Some rec \<Rightarrow>
             (case verifyCall ed sha now s rec (cr_Signature req) (LeaveClaims (cr_PeerId req) (cr_TimestampUnix req)) of
                (s, False) \<Rightarrow> (s, Some Unauthenticated)
              | (s, True) \<Rightarrow>
                  (case RemovePeer (unix_secs now) (sv_registry s) (cr_PeerId req) of
                     Inl _ \<Rightarrow> (s, Some NotFound)
                   | Inr (r, removed) \<Rightarrow> (peer_left (s\<lparr>sv_registry := r\<rparr>) removed acc, None)))))"

section \<open>Runs\<close>

datatype request = RqRegister RegisterRequest | RqLeave CallRequest | RqWatch CallRequest string | RqSignal CallRequest string bytes

text \<open>A request and whether it succeeds.\<close>

fun serve :: "ed25519 \<Rightarrow> (bytes \<Rightarrow> bytes) \<Rightarrow> core \<Rightarrow> gotime \<Rightarrow> request \<Rightarrow> Server \<Rightarrow> Server \<times> bool" where
  "serve ed sha co now (RqRegister q) s = (case Register ed sha co now s q of (s, r) \<Rightarrow> (s, \<not> isl r))"
| "serve ed sha co now (RqLeave q) s = (case Leave ed sha co now s q of (s, e) \<Rightarrow> (s, e = None))"
| "serve ed sha co now (RqWatch q n) s = (case Watch ed sha co now s q n of None \<Rightarrow> (s, False) | Some (s, r) \<Rightarrow> (s, \<not> isl r))"
| "serve ed sha co now (RqSignal q to payload) s = (case Server_SendSignal ed sha co now s q to payload of (s, e) \<Rightarrow> (s, e = None))"

text \<open>The steps of a server: a request at a time not before the last step, the sweep, the refresh of an open Watch, the end
  of a Watch, a receive from a channel, and the creation of a network.\<close>

inductive srv_step :: "ed25519 \<Rightarrow> (bytes \<Rightarrow> bytes) \<Rightarrow> core \<Rightarrow> gotime \<times> Server \<Rightarrow> gotime \<times> Server \<Rightarrow> bool"
  for ed sha co where
  request: "t \<le> u \<Longrightarrow> serve ed sha co u q s = (s', ok) \<Longrightarrow> srv_step ed sha co (t, s) (u, s')"
| expel: "t \<le> u \<Longrightarrow> srv_step ed sha co (t, s) (u, fst (ExpelStalePeers u ttl s))"
| refresh: "t \<le> u \<Longrightarrow> srv_step ed sha co (t, s) (u, touch u s pid)"
| stream_end: "srv_step ed sha co (t, s) (t, watch_end s n pid ch sc)"
| event: "srv_step ed sha co (t, s) (t, s\<lparr>sv_bus := recv_event (sv_bus s) ch\<rparr>)"
| signal: "srv_step ed sha co (t, s) (t, s\<lparr>sv_bus := recv_signal (sv_bus s) ch\<rparr>)"
| network: "CreateNetwork (unix_secs t) (sv_registry s) n cidr name acct = Inr r \<Longrightarrow> srv_step ed sha co (t, s) (t, s\<lparr>sv_registry := r\<rparr>)"

abbreviation srv_run :: "ed25519 \<Rightarrow> (bytes \<Rightarrow> bytes) \<Rightarrow> core \<Rightarrow> gotime \<times> Server \<Rightarrow> gotime \<times> Server \<Rightarrow> bool" where
  "srv_run ed sha co \<equiv> (srv_step ed sha co)\<^sup>*\<^sup>*"

section \<open>A request succeeds once\<close>

fun stamp :: "request \<Rightarrow> int" where
  "stamp (RqRegister q) = rq_TimestampUnix q"
| "stamp (RqLeave q) = cr_TimestampUnix q"
| "stamp (RqWatch q _) = cr_TimestampUnix q"
| "stamp (RqSignal q _ _) = cr_TimestampUnix q"

fun signature :: "request \<Rightarrow> bytes" where
  "signature (RqRegister q) = rq_Signature q"
| "signature (RqLeave q) = cr_Signature q"
| "signature (RqWatch q _) = cr_Signature q"
| "signature (RqSignal q _ _) = cr_Signature q"

text \<open>All but a Watch that names no peer carry a signature.\<close>

fun named :: "request \<Rightarrow> bool" where
  "named (RqWatch q _) = (cr_PeerId q \<noteq> [])"
| "named _ = True"

text \<open>The signature of a request verifies under a key.\<close>

fun signed_by :: "ed25519 \<Rightarrow> (bytes \<Rightarrow> bytes) \<Rightarrow> gotime \<Rightarrow> request \<Rightarrow> bytes \<Rightarrow> bool" where
  "signed_by ed sha now (RqRegister q) pub \<longleftrightarrow> VerifyRegisterSignature ed pub (rq_Signature q) (register_claims q) (unix_secs now) = None"
| "signed_by ed sha now (RqLeave q) pub \<longleftrightarrow>
     VerifyCallSignature ed pub (cr_Signature q) (LeaveClaims (cr_PeerId q) (cr_TimestampUnix q)) (unix_secs now) = None"
| "signed_by ed sha now (RqWatch q n) pub \<longleftrightarrow>
     VerifyCallSignature ed pub (cr_Signature q) (WatchClaims (cr_PeerId q) n (cr_TimestampUnix q)) (unix_secs now) = None"
| "signed_by ed sha now (RqSignal q to payload) pub \<longleftrightarrow>
     VerifyCallSignature ed pub (cr_Signature q)
       (SendSignalClaims (\<lambda>b. hex_EncodeToString (sha b)) (cr_PeerId q) to payload (cr_TimestampUnix q)) (unix_secs now) = None"

text \<open>What a request does to the used signatures: nothing, or its signature is looked up and recorded.\<close>

definition uses :: "(bytes \<Rightarrow> bytes) \<Rightarrow> gotime \<Rightarrow> bytes \<Rightarrow> Server \<Rightarrow> Server \<Rightarrow> bool" where
  "uses sha now sig s s' \<longleftrightarrow> sv_seen s' = sv_seen s \<or> sv_seen s' = fst (firstUse sha now (sv_seen s) sig)"

lemma tell_fields [simp]: "sv_seen (tell ns s) = sv_seen s" "sv_registry (tell ns s) = sv_registry s" "sv_bus (tell ns s) = sv_bus s"
  by (simp_all add: tell_def)

lemma touch_seen [simp]: "sv_seen (touch now s p) = sv_seen s" "sv_bus (touch now s p) = sv_bus s"
  by (simp_all add: touch_def split: sum.split)

lemma mark_seen [simp]: "sv_seen (markConnected s p) = sv_seen s" "sv_seen (markDisconnected s p) = sv_seen s"
    "sv_registry (markConnected s p) = sv_registry s" "sv_registry (markDisconnected s p) = sv_registry s"
  by (simp_all add: markConnected_def markDisconnected_def)

lemma left_seen [simp]: "sv_seen (peer_left s rec acc) = sv_seen s" "sv_registry (peer_left s rec acc) = sv_registry s"
  by (simp_all add: peer_left_def Let_def)

lemma watch_end_seen [simp]: "sv_seen (watch_end s n p ch sc) = sv_seen s" "sv_registry (watch_end s n p ch sc) = sv_registry s"
  by (simp_all add: watch_end_def Let_def split: option.split)

text \<open>What is known when a call signature was accepted.\<close>

lemma verifyCall_True:
  assumes "verifyCall ed sha now s rec sig claims = (s', ok)"
  shows "sv_registry s' = sv_registry s \<and> sv_bus s' = sv_bus s \<and> sv_connected s' = sv_connected s \<and> uses sha now sig s s' \<and>
    (ok \<longrightarrow> sv_seen s' = fst (firstUse sha now (sv_seen s) sig) \<and> snd (firstUse sha now (sv_seen s) sig) \<and>
       (\<exists>pub. b64_DecodeString (pr_Ed25519Public rec) = Some pub \<and> length pub = 32 \<and> VerifyCallSignature ed pub sig claims (unix_secs now) = None))"
  using assms by (auto simp: verifyCall_def uses_def split: option.splits if_splits prod.splits)

lemma register_auth_facts:
  assumes "register_auth ed sha co now s req = (s', r)"
  shows "sv_registry s' = sv_registry s" "sv_bus s' = sv_bus s" "uses sha now (rq_Signature req) s s'"
    "r = Inr (acc, pid) \<Longrightarrow> sv_seen s' = fst (firstUse sha now (sv_seen s) (rq_Signature req)) \<and>
       snd (firstUse sha now (sv_seen s) (rq_Signature req)) \<and> Resolve co (rq_Token req) = Some acc \<and>
       authorizeNetwork s (rq_NetworkId req) acc \<and>
       (\<exists>key. b64_DecodeString (rq_Ed25519Public req) = Some key \<and> length key = 32 \<and> pid = hex_EncodeToString key \<and>
          signed_by ed sha now (RqRegister req) key)"
  using assms by (auto simp: register_auth_def uses_def split: option.splits if_splits prod.splits)

lemma register_store_seen: "register_store co now s req acc pid routes = (s', r) \<Longrightarrow> sv_seen s' = sv_seen s"
  by (auto simp: register_store_def Let_def split: sum.splits if_splits)

text \<open>Success of a signed request.\<close>

definition accepted :: "ed25519 \<Rightarrow> (bytes \<Rightarrow> bytes) \<Rightarrow> gotime \<Rightarrow> request \<Rightarrow> Server \<Rightarrow> Server \<Rightarrow> bool" where
  "accepted ed sha now q s s' \<longleftrightarrow> sv_seen s' = fst (firstUse sha now (sv_seen s) (signature q)) \<and>
     snd (firstUse sha now (sv_seen s) (signature q)) \<and> (\<exists>pub. length pub = 32 \<and> signed_by ed sha now q pub)"

lemma serve_seen:
  assumes "serve ed sha co now q s = (s', ok)"
  shows "uses sha now (signature q) s s' \<and> (ok \<and> named q \<longrightarrow> accepted ed sha now q s s')"
proof (cases q)
  case (RqRegister req)
  obtain s1 r where a: "register_auth ed sha co now s req = (s1, r)" by fastforce
  note f = register_auth_facts [OF a]
  show ?thesis
  proof (cases r)
    case (Inl e)
    then show ?thesis using assms RqRegister a f(3) by (auto simp: Register_def)
  next
    case (Inr b)
    obtain acc pid where r: "r = Inr (acc, pid)" using Inr by (cases b) simp
    have "sv_seen s' = sv_seen s1"
      using assms RqRegister a r by (auto simp: Register_def split: if_splits sum.splits prod.splits dest: register_store_seen)
    then show ?thesis using f(3) f(4) [OF r] RqRegister by (auto simp: accepted_def uses_def)
  qed
next
  case (RqLeave req)
  then show ?thesis using assms verifyCall_True
    by (fastforce simp: Leave_def accepted_def uses_def split: option.splits prod.splits bool.splits sum.splits)
next
  case (RqSignal req to payload)
  then show ?thesis using assms verifyCall_True
    by (fastforce simp: Server_SendSignal_def accepted_def uses_def split: option.splits prod.splits bool.splits if_splits)
next
  case (RqWatch req n)
  have w: "uses sha now (cr_Signature req) s s1 \<and> (e = None \<and> cr_PeerId req \<noteq> [] \<longrightarrow> accepted ed sha now (RqWatch req n) s s1)"
    if "watch_auth ed sha co now s req n = (s1, e)" for s1 e
    using that verifyCall_True by (fastforce simp: watch_auth_def accepted_def uses_def split: option.splits prod.splits if_splits)
  obtain s1 e where a: "watch_auth ed sha co now s req n = (s1, e)" by fastforce
  have "sv_seen s' = sv_seen s1 \<or> s' = s \<and> \<not> ok" "ok \<longrightarrow> e = None \<and> sv_seen s' = sv_seen s1"
    using assms RqWatch a by (auto simp: Watch_def Let_def Subscribe_def split: option.splits prod.splits if_splits)
  then show ?thesis using w [OF a] RqWatch by (auto simp: uses_def accepted_def)
qed

text \<open>A recorded signature stays until it expires.\<close>

lemma map_of_filter_keep: "map_of xs k = Some e \<Longrightarrow> P (k, e) \<Longrightarrow> map_of (filter P xs) k = Some e"
  by (induction xs) auto

lemma firstUse_window [simp]: "seen_window (fst (firstUse sha now s sig)) = seen_window s"
  by (simp add: firstUse_def Let_def)

lemma firstUse_True:
  assumes "snd (firstUse sha now s sig)"
  shows "map_of (seen_map (fst (firstUse sha now s sig))) (sha sig) = Some (now + 2 * seen_window s)"
    and "map_of (seen_map s) (sha sig) = Some e \<Longrightarrow> e \<le> now"
  using assms by (auto simp: firstUse_def Let_def update_conv' split: if_splits option.splits)

lemma firstUse_keeps:
  assumes "map_of (seen_map s) k = Some e" "now < e"
  shows "map_of (seen_map (fst (firstUse sha now s sig))) k = Some e"
  using assms map_of_filter_keep [OF assms(1), of "\<lambda>(_, exp). now < exp"]
  by (auto simp: firstUse_def Let_def update_conv' split: option.splits)

definition remembers :: "bytes \<Rightarrow> gotime \<Rightarrow> gotime \<times> Server \<Rightarrow> bool" where
  "remembers k T ts \<longleftrightarrow> T \<le> fst ts \<or> (\<exists>e\<ge>T. map_of (seen_map (sv_seen (snd ts))) k = Some e)"

lemma expel_seen: "sv_seen (fst (ExpelStalePeers u ttl s)) = sv_seen s"
proof -
  have "sv_seen (fold (\<lambda>rec s. peer_left s rec (network_owner (sv_registry s) (pr_NetworkID rec))) recs s) = sv_seen s" for recs s
    by (induction recs arbitrary: s) simp_all
  then show ?thesis by (simp add: ExpelStalePeers_def split: prod.split)
qed

lemma srv_step_seen:
  assumes "srv_step ed sha co ts ts'"
  shows "fst ts \<le> fst ts' \<and> (sv_seen (snd ts') = sv_seen (snd ts) \<or> (\<exists>sig. sv_seen (snd ts') = fst (firstUse sha (fst ts') (sv_seen (snd ts)) sig)))"
  using assms by (cases rule: srv_step.cases) (auto simp: expel_seen uses_def dest!: serve_seen)

lemma srv_step_remembers:
  assumes "srv_step ed sha co ts ts'" "remembers k T ts"
  shows "remembers k T ts'"
proof (cases "T \<le> fst ts'")
  case False
  note st = srv_step_seen [OF assms(1)]
  then obtain e where e: "T \<le> e" "map_of (seen_map (sv_seen (snd ts))) k = Some e" using assms(2) False by (auto simp: remembers_def)
  then show ?thesis using st firstUse_keeps [OF e(2), of "fst ts'"] False by (auto simp: remembers_def)
qed (simp add: remembers_def)

lemma srv_run_remembers: "srv_run ed sha co ts ts' \<Longrightarrow> remembers k T ts \<Longrightarrow> remembers k T ts' \<and> fst ts \<le> fst ts'"
  by (induction rule: rtranclp_induct) (use srv_step_remembers srv_step_seen in \<open>fastforce+\<close>)

lemma srv_run_window: "srv_run ed sha co ts ts' \<Longrightarrow> seen_window (sv_seen (snd ts')) = seen_window (sv_seen (snd ts))"
  by (induction rule: rtranclp_induct) (auto dest!: srv_step_seen)

text \<open>A signature that verifies has a timestamp within two minutes of the clock.\<close>

lemma wrap64_small:
  assumes "int64 ts" "0 \<le> now" "now < 2 ^ 62" "\<bar>wrap64 (now - ts)\<bar> \<le> 120"
  shows "wrap64 (now - ts) = now - ts"
proof (cases "now - ts < 2 ^ 63")
  case True
  then show ?thesis using assms by (intro wrap64_id) (auto simp: int64_def)
next
  case False
  have "(now - ts + 2 ^ 63) mod 2 ^ 64 = (now - ts + 2 ^ 63 - 2 ^ 64) mod 2 ^ 64" by (rule minus_mod_self2 [symmetric])
  also have "\<dots> = now - ts + 2 ^ 63 - 2 ^ 64"
    using assms(1-3) False by (intro mod_pos_pos_trivial) (auto simp: int64_def)
  finally have "wrap64 (now - ts) = now - ts - 2 ^ 64" by (simp add: wrap64_def)
  then have "wrap64 (now - ts) < - 120" using assms(1-3) by (simp add: int64_def)
  then show ?thesis using assms(4) by simp
qed

lemma signed_by_fresh:
  assumes "signed_by ed sha now q pub"
  shows "\<bar>wrap64 (unix_secs now - stamp q)\<bar> \<le> 120"
  using assms
  by (cases q)
    (simp_all add: VerifyRegisterSignature_def VerifyCallSignature_def Let_def register_claims_def LeaveClaims_def WatchClaims_def
      SendSignalClaims_def CallTimestampWindow_def RegisterTimestampWindow_def abs_le_iff not_less if_split_eq1,
     (elim conjE, linarith)+)

lemma signed_by_stamp:
  assumes "signed_by ed sha now q pub" "int64 (stamp q)" "0 \<le> now" "unix_secs now < 2 ^ 62"
  shows "\<bar>unix_secs now - stamp q\<bar> \<le> 120"
proof -
  have "0 \<le> unix_secs now" using assms(3) by (simp add: unix_secs_def)
  then show ?thesis using wrap64_small [OF assms(2) _ assms(4) signed_by_fresh [OF assms(1)]] signed_by_fresh [OF assms(1)] by simp
qed


section \<open>A peer is changed only by requests it signed\<close>

text \<open>Every stored peer stands under the hexadecimal text of its key.\<close>

definition keyed :: "Registry \<Rightarrow> bool" where
  "keyed r \<longleftrightarrow> (\<forall>k rec. map_of (bucketPeers r) k = Some (Some rec) \<longrightarrow>
     (\<exists>pub. b64_DecodeString (pr_Ed25519Public rec) = Some pub \<and> length pub = 32 \<and> k = hex_EncodeToString pub))"

lemma register_new_rows:
  assumes "register_new r q n mx = Inr (s, a)"
  shows "\<exists>rec. map_of (bucketPeers s) = (map_of (bucketPeers r))(pr_ID q \<mapsto> Some rec) \<and> pr_Ed25519Public rec = pr_Ed25519Public q"
  using assms by (auto simp: register_new_def Let_def update_conv' split: sum.splits option.splits if_splits)

lemma reregister_rows:
  assumes "reregister r old q n = Inr (s, a)"
  shows "\<exists>rec. map_of (bucketPeers s) = (map_of (bucketPeers r))(pr_ID q \<mapsto> Some rec) \<and> pr_Ed25519Public rec = pr_Ed25519Public old"
  using assms by (auto simp: reregister_def update_conv' split: option.splits if_splits)

lemma RegisterPeer_rows:
  assumes "RegisterPeer r p n mx = Inr (r', a)"
  shows "\<exists>rec. map_of (bucketPeers r') = (map_of (bucketPeers r))(pr_ID p \<mapsto> Some rec) \<and> (pr_Ed25519Public rec = pr_Ed25519Public p \<or>
       (\<exists>old. map_of (bucketPeers r) (pr_ID p) = Some (Some old) \<and> pr_Ed25519Public rec = pr_Ed25519Public old))"
  by (rule RegisterPeer_split [OF assms]) (auto simp: reg_setEndpoint_def dest!: register_new_rows reregister_rows)

lemma keyed_upd:
  assumes "keyed r" "map_of (bucketPeers r') = (map_of (bucketPeers r))(k \<mapsto> Some rec)"
    and "b64_DecodeString (pr_Ed25519Public rec) = Some pub" "length pub = 32" "k = hex_EncodeToString pub"
  shows "keyed r'"
  unfolding keyed_def
proof (intro allI impI)
  fix j q assume "map_of (bucketPeers r') j = Some (Some q)"
  then show "\<exists>pub. b64_DecodeString (pr_Ed25519Public q) = Some pub \<and> length pub = 32 \<and> j = hex_EncodeToString pub"
    using assms unfolding keyed_def by (cases "j = k") auto
qed

lemma keyed_register:
  assumes "keyed r" "RegisterPeer r p n mx = Inr (r', a)"
    and "b64_DecodeString (pr_Ed25519Public p) = Some pub" "length pub = 32" "pr_ID p = hex_EncodeToString pub"
  shows "keyed r'"
proof -
  obtain rec where rec: "map_of (bucketPeers r') = (map_of (bucketPeers r))(pr_ID p \<mapsto> Some rec)"
    and c: "pr_Ed25519Public rec = pr_Ed25519Public p \<or>
       (\<exists>old. map_of (bucketPeers r) (pr_ID p) = Some (Some old) \<and> pr_Ed25519Public rec = pr_Ed25519Public old)"
    using RegisterPeer_rows [OF assms(2)] by blast
  then obtain q where "b64_DecodeString (pr_Ed25519Public rec) = Some q" "length q = 32" "pr_ID p = hex_EncodeToString q"
    using assms(1,3-5) unfolding keyed_def by metis
  then show ?thesis by (rule keyed_upd [OF assms(1) rec])
qed

lemma RemovePeer_rows: "RemovePeer now r k = Inr (r', rec) \<Longrightarrow> map_of (bucketPeers r') = (map_of (bucketPeers r))(k := None)"
  by (auto simp: RemovePeer_def dropEndpoint_def Let_def delete_conv' split: sum.splits)

lemma sweep_rows_peers:
  "map_of (bucketPeers (fst (sweep_rows skip stale r))) k = Some v \<Longrightarrow> map_of (bucketPeers r) k = Some v"
proof (induction stale arbitrary: r)
  case (Cons rec stale)
  show ?case
  proof (cases "skip (pr_ID rec)")
    case False
    obtain nb where "map_of (bucketPeers (fst (sweep_rows skip stale (r\<lparr>bucketPeers := AList.delete (pr_ID rec) (bucketPeers r),
        bucketNetworks := nb\<rparr>)))) k = Some v"
      using Cons.prems False unfolding sweep_rows.simps Let_def case_prod_unfold by auto
    from Cons.IH [OF this] show ?thesis by (simp add: delete_conv' split: if_splits)
  qed (use Cons in simp)
qed simp

lemma Sweep_peers:
  assumes "map_of (bucketPeers (fst (SweepStalePeers now ttl skip r))) k = Some v"
  shows "map_of (bucketPeers r) k = Some v"
  using assms sweep_rows_peers [of skip "filter (is_stale (unix_secs (now - ttl))) (rows (bucketPeers r))" r k v]
  by (auto simp: SweepStalePeers_def drop_endpoints split: prod.splits if_splits)

lemma keyed_sub: "keyed r \<Longrightarrow> (\<And>k v. map_of (bucketPeers r') k = Some v \<Longrightarrow> map_of (bucketPeers r) k = Some v) \<Longrightarrow> keyed r'"
  unfolding keyed_def by blast

lemma keyed_touch: "keyed (sv_registry s) \<Longrightarrow> keyed (sv_registry (touch now s p))"
  by (auto simp: touch_def TouchPeer_def get_row_def keyed_def update_conv' split: sum.splits option.splits)

lemma expel_registry: "sv_registry (fst (ExpelStalePeers u ttl s)) = fst (SweepStalePeers u ttl (IsConnected s) (sv_registry s))"
proof -
  have "sv_registry (fold (\<lambda>rec s. peer_left s rec (network_owner (sv_registry s) (pr_NetworkID rec))) recs s) = sv_registry s" for recs s
    by (induction recs arbitrary: s) simp_all
  then show ?thesis by (simp add: ExpelStalePeers_def split: prod.split)
qed

text \<open>The key of a request: of the one it registers, or the stored one of the peer it names.\<close>

fun req_peer :: "request \<Rightarrow> string" where
  "req_peer (RqRegister q) = (case b64_DecodeString (rq_Ed25519Public q) of None \<Rightarrow> [] | Some key \<Rightarrow> hex_EncodeToString key)"
| "req_peer (RqLeave q) = cr_PeerId q"
| "req_peer (RqWatch q _) = cr_PeerId q"
| "req_peer (RqSignal q _ _) = cr_PeerId q"

fun req_token :: "request \<Rightarrow> string" where
  "req_token (RqRegister q) = rq_Token q"
| "req_token (RqLeave q) = cr_Token q"
| "req_token (RqWatch q _) = cr_Token q"
| "req_token (RqSignal q _ _) = cr_Token q"

text \<open>The network it acts in.\<close>

fun req_network :: "request \<Rightarrow> Server \<Rightarrow> string" where
  "req_network (RqRegister q) s = rq_NetworkId q"
| "req_network q s = (case GetPeer (sv_registry s) (req_peer q) of Inl _ \<Rightarrow> [] | Inr rec \<Rightarrow> pr_NetworkID rec)"

text \<open>The request is signed, now, by the key that the peer's ID spells, and its token is of the account that owns the network.\<close>

definition entitled :: "ed25519 \<Rightarrow> (bytes \<Rightarrow> bytes) \<Rightarrow> core \<Rightarrow> gotime \<Rightarrow> request \<Rightarrow> Server \<Rightarrow> bool" where
  "entitled ed sha co now q s \<longleftrightarrow> (\<exists>acc pub. Resolve co (req_token q) = Some acc \<and> authorizeNetwork s (req_network q s) acc \<and>
     length pub = 32 \<and> req_peer q = hex_EncodeToString pub \<and> signed_by ed sha now q pub)"

lemma call_entitled:
  assumes "keyed (sv_registry s)" "authorizePeer s pid n acc = Some rec" "verifyCall ed sha now s rec sig claims = (s', True)"
  shows "\<exists>pub. length pub = 32 \<and> pid = hex_EncodeToString pub \<and> VerifyCallSignature ed pub sig claims (unix_secs now) = None \<and>
     authorizeNetwork s (pr_NetworkID rec) acc \<and> GetPeer (sv_registry s) pid = Inr rec"
proof -
  have rec: "map_of (bucketPeers (sv_registry s)) pid = Some (Some rec)" "authorizeNetwork s (pr_NetworkID rec) acc"
    using assms(2) by (auto simp: authorizePeer_def GetPeer_def get_row_Inr split: sum.splits if_splits)
  obtain pub where "b64_DecodeString (pr_Ed25519Public rec) = Some pub" "length pub = 32" "pid = hex_EncodeToString pub"
    using assms(1) rec(1) unfolding keyed_def by blast
  then show ?thesis using verifyCall_True [OF assms(3)] rec by (auto simp: GetPeer_def get_row_def)
qed

text \<open>What a request does to the stored peers, request by request.\<close>

definition row_effect :: "ed25519 \<Rightarrow> (bytes \<Rightarrow> bytes) \<Rightarrow> core \<Rightarrow> gotime \<Rightarrow> request \<Rightarrow> Server \<Rightarrow> Server \<Rightarrow> bool \<Rightarrow> bool" where
  "row_effect ed sha co now q s s' ok \<longleftrightarrow> (ok \<and> named q \<longrightarrow> entitled ed sha co now q s) \<and> keyed (sv_registry s') \<and>
     (\<forall>k. map_of (bucketPeers (sv_registry s')) k \<noteq> map_of (bucketPeers (sv_registry s)) k \<longrightarrow>
        k = req_peer q \<and> entitled ed sha co now q s)"

lemma row_effect_same:
  "keyed (sv_registry s) \<Longrightarrow> sv_registry s' = sv_registry s \<Longrightarrow> (ok \<and> named q \<longrightarrow> entitled ed sha co now q s) \<Longrightarrow>
     row_effect ed sha co now q s s' ok"
  by (simp add: row_effect_def)

lemma Register_effect:
  assumes "keyed (sv_registry s)" "Register ed sha co now s req = (s', r)"
  shows "row_effect ed sha co now (RqRegister req) s s' (\<not> isl r)"
proof -
  obtain s1 e where a: "register_auth ed sha co now s req = (s1, e)" by fastforce
  note f = register_auth_facts [OF a]
  show ?thesis
  proof (cases e)
    case (Inl c)
    then show ?thesis using assms a f(1) by (intro row_effect_same) (auto simp: Register_def)
  next
    case (Inr b)
    obtain acc pid where e: "e = Inr (acc, pid)" using Inr by (cases b) simp
    note g = f(4) [OF e]
    then obtain key where key: "b64_DecodeString (rq_Ed25519Public req) = Some key" "length key = 32" "pid = hex_EncodeToString key" by blast
    have ent: "entitled ed sha co now (RqRegister req) s" using g by (auto simp: entitled_def)
    consider "s' = s1" "isl r" | routes where "register_store co now s1 req acc pid routes = (s', r)"
      using assms(2) a e by (auto simp: Register_def split: if_splits sum.splits)
    then show ?thesis
    proof cases
      case 2
      then consider "sv_registry s' = sv_registry s" | p n mx v where "pr_ID p = pid" "pr_Ed25519Public p = rq_Ed25519Public req"
          "RegisterPeer (sv_registry s) p n mx = Inr (sv_registry s', v)"
        using f(1) by (force simp: register_store_def Let_def split: sum.splits if_splits prod.splits)
      then show ?thesis
      proof cases
        case (2 p n mx v)
        note rows = RegisterPeer_rows [OF 2(3)]
        have "keyed (sv_registry s')" using keyed_register [OF assms(1) 2(3)] key 2(1,2) by simp
        moreover have "map_of (bucketPeers (sv_registry s')) k = map_of (bucketPeers (sv_registry s)) k" if "k \<noteq> pid" for k
          using rows that 2(1) by auto
        ultimately show ?thesis using ent key by (auto simp: row_effect_def)
      qed (use assms(1) ent in \<open>auto intro!: row_effect_same\<close>)
    qed (use assms(1) ent f(1) in \<open>auto intro!: row_effect_same\<close>)
  qed
qed

lemma Leave_effect:
  assumes k: "keyed (sv_registry s)" and l: "Leave ed sha co now s req = (s', e)"
  shows "row_effect ed sha co now (RqLeave req) s s' (e = None)"
proof (cases "\<exists>acc rec s1. Resolve co (cr_Token req) = Some acc \<and> authorizePeer s (cr_PeerId req) [] acc = Some rec \<and>
    verifyCall ed sha now s rec (cr_Signature req) (LeaveClaims (cr_PeerId req) (cr_TimestampUnix req)) = (s1, True)")
  case True
  then obtain acc rec s1 where t: "Resolve co (cr_Token req) = Some acc" "authorizePeer s (cr_PeerId req) [] acc = Some rec"
    "verifyCall ed sha now s rec (cr_Signature req) (LeaveClaims (cr_PeerId req) (cr_TimestampUnix req)) = (s1, True)" by blast
  have ent: "entitled ed sha co now (RqLeave req) s" using call_entitled [OF k t(2,3)] t(1) by (auto simp: entitled_def)
  have s1: "sv_registry s1 = sv_registry s" using verifyCall_True [OF t(3)] by simp
  have "sv_registry s' = sv_registry s \<or> (\<exists>rec. RemovePeer (unix_secs now) (sv_registry s) (cr_PeerId req) = Inr (sv_registry s', rec))"
    using l t s1 by (auto simp: Leave_def split: sum.splits)
  then have "map_of (bucketPeers (sv_registry s')) = map_of (bucketPeers (sv_registry s)) \<or>
      map_of (bucketPeers (sv_registry s')) = (map_of (bucketPeers (sv_registry s)))(cr_PeerId req := None)"
    using RemovePeer_rows by auto
  moreover have "keyed (sv_registry s')"
    by (rule keyed_sub [OF k]) (use calculation in \<open>auto split: if_splits\<close>)
  ultimately show ?thesis using ent unfolding row_effect_def by (metis fun_upd_other req_peer.simps(2))
next
  case False
  then have "sv_registry s' = sv_registry s \<and> e \<noteq> None"
    using l verifyCall_True by (fastforce simp: Leave_def split: option.splits prod.splits bool.splits)
  then show ?thesis using k by (intro row_effect_same) auto
qed

lemma Watch_effect:
  assumes k: "keyed (sv_registry s)" and w: "serve ed sha co now (RqWatch req n) s = (s', ok)"
  shows "row_effect ed sha co now (RqWatch req n) s s' ok"
proof -
  obtain s1 e where a: "watch_auth ed sha co now s req n = (s1, e)" by fastforce
  have s1: "sv_registry s1 = sv_registry s"
    using a verifyCall_True by (fastforce simp: watch_auth_def split: option.splits prod.splits if_splits)
  have ent: "entitled ed sha co now (RqWatch req n) s" if "e = None" "cr_PeerId req \<noteq> []"
    using a that call_entitled [OF k] by (fastforce simp: watch_auth_def entitled_def split: option.splits prod.splits if_splits)
  have "sv_registry s' = sv_registry s \<and> (ok \<longrightarrow> e = None) \<or>
      e = None \<and> cr_PeerId req \<noteq> [] \<and> sv_registry s' = sv_registry (touch now (markConnected s1 (cr_PeerId req)) (cr_PeerId req))"
    using w a s1 by (auto simp: Watch_def Let_def Subscribe_def split: option.splits prod.splits if_splits)
  moreover have "row_effect ed sha co now (RqWatch req n) s s' ok"
    if "e = None" "cr_PeerId req \<noteq> []" "sv_registry s' = sv_registry (touch now (markConnected s1 (cr_PeerId req)) (cr_PeerId req))"
    using that ent keyed_touch [of "markConnected s1 (cr_PeerId req)" now "cr_PeerId req"] k s1
    by (auto simp: row_effect_def touch_def TouchPeer_def update_conv' split: sum.splits if_splits)
  ultimately show ?thesis using k ent by (auto intro: row_effect_same)
qed

lemma SendSignal_effect:
  assumes k: "keyed (sv_registry s)" and l: "Server_SendSignal ed sha co now s req to payload = (s', e)"
  shows "row_effect ed sha co now (RqSignal req to payload) s s' (e = None) \<and>
    (e = None \<longrightarrow> (\<exists>p q. GetPeer (sv_registry s) (cr_PeerId req) = Inr p \<and> GetPeer (sv_registry s) to = Inr q \<and> pr_NetworkID p = pr_NetworkID q))"
proof -
  have r: "sv_registry s' = sv_registry s"
    using l verifyCall_True by (fastforce simp: Server_SendSignal_def split: option.splits prod.splits bool.splits if_splits)
  have "entitled ed sha co now (RqSignal req to payload) s \<and>
      (\<exists>p q. GetPeer (sv_registry s) (cr_PeerId req) = Inr p \<and> GetPeer (sv_registry s) to = Inr q \<and> pr_NetworkID p = pr_NetworkID q)"
    if e: "e = None"
  proof -
    obtain acc p s1 q where t: "Resolve co (cr_Token req) = Some acc" "authorizePeer s (cr_PeerId req) [] acc = Some p"
      "verifyCall ed sha now s p (cr_Signature req) (SendSignalClaims (\<lambda>b. hex_EncodeToString (sha b)) (cr_PeerId req) to payload
        (cr_TimestampUnix req)) = (s1, True)" "authorizePeer s1 to [] acc = Some q" "pr_NetworkID p = pr_NetworkID q"
      using l e by (auto simp: Server_SendSignal_def split: option.splits prod.splits bool.splits if_splits)
    have s1: "sv_registry s1 = sv_registry s" using verifyCall_True [OF t(3)] by simp
    show ?thesis using call_entitled [OF k t(2,3)] t(1,4,5) s1
      by (auto simp: entitled_def authorizePeer_def split: sum.splits if_splits)
  qed
  then show ?thesis using k r by (auto intro: row_effect_same)
qed

lemma serve_effect:
  assumes "keyed (sv_registry s)" "serve ed sha co now q s = (s', ok)"
  shows "row_effect ed sha co now q s s' ok"
proof (cases q)
  case (RqRegister req)
  obtain s1 r where e: "Register ed sha co now s req = (s1, r)" by fastforce
  show ?thesis using Register_effect [OF assms(1) e] e assms(2) RqRegister by simp
next
  case (RqLeave req)
  obtain s1 r where e: "Leave ed sha co now s req = (s1, r)" by fastforce
  show ?thesis using Leave_effect [OF assms(1) e] e assms(2) RqLeave by auto
next
  case (RqWatch req n)
  show ?thesis using Watch_effect assms RqWatch by blast
next
  case (RqSignal req to payload)
  obtain s1 r where e: "Server_SendSignal ed sha co now s req to payload = (s1, r)" by fastforce
  show ?thesis using SendSignal_effect [OF assms(1) e] e assms(2) RqSignal by auto
qed

lemma srv_step_keyed: "srv_step ed sha co ts ts' \<Longrightarrow> keyed (sv_registry (snd ts)) \<Longrightarrow> keyed (sv_registry (snd ts'))"
proof (induction rule: srv_step.induct)
  case (request t u q s s' ok)
  then show ?case using serve_effect [of s ed sha co u q s' ok] by (simp add: row_effect_def)
next
  case (expel t u s ttl)
  then have "keyed (sv_registry s)" by simp
  then show ?case unfolding snd_conv expel_registry by (rule keyed_sub) (rule Sweep_peers)
next
  case (network t s n cidr name acct r)
  then show ?case by (auto simp: CreateNetwork_def keyed_def split: if_splits)
qed (auto intro: keyed_touch)

lemma srv_run_keyed: "srv_run ed sha co ts ts' \<Longrightarrow> keyed (sv_registry (snd ts)) \<Longrightarrow> keyed (sv_registry (snd ts'))"
  by (induction rule: rtranclp_induct) (auto dest: srv_step_keyed)

text \<open>C12. On a server that started empty, a request that names a peer succeeds only, and a request changes or removes the
  record of a peer only, when it names that peer, is signed at the time by the key the peer's ID spells, and comes with a
  token of the account that owns the network. A signal is relayed only between peers of one network.\<close>

theorem peers_act_for_themselves:
  assumes "srv_run ed sha co (t0, New_Server (NewRegistry [] []) NewBus) (t, s)" and "serve ed sha co u q s = (s', ok)"
  shows "(ok \<and> named q \<longrightarrow> entitled ed sha co u q s) \<and>
    (\<forall>k. map_of (bucketPeers (sv_registry s')) k \<noteq> map_of (bucketPeers (sv_registry s)) k \<longrightarrow> k = req_peer q \<and> entitled ed sha co u q s) \<and>
    (\<forall>p to payload. ok \<and> q = RqSignal p to payload \<longrightarrow>
       (\<exists>a b. GetPeer (sv_registry s) (cr_PeerId p) = Inr a \<and> GetPeer (sv_registry s) to = Inr b \<and> pr_NetworkID a = pr_NetworkID b))"
proof -
  have "keyed (NewRegistry [] [])"
    by (simp add: keyed_def NewRegistry_def blankPersistedEndpoints_def rows_def map_filter_simps)
  then have k: "keyed (sv_registry s)" using srv_run_keyed [OF assms(1)] by (simp add: New_Server_def)
  have "\<exists>a b. GetPeer (sv_registry s) (cr_PeerId p) = Inr a \<and> GetPeer (sv_registry s) to = Inr b \<and> pr_NetworkID a = pr_NetworkID b"
    if ok: "ok" and q: "q = RqSignal p to payload" for p to payload
  proof -
    obtain e where e: "Server_SendSignal ed sha co u s p to payload = (s', e)" "e = None"
      using assms(2) ok q by (cases "Server_SendSignal ed sha co u s p to payload") auto
    show ?thesis using SendSignal_effect [OF k e(1)] e(2) by blast
  qed
  then show ?thesis using serve_effect [OF k assms(2)] unfolding row_effect_def by blast
qed

section \<open>Examples\<close>

definition toy_ed :: ed25519 where
  "toy_ed = \<lparr>Ed_Sign = (\<lambda>_ _. [7]), Ed_Verify = (\<lambda>_ _ sig. sig = [7]), Ed_Public = (\<lambda>k. k), X_Base = Some\<rparr>"

definition example_core :: core where
  "example_core = ce_core [''tok'' \<mapsto> ''acct'']"

definition example_server :: Server where
  "example_server = New_Server \<lparr>bucketNetworks = [(''n'', Some (example_network 0x0a000001 0 []))], bucketPeers = [], reg_endpoints = Map.empty\<rparr> NewBus"

definition example_key :: string where
  "example_key = replicate 43 CHR ''A'' @ [CHR ''='']"

definition example_join :: "int \<Rightarrow> RegisterRequest" where
  "example_join ts = \<lparr>rq_Token = ''tok'', rq_NetworkId = ''n'', rq_Name = [], rq_Ed25519Public = example_key, rq_X25519Public = [],
     rq_Endpoint = ([], None), rq_SubnetRoutes = [], rq_TimestampUnix = ts, rq_Signature = [7]\<rparr>"

lemma example_key_bytes: "b64_DecodeString example_key = Some (replicate 32 0)"
  by code_simp

lemma example_server_run: "srv_run toy_ed sha co (0, New_Server (NewRegistry [] []) NewBus) (0, example_server)"
proof -
  have "CreateNetwork (unix_secs 0) (sv_registry (New_Server (NewRegistry [] []) NewBus)) ''n'' example_cidr ''net'' ''acct'' = Inr (sv_registry example_server)"
    by (simp add: CreateNetwork_def NewRegistry_def blankPersistedEndpoints_def rows_def map_filter_simps example_network_def
        nextIPAfterNetwork_def example_cidr_def New_Server_def example_server_def unix_secs_def)
  from srv_step.network [OF this, of toy_ed sha co] show ?thesis by (auto simp: New_Server_def example_server_def)
qed

lemma example_register_new:
  assumes "pr_Name p = []"
  shows "\<exists>r a. RegisterPeer (sv_registry example_server) p ''n'' FreeMachineLimit = Inr (r, a)"
proof -
  have "pick_addr [] (example_network 0x0a000001 0 []) = Some (Addr4 0x0a000001)"
    by (simp add: pick_addr_def Let_def example_host_list) (simp add: example_network_def)
  then show ?thesis using assms
    by (simp add: RegisterPeer_def register_new_def get_row_def example_server_def New_Server_def Let_def used_addrs_def rows_def
        map_filter_simps FreeMachineLimit_def) (simp add: example_network_def)
qed

lemma example_join_served:
  assumes "\<bar>unix_secs now - ts\<bar> \<le> 120" "0 \<le> now" "unix_secs now < 2 ^ 62"
  shows "\<exists>s. serve toy_ed sha example_core now (RqRegister (example_join ts)) example_server = (s, True)"
proof -
  have w: "wrap64 (unix_secs now - ts) = unix_secs now - ts" using assms by (intro wrap64_id) (auto simp: int64_def)
  have net: "authorizeNetwork s ''n'' ''acct''" if "sv_registry s = sv_registry example_server" for s
    using that by (simp add: authorizeNetwork_def GetNetwork_def get_row_def example_server_def New_Server_def example_network_def
        Prefix_IsValid_def example_cidr_def)
  have v: "VerifyRegisterSignature toy_ed key [7] (register_claims (example_join ts)) (unix_secs now) = None" for key
    using assms(1) w by (simp add: VerifyRegisterSignature_def Let_def register_claims_def example_join_def toy_ed_def
        RegisterTimestampWindow_def abs_le_iff) 
  have u: "snd (firstUse sha now (sv_seen example_server) [7])"
    by (simp add: firstUse_def Let_def example_server_def New_Server_def newSeenSignatures_def maxSeenSignatures_def)
  obtain s1 where a: "register_auth toy_ed sha example_core now example_server (example_join ts) = (s1, Inr (''acct'', hex_EncodeToString (replicate 32 0)))"
    and s1: "sv_registry s1 = sv_registry example_server"
    using v net [of example_server] u
    by (cases "firstUse sha now (sv_seen example_server) [7]")
      (simp add: register_auth_def example_core_def ce_core_def example_key_bytes example_join_def)
  let ?p = "\<lparr>pr_ID = hex_EncodeToString (replicate 32 0), pr_NetworkID = [], pr_Name = [], pr_VPNAddr = Raw [] None,
     pr_Ed25519Public = example_key, pr_X25519Public = [], pr_Endpoint = [], pr_SubnetRoutes = [], pr_LastSeen = unix_secs now,
     pr_RegisteredAt = unix_secs now\<rparr>"
  obtain r0 v where rp: "RegisterPeer (sv_registry s1) ?p ''n'' FreeMachineLimit = Inr (r0, v)"
    using example_register_new [of ?p] s1 by auto
  obtain s2 r where st: "register_store example_core now s1 (example_join ts) ''acct'' (hex_EncodeToString (replicate 32 0)) [] = (s2, Inr r)"
    using rp by (simp add: register_store_def Let_def example_join_def example_core_def ce_core_def)
  have "Register toy_ed sha example_core now example_server (example_join ts) = (s2, Inr r)"
    using a st by (simp add: Register_def) (simp add: example_join_def validPeerName_def endpoint_ok_def)
  then show ?thesis by simp
qed


text \<open>C12, witness: the same registration.\<close>

theorem peers_act_for_themselves_witness:
  "entitled toy_ed id example_core (1000 * second) (RqRegister (example_join 1000)) example_server"
proof -
  obtain s where "serve toy_ed id example_core (1000 * second) (RqRegister (example_join 1000)) example_server = (s, True)"
    using example_join_served [of "1000 * second" 1000 id] by (auto simp: unix_secs_def)
  from peers_act_for_themselves [OF example_server_run this] show ?thesis by simp
qed

section \<open>The edge of the replay window\<close>


end
