(* ===== verification/NatSignal.thy ===== *)
theory NatSignal
  imports Crypto
begin

text \<open>
  The signals peers exchange over the coordination server to traverse NATs, \<open>internal/nat/signal.go\<close>: a payload
  encrypted for the recipient, in an envelope signed by the sender.

  X25519, the key derivation and the AEAD are those of golang.org/x/crypto: the record \<open>nl\<close> of functions. Ed25519 is \<open>ed\<close>
  as in theory Crypto. Random bytes are arguments.
\<close>

section \<open>Encryption for the recipient\<close>

record natlib =
  nl_X25519 :: "bytes \<Rightarrow> bytes \<Rightarrow> bytes option"
  nl_Basepoint :: bytes
  nl_hkdf :: "bytes \<Rightarrow> bytes \<Rightarrow> bytes"
  nl_Seal :: "bytes \<Rightarrow> bytes \<Rightarrow> bytes \<Rightarrow> bytes"
  nl_Open :: "bytes \<Rightarrow> bytes \<Rightarrow> bytes \<Rightarrow> bytes option"

definition signalVersion :: byte where "signalVersion = 1"
definition signalDomain :: string where "signalDomain = ''veld-nat-signal-v1''"
definition ed25519SignatureSize :: nat where "ed25519SignatureSize = 64"
definition ed25519PublicKeySize :: nat where "ed25519PublicKeySize = 32"
definition signalMaxAgeSec :: int where "signalMaxAgeSec = 60"
definition signalMaxSkewSec :: int where "signalMaxSkewSec = 60"
definition signalHeaderLen :: nat where "signalHeaderLen = 1 + 8 + ed25519SignatureSize"
definition signalMinLen :: nat where "signalMinLen = signalHeaderLen + 32 + 12 + 16"
definition signalMaxLen :: nat where "signalMaxLen = 16384"

definition deriveKey :: "natlib \<Rightarrow> bytes \<Rightarrow> bytes" where
  "deriveKey nl shared = put_bytes (replicate 32 0) 0 (nl_hkdf nl shared (str_bytes signalDomain))"

definition encryptSignal :: "natlib \<Rightarrow> bytes \<Rightarrow> bytes \<Rightarrow> bytes \<Rightarrow> bytes \<Rightarrow> bytes option" where
  "encryptSignal nl rnd nonce payload recipientX25519 =
     (let ephPriv = clamp rnd
      in case nl_X25519 nl ephPriv (nl_Basepoint nl) of None \<Rightarrow> None
         | Some ephPubSlice \<Rightarrow>
             (let ephPub = copy_array 32 ephPubSlice
              in case nl_X25519 nl ephPriv recipientX25519 of None \<Rightarrow> None
                 | Some shared \<Rightarrow>
                     (let ct = nl_Seal nl (deriveKey nl shared) nonce payload; out = replicate (32 + 12 + length ct) 0;
                          out = put_bytes out 0 ephPub; out = put_bytes out 32 nonce
                      in Some (put_bytes out 44 ct))))"

definition decryptSignal :: "natlib \<Rightarrow> bytes \<Rightarrow> bytes \<Rightarrow> string + bytes" where
  "decryptSignal nl data priv =
     (if length data < 32 + 12 + 16 then Inl ''signal payload too short''
      else
        (let ephPub = copy_array 32 (take 32 data); nonce = take 12 (drop 32 data); ct = drop 44 data
         in case nl_X25519 nl priv ephPub of None \<Rightarrow> Inl ''signal DH failed''
            | Some shared \<Rightarrow>
                (case nl_Open nl (deriveKey nl shared) nonce ct of
                   None \<Rightarrow> Inl ''signal authentication failed'' | Some plain \<Rightarrow> Inr plain)))"

section \<open>The signed envelope\<close>

definition signalSignedMessage :: "bytes \<Rightarrow> bytes \<Rightarrow> int \<Rightarrow> bytes \<Rightarrow> bytes" where
  "signalSignedMessage from to ts encrypted = str_bytes signalDomain @ from @ to @ int64_bytes ts @ encrypted"

definition sealSignal :: "ed25519 \<Rightarrow> bytes \<Rightarrow> bytes \<Rightarrow> bytes \<Rightarrow> bytes \<Rightarrow> int \<Rightarrow> bytes" where
  "sealSignal ed encrypted from to signer ts =
     (let msg = signalSignedMessage from to ts encrypted; sig = Ed_Sign ed signer msg;
          out = replicate (signalHeaderLen + length encrypted) 0;
          out = out[0 := signalVersion]; out = PutUint64 out 1 (word_of_int ts);
          out = put_bytes out 9 (take (signalHeaderLen - 9) sig)
      in put_bytes out signalHeaderLen encrypted)"

definition envelope_ts :: "bytes \<Rightarrow> int" where
  "envelope_ts envelope = int64_of (of_nat (be_nat (take 8 (drop 1 envelope))))"

definition openSignal :: "ed25519 \<Rightarrow> bytes \<Rightarrow> bytes \<Rightarrow> bytes \<Rightarrow> bytes \<Rightarrow> int \<Rightarrow> string + bytes" where
  "openSignal ed envelope from to senderKey nowSec =
     (if length envelope < signalMinLen then Inl ''signal envelope too short''
      else if length envelope > signalMaxLen then Inl ''signal envelope too large''
      else if envelope ! 0 \<noteq> signalVersion then Inl ''unsupported signal version''
      else if length senderKey \<noteq> ed25519PublicKeySize then Inl ''invalid sender key''
      else if senderKey \<noteq> from then Inl ''sender key does not match claimed peer''
      else
        (let ts = envelope_ts envelope
         in if wrap64 (nowSec - ts) > signalMaxAgeSec then Inl ''signal expired''
            else if wrap64 (ts - nowSec) > signalMaxSkewSec then Inl ''signal timestamp too far in the future''
            else
              (let sig = take ed25519SignatureSize (drop 9 envelope); encrypted = drop signalHeaderLen envelope
               in if \<not> Ed_Verify ed senderKey (signalSignedMessage from to ts encrypted) sig then Inl ''invalid signal signature''
                  else Inr encrypted)))"

definition holdableSignal :: "bytes \<Rightarrow> int \<Rightarrow> bool" where
  "holdableSignal envelope nowSec =
     (if length envelope < signalMinLen \<or> length envelope > signalMaxLen then False
      else if envelope ! 0 \<noteq> signalVersion then False
      else (let ts = envelope_ts envelope
            in ts \<ge> wrap64 (nowSec - signalMaxAgeSec) \<and> ts \<le> wrap64 (nowSec + signalMaxSkewSec)))"

section \<open>Layout\<close>

lemmas signal_sizes = signalHeaderLen_def signalMinLen_def signalMaxLen_def ed25519SignatureSize_def ed25519PublicKeySize_def
  signalMaxAgeSec_def signalMaxSkewSec_def

lemma length_int64_bytes [simp]: "length (int64_bytes ts) = 8"
  by (simp add: int64_bytes_def)

lemma sealSignal_layout:
  assumes "length (Ed_Sign ed signer (signalSignedMessage from to ts enc)) = 64"
  shows "sealSignal ed enc from to signer ts = signalVersion # int64_bytes ts @ Ed_Sign ed signer (signalSignedMessage from to ts enc) @ enc"
proof -
  let ?sig = "Ed_Sign ed signer (signalSignedMessage from to ts enc)"
  have r: "replicate (73 + length enc) (0 :: byte) = 0 # replicate 8 0 @ replicate 64 0 @ replicate (length enc) 0"
    by (simp add: replicate_add [symmetric] numeral_eq_Suc)
  have 1: "PutUint64 (signalVersion # replicate 8 0 @ replicate 64 0 @ replicate (length enc) 0) 1 (word_of_int ts) =
      signalVersion # int64_bytes ts @ replicate 64 0 @ replicate (length enc) 0"
    using put_bytes_at [of "[signalVersion]" 1 "int64_bytes ts" "replicate 8 0" "replicate 64 0 @ replicate (length enc) 0"]
    by (simp add: PutUint64_def int64_bytes_def)
  have 2: "put_bytes (signalVersion # int64_bytes ts @ replicate 64 0 @ replicate (length enc) 0) 9 ?sig =
      signalVersion # int64_bytes ts @ ?sig @ replicate (length enc) 0"
    using put_bytes_at [of "signalVersion # int64_bytes ts" 9 ?sig "replicate 64 0" "replicate (length enc) 0"] assms by simp
  have 3: "put_bytes (signalVersion # int64_bytes ts @ ?sig @ replicate (length enc) 0) 73 enc = signalVersion # int64_bytes ts @ ?sig @ enc"
    using put_bytes_at [of "signalVersion # int64_bytes ts @ ?sig" 73 enc "replicate (length enc) 0" "[]"] assms by simp
  show ?thesis unfolding sealSignal_def Let_def signal_sizes
    using assms 1 2 3 r by simp
qed

lemma signalSignedMessage_inject:
  assumes "length from = 32" "length from' = 32" "length to = 32" "length to' = 32" "int64 ts" "int64 ts'"
    and "signalSignedMessage from to ts enc = signalSignedMessage from' to' ts' enc'"
  shows "from = from' \<and> to = to' \<and> ts = ts' \<and> enc = enc'"
proof -
  have "from @ to @ int64_bytes ts @ enc = from' @ to' @ int64_bytes ts' @ enc'" using assms(7) by (simp add: signalSignedMessage_def)
  then have "from = from'" "to = to'" "int64_bytes ts = int64_bytes ts'" "enc = enc'" using assms(1-4) by auto
  then show ?thesis using int64_bytes_roundtrip [OF assms(5)] int64_bytes_roundtrip [OF assms(6)] by metis
qed

lemma encryptSignal_layout:
  assumes "nl_X25519 nl (clamp rnd) (nl_Basepoint nl) = Some epub" "length epub = 32" "nl_X25519 nl (clamp rnd) pub = Some shared"
    and "length nonce = 12"
  shows "encryptSignal nl rnd nonce payload pub = Some (epub @ nonce @ nl_Seal nl (deriveKey nl shared) nonce payload)"
proof -
  let ?ct = "nl_Seal nl (deriveKey nl shared) nonce payload"
  have r: "replicate (32 + 12 + length ?ct) (0 :: byte) = replicate 32 0 @ replicate 12 0 @ replicate (length ?ct) 0"
    by (simp add: replicate_add [symmetric])
  have 0: "copy_array 32 epub = epub" using assms(2) by (simp add: copy_array_def put_bytes_def)
  have 1: "put_bytes (replicate 32 0 @ replicate 12 0 @ replicate (length ?ct) 0) 0 epub = epub @ replicate 12 0 @ replicate (length ?ct) 0"
    using put_bytes_at [of "[]" 0 epub "replicate 32 0" "replicate 12 0 @ replicate (length ?ct) 0"] assms(2) by simp
  have 2: "put_bytes (epub @ replicate 12 0 @ replicate (length ?ct) 0) 32 nonce = epub @ nonce @ replicate (length ?ct) 0"
    using put_bytes_at [of epub 32 nonce "replicate 12 0" "replicate (length ?ct) 0"] assms(2,4) by simp
  have 3: "put_bytes (epub @ nonce @ replicate (length ?ct) 0) 44 ?ct = epub @ nonce @ ?ct"
    using put_bytes_at [of "epub @ nonce" 44 ?ct "replicate (length ?ct) 0" "[]"] assms(2,4) by simp
  show ?thesis unfolding encryptSignal_def Let_def assms(1,3) option.case 0 r 1 2 3 ..
qed

section \<open>Properties\<close>

lemma wrap64_range: "int64 (wrap64 x)"
  using pos_mod_bound [of "2 ^ 64" "x + 2 ^ 63"] pos_mod_sign [of "2 ^ 64" "x + 2 ^ 63"] by (simp add: wrap64_def int64_def)

lemma wrap64_below: "- (2 ^ 64) \<le> x \<Longrightarrow> x < - (2 ^ 63) \<Longrightarrow> wrap64 x = x + 2 ^ 64"
proof -
  assume x: "- (2 ^ 64) \<le> x" "x < - (2 ^ 63)"
  have "(x + 2 ^ 63) mod 2 ^ 64 = (x + 2 ^ 63 + 2 ^ 64) mod 2 ^ 64" by (rule mod_add_self2 [symmetric])
  also have "\<dots> = x + 2 ^ 63 + 2 ^ 64" using x by (intro mod_pos_pos_trivial) auto
  finally show ?thesis by (simp add: wrap64_def)
qed

lemma fresh_ts:
  assumes "int64 ts" "0 \<le> now" "now < 2 ^ 62" "wrap64 (now - ts) \<le> 60" "wrap64 (ts - now) \<le> 60"
  shows "\<bar>now - ts\<bar> \<le> 60 \<or> ts = now - 2 ^ 63"
proof (cases "now - ts < 2 ^ 63")
  case True
  then have "int64 (now - ts)" "int64 (ts - now)" using assms(1-3) by (auto simp: int64_def)
  then show ?thesis using assms(4,5) by (simp add: wrap64_id)
next
  case False
  show ?thesis
  proof (rule ccontr)
    assume "\<not> ?thesis"
    then have "ts - now < - (2 ^ 63)" using False by simp
    moreover have "- (2 ^ 64) \<le> ts - now" using assms(1-3) by (simp add: int64_def)
    ultimately have "wrap64 (ts - now) = ts - now + 2 ^ 64" by (rule wrap64_below [rotated])
    then show False using assms(1-3,5) by (simp add: int64_def)
  qed
qed

lemma openSignal_Inr:
  assumes "openSignal ed env from to key now = Inr enc"
  shows "signalMinLen \<le> length env \<and> length env \<le> signalMaxLen \<and> env ! 0 = signalVersion \<and> length key = 32 \<and> key = from \<and>
    wrap64 (now - envelope_ts env) \<le> 60 \<and> wrap64 (envelope_ts env - now) \<le> 60 \<and> enc = drop 73 env \<and>
    Ed_Verify ed key (signalSignedMessage from to (envelope_ts env) enc) (take 64 (drop 9 env))"
  using assms by (auto simp: openSignal_def Let_def signal_sizes split: if_splits)

text \<open>C37. A signal is opened only if it carries the signature of the claimed sender's key over sender, recipient, time and
  content, is not longer than 16 KiB and at most a minute old or ahead; such a signal also passes the check made before it
  is held. One timestamp is excepted, exactly 2 to the 63 seconds before now, for which the subtraction wraps around.\<close>

theorem opened_signal_genuine:
  assumes "openSignal ed env from to key now = Inr enc" and "60 \<le> now" "now < 2 ^ 62"
  shows "key = from \<and> length from = 32 \<and> enc = drop 73 env \<and> length env \<le> 16384 \<and>
    Ed_Verify ed from (signalSignedMessage from to (envelope_ts env) enc) (take 64 (drop 9 env)) \<and>
    (envelope_ts env = now - 2 ^ 63 \<or> \<bar>now - envelope_ts env\<bar> \<le> 60 \<and> holdableSignal env now)"
proof -
  note o = openSignal_Inr [OF assms(1)]
  have i: "int64 (envelope_ts env)" by (simp add: envelope_ts_def int64_of_def wrap64_range)
  have f: "\<bar>now - envelope_ts env\<bar> \<le> 60 \<or> envelope_ts env = now - 2 ^ 63"
    using fresh_ts [OF i] o assms(2,3) by simp
  have "wrap64 (now - 60) = now - 60" "wrap64 (now + 60) = now + 60" using assms(2,3) by (intro wrap64_id; simp add: int64_def)+
  then have "holdableSignal env now" if "\<bar>now - envelope_ts env\<bar> \<le> 60"
    using that o by (auto simp: holdableSignal_def Let_def signal_sizes abs_le_iff)
  then show ?thesis using o f by (auto simp: signal_sizes)
qed


section \<open>Examples\<close>

definition signal_ed :: ed25519 where
  "signal_ed = \<lparr>Ed_Sign = (\<lambda>_ _. replicate 64 5), Ed_Verify = (\<lambda>_ _ sig. sig = replicate 64 5), Ed_Public = (\<lambda>_. replicate 32 1), X_Base = Some\<rparr>"

definition signal_lib :: natlib where
  "signal_lib = \<lparr>nl_X25519 = (\<lambda>a b. if length a = 32 \<and> length b = 32 then Some (map2 (+) a b) else None), nl_Basepoint = replicate 32 0,
     nl_hkdf = (\<lambda>s _. s), nl_Seal = (\<lambda>_ _ p. p @ replicate 16 0), nl_Open = (\<lambda>_ _ c. Some (take (length c - 16) c))\<rparr>"

lemma length_clamp [simp]: "length (clamp x) = length x"
  by (simp add: clamp_def Let_def)

lemma signal_lib_base: "length a = 32 \<Longrightarrow> map2 (+) a (replicate 32 (0 :: byte)) = a"
  by (rule nth_equalityI) simp_all

lemma map2_add_commute: "length a = length b \<Longrightarrow> map2 (+) a b = map2 (+) b (a :: byte list)"
  by (rule nth_equalityI) (simp_all add: add.commute)


definition old_signal :: "int \<Rightarrow> bytes" where
  "old_signal ts = signalVersion # int64_bytes ts @ replicate 64 5 @ replicate 60 0"

lemma old_signal_ts: "int64 ts \<Longrightarrow> envelope_ts (old_signal ts) = ts"
  using int64_bytes_roundtrip by (simp add: envelope_ts_def old_signal_def)

lemma old_signal_open:
  assumes "int64 ts" "wrap64 (now - ts) \<le> 60" "wrap64 (ts - now) \<le> 60"
  shows "openSignal signal_ed (old_signal ts) (replicate 32 1) to (replicate 32 1) now = Inr (replicate 60 0)"
  unfolding openSignal_def Let_def old_signal_ts [OF assms(1)] using assms(2,3)
  by (simp add: signal_sizes old_signal_def signal_ed_def)

text \<open>C37, witness: a signal sent ten seconds ago.\<close>

theorem opened_signal_genuine_witness:
  "openSignal signal_ed (old_signal 1000) (replicate 32 1) (replicate 32 2) (replicate 32 1) 1010 = Inr (replicate 60 0) \<and>
   holdableSignal (old_signal 1000) 1010"
proof -
  have o: "openSignal signal_ed (old_signal 1000) (replicate 32 1) (replicate 32 2) (replicate 32 1) 1010 = Inr (replicate 60 0)"
    by (rule old_signal_open) (simp_all add: wrap64_def int64_def)
  have "envelope_ts (old_signal 1000) = 1000" by (rule old_signal_ts) (simp add: int64_def)
  then show ?thesis using o opened_signal_genuine [OF o] by simp
qed

text \<open>The exception: a signal dated 2 to the 63 seconds before now is opened although it is refused when it is to be held.\<close>

lemma ancient_signal_opens:
  "openSignal signal_ed (old_signal (1000 - 2 ^ 63)) (replicate 32 1) to (replicate 32 1) 1000 = Inr (replicate 60 0)"
  "\<not> holdableSignal (old_signal (1000 - 2 ^ 63)) 1000"
proof -
  have i: "int64 (1000 - 2 ^ 63)" by (simp add: int64_def)
  show "openSignal signal_ed (old_signal (1000 - 2 ^ 63)) (replicate 32 1) to (replicate 32 1) 1000 = Inr (replicate 60 0)"
    by (rule old_signal_open [OF i]) (simp_all add: wrap64_def)
  show "\<not> holdableSignal (old_signal (1000 - 2 ^ 63)) 1000"
    unfolding holdableSignal_def Let_def old_signal_ts [OF i] by (simp add: signal_sizes wrap64_def)
qed

end
