(* ===== verification/Routes.thy ===== *)
theory Routes
  imports PeerTable
begin

text \<open>
  Routes to the subnets peers advertise: the check of a route, \<open>internal/route/route.go\<close>, the manager that keeps track of
  the routes it installed, \<open>internal/route/route_linux.go\<close>, and their use in \<open>internal/daemon/daemon.go\<close>.
  The kernel is an argument: a function from the request to its answer, called with everything asked before.
\<close>

section \<open>Overlapping prefixes\<close>

definition Overlaps :: "Prefix \<Rightarrow> Prefix \<Rightarrow> bool" where
  "Overlaps p q = (case (pfx_bits p, pfx_bits q) of
      (Some m, Some n) \<Rightarrow>
        if p = q then True
        else if Is4 (pfx_ip p) \<noteq> Is4 (pfx_ip q) then False
        else (let b = min m n in b = 0 \<or> pfx_ip (Masked (PrefixFrom (pfx_ip p) b)) = pfx_ip (Masked (PrefixFrom (pfx_ip q) b)))
    | _ \<Rightarrow> False)"

section \<open>The check of a route\<close>

datatype route_error = InvalidPrefix | MappedPrefix | TooBroad | ReservedRange | OverlapsMesh

definition CheckPeerRoute :: "Prefix \<Rightarrow> Prefix \<Rightarrow> route_error option" where
  "CheckPeerRoute pfx mesh = (case pfx_bits pfx of
      None \<Rightarrow> Some InvalidPrefix
    | Some bits \<Rightarrow>
        (let addr = pfx_ip (Masked pfx)
         in if Is4In6 addr then Some MappedPrefix
            else if bits < (if Is4 addr then 8 else 16) then Some TooBroad
            else if IsLoopback addr \<or> IsLinkLocalUnicast addr \<or> IsMulticast addr \<or> IsInterfaceLocalMulticast addr \<or> IsUnspecified addr
            then Some ReservedRange
            else if Prefix_IsValid mesh \<and> Overlaps pfx (Masked mesh) then Some OverlapsMesh
            else None))"

section \<open>The manager\<close>

datatype route_request = RouteReplace Prefix Addr | RouteDel Prefix Addr

datatype answer = Done | NoSuchProcess | Failed

record linuxManager =
  lm_routes :: "(Prefix \<times> Addr) list"
  lm_asked :: "route_request list"

definition ask :: "(route_request list \<Rightarrow> route_request \<Rightarrow> answer) \<Rightarrow> linuxManager \<Rightarrow> route_request \<Rightarrow> linuxManager \<times> answer" where
  "ask os m q = (m\<lparr>lm_asked := lm_asked m @ [q]\<rparr>, os (lm_asked m) q)"

definition lm_Add :: "(route_request list \<Rightarrow> route_request \<Rightarrow> answer) \<Rightarrow> linuxManager \<Rightarrow> Prefix \<Rightarrow> Addr \<Rightarrow> linuxManager \<times> bool" where
  "lm_Add os m prefix via = (case ask os m (RouteReplace (Masked prefix) via) of
      (m, Done) \<Rightarrow> (m\<lparr>lm_routes := (prefix, via) # filter (\<lambda>(p, _). p \<noteq> prefix) (lm_routes m)\<rparr>, True)
    | (m, _) \<Rightarrow> (m, False))"

definition lm_Remove :: "(route_request list \<Rightarrow> route_request \<Rightarrow> answer) \<Rightarrow> linuxManager \<Rightarrow> Prefix \<Rightarrow> linuxManager \<times> bool" where
  "lm_Remove os m prefix = (case map_of (lm_routes m) prefix of
      None \<Rightarrow> (m, True)
    | Some via \<Rightarrow>
        (case ask os m (RouteDel (Masked prefix) via) of
           (m, Failed) \<Rightarrow> (m, False)
         | (m, _) \<Rightarrow> (m\<lparr>lm_routes := filter (\<lambda>(p, _). p \<noteq> prefix) (lm_routes m)\<rparr>, True)))"

fun remove_all :: "(route_request list \<Rightarrow> route_request \<Rightarrow> answer) \<Rightarrow> Prefix list \<Rightarrow> linuxManager \<Rightarrow> linuxManager \<times> bool" where
  "remove_all os [] m = (m, True)"
| "remove_all os (p # ps) m = (case lm_Remove os m p of (m, ok) \<Rightarrow> (case remove_all os ps m of (m, ok') \<Rightarrow> (m, ok \<and> ok')))"

definition lm_Close :: "(route_request list \<Rightarrow> route_request \<Rightarrow> answer) \<Rightarrow> linuxManager \<Rightarrow> linuxManager \<times> bool" where
  "lm_Close os m = remove_all os (map fst (lm_routes m)) m"

text \<open>The daemon; \<open>mesh\<close> is the prefix of the TUN device, the zero prefix while there is none.\<close>

fun add_routes :: "(route_request list \<Rightarrow> route_request \<Rightarrow> answer) \<Rightarrow> Prefix \<Rightarrow> Addr \<Rightarrow> Prefix list \<Rightarrow> linuxManager \<Rightarrow> linuxManager" where
  "add_routes os mesh via [] m = m"
| "add_routes os mesh via (pfx # ps) m =
     (if CheckPeerRoute pfx mesh \<noteq> None then add_routes os mesh via ps m
      else add_routes os mesh via ps (fst (lm_Add os m pfx via)))"

definition addPeerRoutes :: "(route_request list \<Rightarrow> route_request \<Rightarrow> answer) \<Rightarrow> Prefix \<Rightarrow> Entry \<Rightarrow> linuxManager \<Rightarrow> linuxManager" where
  "addPeerRoutes os mesh e m = add_routes os mesh (VPNAddr e) (SubnetRoutes e) m"

section \<open>Prefixes that pass the check\<close>

text \<open>A prefix as package netip builds it.\<close>

definition well_formed :: "Prefix \<Rightarrow> bool" where
  "well_formed p \<longleftrightarrow> Zone (pfx_ip p) = [] \<and> (\<forall>b. pfx_bits p = Some b \<longrightarrow> Addr_IsValid (pfx_ip p) \<and> b \<le> BitLen (pfx_ip p))"

lemma mask_off_push: "w AND NOT (mask k) = push_bit k (drop_bit k (w :: 'a::len word))"
  by (rule bit_word_eqI) (auto simp: bit_simps)

lemma drop_bit_coarser: "drop_bit k v = drop_bit k w \<Longrightarrow> k \<le> n \<Longrightarrow> drop_bit n v = drop_bit n (w :: 'a::len word)"
  by (metis drop_bit_drop_bit le_add_diff_inverse2 le_Suc_ex)

lemma same_net_words:
  "same_net b a n \<longleftrightarrow> (\<exists>v w. a = Addr4 v \<and> n = Addr4 w \<and> drop_bit (32 - b) v = drop_bit (32 - b) w) \<or>
     (\<exists>v w z. a = Addr6 v [] \<and> n = Addr6 w z \<and> drop_bit (128 - b) v = drop_bit (128 - b) w)"
  by (cases a; cases n) (auto simp: xor_eq_0_iff and_not_mask_iff)

text \<open>An address in a prefix and the base address of the prefix agree in their leading bits.\<close>

lemma contained_base:
  assumes "well_formed p" "pfx_bits p = Some b" "Contains p a"
  obtains (v4) v w where "a = Addr4 v" "pfx_ip p = Addr4 w" "b \<le> 32" "pfx_ip (Masked p) = Addr4 (w AND NOT (mask (32 - b)))"
      "drop_bit (32 - b) v = drop_bit (32 - b) w"
    | (v6) v w where "a = Addr6 v []" "pfx_ip p = Addr6 w []" "b \<le> 128" "pfx_ip (Masked p) = Addr6 (w AND NOT (mask (128 - b))) []"
      "drop_bit (128 - b) v = drop_bit (128 - b) w"
proof -
  have "same_net b a (pfx_ip p)" using assms(2,3) by (simp add: Contains_def)
  then show thesis using assms(1,2) v4 v6
    by (auto simp: same_net_words well_formed_def Masked_def PrefixFrom_def)
qed

lemma same_base:
  assumes "drop_bit k v = drop_bit k (w :: 'a::len word)"
  shows "v AND NOT (mask k) = w AND NOT (mask k)"
  using assms by (simp add: mask_off_push)

lemma low_word_base: "k > 0 \<Longrightarrow> drop_bit k (1 :: 'a::len word) = 0"
  by (metis drop_bit_Suc drop_bit_of_0 gr0_implies_Suc half_1)

lemma CheckPeerRoute_None:
  assumes "CheckPeerRoute pfx mesh = None"
  obtains b where "pfx_bits pfx = Some b" "\<not> Is4In6 (pfx_ip (Masked pfx))" "b \<ge> (if Is4 (pfx_ip (Masked pfx)) then 8 else 16)"
    "\<not> IsLoopback (pfx_ip (Masked pfx))" "\<not> IsLinkLocalUnicast (pfx_ip (Masked pfx))" "\<not> IsMulticast (pfx_ip (Masked pfx))"
    "\<not> IsUnspecified (pfx_ip (Masked pfx))" "Prefix_IsValid mesh \<Longrightarrow> \<not> Overlaps pfx (Masked mesh)"
  using assms by (auto simp: CheckPeerRoute_def Let_def not_less split: option.splits if_splits)

lemmas address_kinds = IsLoopback_def IsLinkLocalUnicast_def IsMulticast_def

lemma zero_base:
  assumes "drop_bit k (w :: 'a::len word) = 0"
  shows "w AND NOT (mask k) = 0"
  using assms by (simp add: mask_off_push)

lemma reserved_not_covered:
  assumes "well_formed pfx" "CheckPeerRoute pfx mesh = None" "Contains pfx a" "\<not> Is4In6 a"
  shows "\<not> IsLoopback a" "\<not> IsMulticast a" "\<not> IsUnspecified a"
    "IsLinkLocalUnicast a \<Longrightarrow> Is4 a \<and> (\<forall>b. pfx_bits pfx = Some b \<longrightarrow> b < 16)"
proof -
  obtain b where b: "pfx_bits pfx = Some b" "\<not> Is4In6 (pfx_ip (Masked pfx))" "b \<ge> (if Is4 (pfx_ip (Masked pfx)) then 8 else 16)"
    "\<not> IsLoopback (pfx_ip (Masked pfx))" "\<not> IsLinkLocalUnicast (pfx_ip (Masked pfx))" "\<not> IsMulticast (pfx_ip (Masked pfx))"
    "\<not> IsUnspecified (pfx_ip (Masked pfx))" by (rule CheckPeerRoute_None [OF assms(2)])
  have "\<not> IsLoopback a \<and> \<not> IsMulticast a \<and> \<not> IsUnspecified a \<and> (IsLinkLocalUnicast a \<longrightarrow> Is4 a \<and> b < 16)"
  proof (rule contained_base [OF assms(1) b(1) assms(3)])
    fix v w assume h: "a = Addr4 v" "pfx_ip (Masked pfx) = Addr4 (w AND NOT (mask (32 - b)))" "drop_bit (32 - b) v = drop_bit (32 - b) w"
    let ?base = "w AND NOT (mask (32 - b))"
    have d: "drop_bit (32 - b) v = drop_bit (32 - b) ?base" using h(3) by (simp only: drop_bit_mask_off)
    have "b \<ge> 8" using b(3) h(2) by simp
    then have "drop_bit 24 v = drop_bit 24 ?base" "drop_bit 28 v = drop_bit 28 ?base" "b \<ge> 16 \<Longrightarrow> drop_bit 16 v = drop_bit 16 ?base"
      by (intro drop_bit_coarser [OF d]; simp)+
    moreover have "v \<noteq> 0" using zero_base [of "32 - b" w] b(7) h(2,3) by auto
    ultimately show ?thesis using b(4-7) h(1,2) by (cases "b \<ge> 16") (auto simp: address_kinds)
  next
    fix v w assume h: "a = Addr6 v []" "pfx_ip (Masked pfx) = Addr6 (w AND NOT (mask (128 - b))) []" "b \<le> 128"
      "drop_bit (128 - b) v = drop_bit (128 - b) w"
    let ?base = "w AND NOT (mask (128 - b))"
    have d: "drop_bit (128 - b) v = drop_bit (128 - b) ?base" using h(4) by (simp only: drop_bit_mask_off)
    have "b \<ge> 16" using b(3) h(2) by simp
    then have "drop_bit 118 v = drop_bit 118 ?base" "drop_bit 120 v = drop_bit 120 ?base" by (intro drop_bit_coarser [OF d]; simp)+
    moreover have v0: "v \<noteq> 0" using zero_base [of "128 - b" w] b(7) h(2,4) by auto
    moreover have "v \<noteq> 1"
    proof
      assume v: "v = 1"
      show False
      proof (cases "b = 128")
        case True
        then show False using b(2,4) d h(2) v by (simp add: address_kinds)
      next
        case False
        then have "drop_bit (128 - b) w = 0" using low_word_base [of "128 - b"] h(3,4) v by simp
        then show False using zero_base [of "128 - b" w] b(7) h(2) by simp
      qed
    qed
    ultimately show ?thesis using b(2,4-7) h(1,2) assms(4) by (simp add: address_kinds)
  qed
  then show "\<not> IsLoopback a" "\<not> IsMulticast a" "\<not> IsUnspecified a"
    "IsLinkLocalUnicast a \<Longrightarrow> Is4 a \<and> (\<forall>b. pfx_bits pfx = Some b \<longrightarrow> b < 16)" using b(1) by auto
qed

lemma common_address_overlaps:
  assumes "well_formed p" "well_formed q" "Contains p a" "Contains q a"
  shows "Overlaps p (Masked q)"
proof -
  obtain m n where mn: "pfx_bits p = Some m" "pfx_bits q = Some n" using assms(3,4) by (auto simp: Contains_iff)
  have mq: "pfx_bits (Masked q) = Some n"
    using assms(2) mn(2) by (cases "pfx_ip q") (auto simp: Masked_def well_formed_def PrefixFrom_def)
  show ?thesis
  proof (rule contained_base [OF assms(1) mn(1) assms(3)])
    fix v w assume p: "a = Addr4 v" "pfx_ip p = Addr4 w" "m \<le> 32" "drop_bit (32 - m) v = drop_bit (32 - m) w"
    obtain u where q: "pfx_ip q = Addr4 u" "n \<le> 32" "pfx_ip (Masked q) = Addr4 (u AND NOT (mask (32 - n)))" "drop_bit (32 - n) v = drop_bit (32 - n) u"
      by (rule contained_base [OF assms(2) mn(2) assms(4)]) (use p(1) in auto)
    have "drop_bit (32 - min m n) w = drop_bit (32 - min m n) (u AND NOT (mask (32 - n)))"
      using drop_bit_coarser [OF p(4), of "32 - min m n"] drop_bit_coarser [OF q(4) [folded drop_bit_mask_off [of "32 - n" u]], of "32 - min m n"] by simp
    note base = same_base [OF this]
    show ?thesis using p(2,3) q(1-3) mn mq base by (auto simp: Overlaps_def Let_def Masked_def PrefixFrom_def)
  next
    fix v w assume p: "a = Addr6 v []" "pfx_ip p = Addr6 w []" "m \<le> 128" "drop_bit (128 - m) v = drop_bit (128 - m) w"
    obtain u where q: "pfx_ip q = Addr6 u []" "n \<le> 128" "pfx_ip (Masked q) = Addr6 (u AND NOT (mask (128 - n))) []"
        "drop_bit (128 - n) v = drop_bit (128 - n) u"
      by (rule contained_base [OF assms(2) mn(2) assms(4)]) (use p(1) in auto)
    have "drop_bit (128 - min m n) w = drop_bit (128 - min m n) (u AND NOT (mask (128 - n)))"
      using drop_bit_coarser [OF p(4), of "128 - min m n"] drop_bit_coarser [OF q(4) [folded drop_bit_mask_off [of "128 - n" u]], of "128 - min m n"] by simp
    note base = same_base [OF this]
    show ?thesis using p(2,3) q(1-3) mn mq base by (auto simp: Overlaps_def Let_def Masked_def PrefixFrom_def)
  qed
qed

lemma Contains_Masked:
  assumes "well_formed p"
  shows "Contains (Masked p) a \<longleftrightarrow> Contains p a" "Contains p a \<Longrightarrow> pfx_bits (Masked p) = pfx_bits p"
  using assms by (cases "pfx_ip p"; cases "pfx_bits p";
      auto simp: Masked_def well_formed_def PrefixFrom_def Contains_def same_net_words drop_bit_mask_off zero_Prefix_def simp del: drop_bit_and)+

lemma add_routes_asked:
  "RouteReplace p via \<in> set (lm_asked (add_routes os mesh v ps m)) \<Longrightarrow>
     RouteReplace p via \<in> set (lm_asked m) \<or> (\<exists>pfx\<in>set ps. CheckPeerRoute pfx mesh = None \<and> p = Masked pfx)"
  by (induction ps arbitrary: m) (fastforce simp: lm_Add_def ask_def split: if_splits answer.splits)+


text \<open>C43, witness: the route 192.168.1.0/24 in the mesh 10.0.0.1/24.\<close>

definition lan_route :: Prefix where "lan_route = \<lparr>pfx_ip = Addr4 0xc0a80100, pfx_bits = Some 24\<rparr>"

definition mesh_example :: Prefix where "mesh_example = \<lparr>pfx_ip = Addr4 0x0a000001, pfx_bits = Some 24\<rparr>"

definition router_entry :: Entry where
  "router_entry = (example_peer 2 0x0a000002 ''gw'' zero_AddrPort)\<lparr>SubnetRoutes := [lan_route]\<rparr>"

lemma mask_off_8: "(w :: u32) AND NOT (mask 8) = w AND - 256"
  by (simp add: mask_eq_exp_minus_1)

lemma lan_route_base: "Masked lan_route = lan_route" "Masked mesh_example = \<lparr>pfx_ip = Addr4 0x0a000000, pfx_bits = Some 24\<rparr>"
  by (simp_all add: Masked_def PrefixFrom_def lan_route_def mesh_example_def mask_off_8)

lemma lan_route_ok: "CheckPeerRoute lan_route mesh_example = None"
  unfolding CheckPeerRoute_def lan_route_base Let_def
  by (simp add: lan_route_def address_kinds Overlaps_def Masked_def PrefixFrom_def mask_off_8)


text \<open>The exception: 169.0.0.0/8 passes and captures the link-local addresses.\<close>

definition broad_route :: Prefix where "broad_route = \<lparr>pfx_ip = Addr4 0xa9000000, pfx_bits = Some 8\<rparr>"

lemma link_local_captured:
  "CheckPeerRoute broad_route mesh_example = None" "Contains broad_route (Addr4 0xa9fea9fe)" "IsLinkLocalUnicast (Addr4 0xa9fea9fe)"
proof -
  have m: "(w :: u32) AND NOT (mask 24) = w AND - 16777216" for w by (simp add: mask_eq_exp_minus_1)
  have b: "Masked broad_route = broad_route" by (simp add: Masked_def PrefixFrom_def broad_route_def m)
  show "CheckPeerRoute broad_route mesh_example = None"
    unfolding CheckPeerRoute_def b Let_def lan_route_base
    by (simp add: broad_route_def address_kinds Overlaps_def Masked_def PrefixFrom_def m)
qed (simp_all add: broad_route_def Contains_def address_kinds)

end
