(* ===== verification/NodeSetup.thy ===== *)
theory NodeSetup
  imports CoordServer
begin

text \<open>
  What a node tells the coordination server about itself and makes of the answer, the helper functions of
  \<open>internal/daemon/daemon.go\<close>: the name and the endpoint it registers, and the prefix of its TUN device.
\<close>

definition peerNameMaxLen :: nat where "peerNameMaxLen = 63"

definition name_char :: "char \<Rightarrow> char" where
  "name_char c = (let n = of_char c :: nat in
     if 65 \<le> n \<and> n \<le> 90 then char_of (n + 32)
     else if 97 \<le> n \<and> n \<le> 122 \<or> 48 \<le> n \<and> n \<le> 57 then c
     else CHR ''-'')"

definition trim_left :: "string \<Rightarrow> string" where
  "trim_left s = dropWhile (\<lambda>c. c = CHR ''-'') s"

definition TrimRight :: "string \<Rightarrow> string" where
  "TrimRight s = rev (trim_left (rev s))"

definition advertisedPeerName :: "string \<Rightarrow> string \<Rightarrow> string" where
  "advertisedPeerName configured hostname =
     (let name = (if configured = [] then hostname else configured);
          s = TrimRight (trim_left (map name_char name));
          s = (if length s > peerNameMaxLen then TrimRight (take peerNameMaxLen s) else s)
      in if s = [] then ''node'' else s)"

definition advertisedEndpoint :: "string \<times> (Addr \<times> u16) option \<Rightarrow> string" where
  "advertisedEndpoint listenAddr = (case snd listenAddr of
      None \<Rightarrow> []
    | Some (a, p) \<Rightarrow> if p = 0 \<or> IsUnspecified a then [] else fst listenAddr)"

definition deriveMeshPrefix :: "Addr \<Rightarrow> string \<times> Prefix option \<Rightarrow> Prefix" where
  "deriveMeshPrefix vpnAddr networkCIDR =
     (if fst networkCIDR = [] then PrefixFrom vpnAddr 24
      else case snd networkCIDR of
             None \<Rightarrow> PrefixFrom vpnAddr 24
           | Some netCIDR \<Rightarrow> (case pfx_bits netCIDR of None \<Rightarrow> \<lparr>pfx_ip = withoutZone vpnAddr, pfx_bits = None\<rparr> | Some b \<Rightarrow> PrefixFrom vpnAddr b))"

section \<open>The server accepts the name\<close>

lemma name_char_ok: "label_char (name_char c)"
proof -
  have "of_char c < (256 :: nat)" by simp
  then show ?thesis by (auto simp: name_char_def label_char_def Let_def)
qed

lemma trim_left_set: "c \<in> set (trim_left s) \<Longrightarrow> c \<in> set s"
  by (auto simp: trim_left_def dest: set_dropWhileD)

lemma trim_left_hd: "trim_left s \<noteq> [] \<Longrightarrow> hd (trim_left s) \<noteq> CHR ''-''"
  unfolding trim_left_def by (rule hd_dropWhile)

lemma TrimRight_set: "c \<in> set (TrimRight s) \<Longrightarrow> c \<in> set s"
  by (auto simp: TrimRight_def dest: trim_left_set)

lemma TrimRight_last: "TrimRight s \<noteq> [] \<Longrightarrow> last (TrimRight s) \<noteq> CHR ''-''"
  using trim_left_hd [of "rev s"] by (simp add: TrimRight_def last_rev)

lemma TrimRight_prefix: "\<exists>t. s = TrimRight s @ t"
proof -
  have "s = rev (takeWhile (\<lambda>c. c = CHR ''-'') (rev s) @ dropWhile (\<lambda>c. c = CHR ''-'') (rev s))" by simp
  then show ?thesis unfolding TrimRight_def trim_left_def by (metis rev_append)
qed

lemma TrimRight_hd: "TrimRight s \<noteq> [] \<Longrightarrow> hd (TrimRight s) = hd s"
  using TrimRight_prefix [of s] by (metis hd_append2)

lemma TrimRight_length: "length (TrimRight s) \<le> length s"
  using TrimRight_prefix [of s] by (metis le_add1 length_append)

text \<open>C40. The name a node registers is always one the coordination server accepts, whatever name is configured and whatever
  the host is called.\<close>

theorem advertised_name_accepted: "validPeerName (advertisedPeerName configured hostname)"
proof -
  define t where "t = trim_left (map name_char (if configured = [] then hostname else configured))"
  define s where "s = (if length (TrimRight t) > 63 then TrimRight (take 63 (TrimRight t)) else TrimRight t)"
  have eq: "advertisedPeerName configured hostname = (if s = [] then ''node'' else s)"
    by (simp add: advertisedPeerName_def Let_def s_def t_def peerNameMaxLen_def)
  have len: "length s \<le> 63"
    using TrimRight_length [of "take 63 (TrimRight t)"] by (auto simp: s_def)
  have chars: "label_char c" if "c \<in> set s" for c
  proof -
    have "c \<in> set (TrimRight t)"
    proof (cases "length (TrimRight t) > 63")
      case True
      then have "c \<in> set (take 63 (TrimRight t))" using that TrimRight_set by (simp add: s_def)
      then show ?thesis by (rule in_set_takeD)
    qed (use that in \<open>simp add: s_def\<close>)
    then have "c \<in> set (map name_char (if configured = [] then hostname else configured))"
      using TrimRight_set trim_left_set unfolding t_def by blast
    then show ?thesis using name_char_ok by auto
  qed
  have ends: "hd s \<noteq> CHR ''-'' \<and> last s \<noteq> CHR ''-''" if "s \<noteq> []"
  proof -
    have t: "TrimRight t \<noteq> []" using that by (cases "TrimRight t = []") (simp_all add: s_def)
    then have "t \<noteq> []" by (auto simp: TrimRight_def trim_left_def)
    then have "hd t \<noteq> CHR ''-''" unfolding t_def by (rule trim_left_hd)
    then have "hd (TrimRight t) \<noteq> CHR ''-''" using TrimRight_hd [OF t] by simp
    moreover have "hd s = hd (TrimRight t)"
    proof (cases "length (TrimRight t) > 63")
      case True
      then have s: "s = TrimRight (take 63 (TrimRight t))" by (simp add: s_def)
      then have "hd s = hd (take 63 (TrimRight t))" using that TrimRight_hd by simp
      then show ?thesis by simp
    qed (simp add: s_def)
    moreover have "last s \<noteq> CHR ''-''"
      using that TrimRight_last by (cases "length (TrimRight t) > 63") (simp_all add: s_def)
    ultimately show ?thesis by simp
  qed
  show ?thesis
  proof (cases "s = []")
    case True
    then show ?thesis unfolding eq by (simp add: validPeerName_def label_char_def Let_def)
  next
    case False
    then show ?thesis unfolding eq using len chars ends by (auto simp: validPeerName_def list_all_iff)
  qed
qed

end
