(* ===== verification/Spec2Isabelle.thy ===== *)
theory Spec2Isabelle
  imports Session PeerTable AclPolicy FlowTable DataPacket Dataplane Crypto Tofu Daemon Delivery Registry Bus CoordServer NatSignal Routes NodeSetup
begin

text \<open>
  A verification library for veld, a mesh VPN written in Go.

  \<^bold>\<open>The program.\<close> A node runs a daemon (\<open>internal/daemon\<close>). Its dispatcher (\<open>internal/dataplane\<close>) reads IP packets
  from a TUN device, finds the peer by its VPN address in the peer table (\<open>internal/peer\<close>), encrypts the packet with the
  peer's session (\<open>internal/session\<close>) and sends it over UDP; packets from the network take the reverse way, past the replay
  window, the check of the inner source address and the firewall (\<open>internal/acl\<close>: packet parser, policy, flow table).
  Where there is no session, the packet waits in the peer's hold queue and the handshake manager (\<open>internal/handshake\<close>)
  runs a Noise IK handshake (\<open>internal/crypto\<close>), subject to the pins of known keys (\<open>internal/tofu\<close>). Nodes find each
  other through a coordination server (\<open>coord/server\<close>), which keeps networks and peers in a database, hands out VPN
  addresses, relays signals between peers and accepts only requests signed by the peer they name.

  \<^bold>\<open>Theories.\<close> Every theory says at its start which files it models; an operation has the name of its Go function, a field
  the name of the field (with a prefix where two records share it), and an error is a value. Callbacks are functions on the
  state of the component that calls them, so that each component can be used with any state that extends its own record.

  \<^item> \<open>Veld_Prelude\<close>: bytes, machine words, big-endian encodings, time, letter case; \<open>Encoding\<close>: hex and base64;
    \<open>Netip\<close>, \<open>Netip_Text\<close>: addresses, prefixes and their text.
  \<^item> \<open>Session\<close> (\<open>session.go\<close>, \<open>window.go\<close>): the replay window equals a filter over the set of all accepted nonces; with
    concurrent calls a nonce is delivered at most once; nonces are not reused up to the rekey limit.
  \<^item> \<open>PeerTable\<close> (\<open>table.go\<close>, \<open>state.go\<close>): entries in a heap, four indexes that agree with them after every sequence of
    operations; no peer can take over the address, endpoint or name of another; the hold queue.
  \<^item> \<open>AclPacket\<close> (\<open>parse.go\<close>): the parser never reads out of range, skips extension headers and gives back what was put
    into a packet; \<open>AclPolicy\<close> (\<open>policy.go\<close>, \<open>compile.go\<close>, \<open>loader.go\<close>): the compiled policy decides as the policy
    file says, loading is all or nothing; \<open>FlowTable\<close> (\<open>flowtable.go\<close>): the sharded table with its linked eviction list
    refines a list of flows in order of last use and stays within its bound.
  \<^item> \<open>DataPacket\<close> and \<open>Dataplane\<close> (\<open>packet.go\<close>, \<open>dispatcher.go\<close>): data and rejection packets, every handler and setter
    of the dispatcher. The locale \<open>quiet_hooks\<close> holds what the dispatcher needs of its callbacks.
  \<^item> \<open>Crypto\<close> (\<open>keys.go\<close>, \<open>noise.go\<close>, \<open>register.go\<close>, \<open>call.go\<close>): signed messages determine what they sign, the
    handshake of two honest nodes agrees on keys; \<open>Tofu\<close> (\<open>store.go\<close>): pins are not taken over, saving and loading.
  \<^item> \<open>Handshake\<close> (\<open>manager.go\<close>): the manager, with the locales \<open>manager_hooks\<close> and \<open>link_hooks\<close> for its callbacks;
    \<open>Daemon\<close> (\<open>daemon.go\<close>): the wiring of dispatcher, manager and pin store as instances of these locales, and what holds
    of the whole node over all its runs: packets that reach the TUN device passed the firewall, an initiation is accepted
    once, an attempt completes once, sessions change only on a fresh signature.
  \<^item> \<open>Delivery\<close>: two daemons; the first packet from one to the other leads to a handshake and arrives.
  \<^item> \<open>Registry\<close> (\<open>registry.go\<close>, \<open>sweep.go\<close>), \<open>Bus\<close> (\<open>bus.go\<close>) and \<open>CoordServer\<close> (\<open>server.go\<close>, \<open>replay.go\<close>,
    \<open>coord/ce\<close>): the coordination server. Addresses and names stay unique, in range and counted over every sequence of
    operations and restarts; allocation follows its documented order; buffers stay bounded and held signals reach the peer
    that starts to watch; a request succeeds once and only with a signature of the peer it names.
  \<^item> \<open>NatSignal\<close> (\<open>internal/nat/signal.go\<close>): signed and encrypted signals between peers; \<open>Routes\<close> (\<open>internal/route\<close>): which
    routes of a peer reach the kernel; \<open>NodeSetup\<close>: what a node registers, in particular that the server accepts its name.

  \<^bold>\<open>Assumptions.\<close> Ed25519, X25519, SHA-256, the AEAD and the Noise library are arguments. Where a property relies on them,
  the hypothesis says so (a signature made with a key verifies under it; what one side seals the other opens), and a
  witness instantiates them. Random bytes and clock readings are inputs. Panics are the value None, and the properties
  about totality show it does not occur.

  \<^bold>\<open>Bounds.\<close> Loops are structural or have a measure. The flow table's search for room is a loop that may run forever when
  other goroutines interfere: it is a partial function whose value None stands for not returning, it is shown to return
  when no lock is contended, and the case in which it diverges is a lemma. Words keep their width; 64-bit timestamps wrap where the code subtracts them.

  \<^bold>\<open>Concurrency.\<close> An operation that holds a lock throughout is one step. Where a lock is given up in between
  (\<open>Decrypt\<close>, \<open>SendSignal\<close> of the bus) the parts are separate steps and the properties hold for all interleavings of
  them. The flow table's properties are about calls one after the other; what a lookup can do to an eviction under way is
  shown by a lemma. The daemon's properties are about all sequences of handler calls.

  \<^bold>\<open>Not modelled.\<close> The ICE negotiation of NAT traversal and the relay (\<open>internal/nat/manager.go\<close>, \<open>internal/relay\<close>,
  \<open>relay\<close>) drive third-party protocol stacks and sockets; TUN devices, coexistence checks, configuration and key files, DNS and mDNS
  (\<open>internal/tun\<close>, \<open>coexist\<close>, \<open>config\<close>, \<open>dns\<close>, \<open>mdns\<close>) are calls to the operating system or to libraries; the
  coordination client (\<open>internal/coord\<close>) is a gRPC client with timers, and the rate limiter of the server computes with
  floating-point numbers; \<open>gen\<close> is generated; commands and tray are start-up code and user interface. Of \<open>daemon.go\<close> the
  wiring and the helper functions are modelled, not the start-up and the goroutines that feed the handlers.
\<close>

end
